(* ===== verification/Prelude.thy ===== *)
theory Prelude
  imports Main "HOL-Library.Word" "HOL-Library.AList" "HOL-Library.Multiset"
begin

unbundle bit_operations_syntax

text \<open>
  The shared ground of the development: names for Go's machine integers and for the fixed-size
  byte arrays of the chain, big-endian byte strings (\<open>encoding/binary.BigEndian\<close>,
  \<open>big.Int.SetBytes\<close>), \<open>bytes.Compare\<close>, \<open>sort.Sort\<close> with a comparison function, results that
  carry an error, and the arithmetic facts on 64-bit words that every scoring and reward lemma
  uses.

  A \<open>common.Address\<close> (\<^verbatim>\<open>[20]byte\<close>) is a 160-bit word and a \<open>common.Hash\<close> (\<^verbatim>\<open>[32]byte\<close>) a
  256-bit word, both read big-endian; \<open>addr_bytes\<close> and \<open>hash_bytes\<close> give the array back.
  A Go \<open>int\<close> that counts elements is a \<open>nat\<close> or an \<open>int\<close>, a \<open>*big.Int\<close> an \<open>int\<close> (an \<open>int option\<close>
  where the code tests for nil), a \<open>uint64\<close> a 64-bit word with wrap-around.
\<close>

section \<open>Types\<close>

type_synonym byte = "8 word"
type_synonym bytes = "8 word list"
type_synonym u8 = "8 word"
type_synonym u32 = "32 word"
type_synonym u64 = "64 word"
type_synonym address = "160 word"
type_synonym hash = "256 word"

text \<open>Run-time panics of Go that the modelled code can raise.\<close>

datatype panic =
    PanicNilMap       \<comment> \<open>assignment to an entry of a nil map\<close>
  | PanicIndex        \<comment> \<open>index or slice bound out of range\<close>
  | PanicDivide       \<comment> \<open>integer division by zero\<close>
  | PanicNilPointer   \<comment> \<open>nil pointer dereference\<close>
  | PanicExplicit     \<comment> \<open>a call of \<open>panic\<close> in the code\<close>

named_theorems go_defs \<open>unfolding rules of the model's operations\<close>
named_theorems word_bounds \<open>facts that bound the value of a machine word\<close>

section \<open>Results\<close>

definition bindE :: "'e + 'a \<Rightarrow> ('a \<Rightarrow> 'e + 'b) \<Rightarrow> 'e + 'b" where
  "bindE r f = (case r of Inl e \<Rightarrow> Inl e | Inr x \<Rightarrow> f x)"

lemma bindE_simps [simp]:
  "bindE (Inl e) f = Inl e"
  "bindE (Inr x) f = f x"
  by (simp_all add: bindE_def)

lemma bindE_Inr_iff: "bindE r f = Inr y \<longleftrightarrow> (\<exists>x. r = Inr x \<and> f x = Inr y)"
  by (cases r) simp_all

lemma bindE_InrE [elim!]:
  assumes "bindE r f = Inr y"
  obtains x where "r = Inr x" and "f x = Inr y"
  using assms by (auto simp: bindE_Inr_iff)

text \<open>A loop that threads a state through a list and stops at the first error.\<close>

fun foldE :: "('a \<Rightarrow> 's \<Rightarrow> 'e + 's) \<Rightarrow> 'a list \<Rightarrow> 's \<Rightarrow> 'e + 's" where
  "foldE f [] s = Inr s"
| "foldE f (x # xs) s = bindE (f x s) (foldE f xs)"

lemma foldE_invariant:
  assumes "foldE f xs s = Inr s'"
    and "P s"
    and "\<And>x s s'. x \<in> set xs \<Longrightarrow> P s \<Longrightarrow> f x s = Inr s' \<Longrightarrow> P s'"
  shows "P s'"
  using assms
proof (induction xs arbitrary: s)
  case Nil
  then show ?case by simp
next
  case (Cons x xs)
  from Cons.prems(1) obtain t where t: "f x s = Inr t" and rest: "foldE f xs t = Inr s'"
    by auto
  from t Cons.prems(2,3) have "P t" by auto
  with rest show ?case using Cons.IH Cons.prems(3) by auto
qed

lemma foldE_append: "foldE f (xs @ ys) s = bindE (foldE f xs s) (foldE f ys)"
  by (induction xs arbitrary: s) (auto simp: bindE_def split: sum.splits)

section \<open>Machine arithmetic\<close>

lemma unat_mult_le: "unat (a * b :: 'a::len word) \<le> unat a * unat b"
  by (simp add: unat_word_ariths)

lemma unat_add_noov:
  "unat a + unat b < 2 ^ LENGTH('a) \<Longrightarrow> unat (a + b :: 'a::len word) = unat a + unat b"
  using unat_add_lem by blast

lemma unat_mult_noov:
  "unat a * unat b < 2 ^ LENGTH('a) \<Longrightarrow> unat (a * b :: 'a::len word) = unat a * unat b"
  using unat_mult_lem by blast

lemma unat_sub_noov: "b \<le> a \<Longrightarrow> unat (a - b :: 'a::len word) = unat a - unat b"
  by (rule unat_sub)

lemma unat_u64_bound [word_bounds]: "unat (x :: u64) < 2 ^ 64"
  using unsigned_less [of x] by simp

lemma unat_u8_bound [word_bounds]: "unat (x :: u8) < 256"
  using unsigned_less [of x] by simp

text \<open>
  \<open>part * scale / (part + rest)\<close> never exceeds the scale as long as the denominator does not
  wrap, even if the product does: a wrapped product is only smaller.
\<close>

lemma ratio_le:
  fixes a b k :: "'a::len word"
  assumes "unat a + unat b < 2 ^ LENGTH('a)"
  shows "(a * k) div (a + b) \<le> k"
proof (cases "a + b = 0")
  case True
  then show ?thesis by (simp add: word_le_nat_alt unat_div)
next
  case False
  have d: "unat (a + b) = unat a + unat b"
    using assms by (rule unat_add_noov)
  have "unat ((a * k) div (a + b)) \<le> (unat a * unat k) div (unat a + unat b)"
    by (simp add: unat_div d div_le_mono unat_mult_le)
  also have "\<dots> \<le> ((unat a + unat b) * unat k) div (unat a + unat b)"
    by (intro div_le_mono) simp
  also have "\<dots> \<le> unat k"
    by (cases "unat a + unat b = 0") simp_all
  finally show ?thesis by (simp add: word_le_nat_alt)
qed

lemma ratio_unat:
  fixes a b k :: "'a::len word"
  assumes "unat a + unat b < 2 ^ LENGTH('a)" and "unat a * unat k < 2 ^ LENGTH('a)"
  shows "unat ((a * k) div (a + b)) = (unat a * unat k) div (unat a + unat b)"
  by (simp add: unat_div unat_add_noov [OF assms(1)] unat_mult_noov [OF assms(2)])

section \<open>Big-endian bytes\<close>

text \<open>
  \<open>be_bytes n w\<close> is what \<open>binary.BigEndian.PutUint<8n>\<close> (or reading a fixed array) writes;
  \<open>be_nat\<close> is \<open>big.Int.SetBytes\<close>; \<open>be_word\<close> is \<open>binary.BigEndian.Uint<n>\<close>.
\<close>

primrec be_bytes :: "nat \<Rightarrow> 'a::len word \<Rightarrow> bytes" where
  "be_bytes 0 w = []"
| "be_bytes (Suc n) w = ucast (drop_bit (8 * n) w) # be_bytes n w"

definition be_nat :: "bytes \<Rightarrow> nat" where
  "be_nat bs = foldl (\<lambda>n b. 256 * n + unat b) 0 bs"

definition be_word :: "bytes \<Rightarrow> 'a::len word" where
  "be_word bs = of_nat (be_nat bs)"

definition addr_bytes :: "address \<Rightarrow> bytes" where
  "addr_bytes a = be_bytes 20 a"

definition hash_bytes :: "hash \<Rightarrow> bytes" where
  "hash_bytes h = be_bytes 32 h"

definition u64_bytes :: "u64 \<Rightarrow> bytes" where
  "u64_bytes x = be_bytes 8 x"

lemma length_be_bytes [simp]: "length (be_bytes n w) = n"
  by (induction n) simp_all

lemma length_addr_bytes [simp]: "length (addr_bytes a) = 20"
  by (simp add: addr_bytes_def)

lemma length_hash_bytes [simp]: "length (hash_bytes a) = 32"
  by (simp add: hash_bytes_def)

lemma length_u64_bytes [simp]: "length (u64_bytes a) = 8"
  by (simp add: u64_bytes_def)

lemma be_nat_Nil [simp]: "be_nat [] = 0"
  by (simp add: be_nat_def)

lemma be_nat_snoc: "be_nat (bs @ [b]) = 256 * be_nat bs + unat b"
  by (simp add: be_nat_def)

lemma be_nat_Cons: "be_nat (b # bs) = unat b * 256 ^ length bs + be_nat bs"
proof (induction bs rule: rev_induct)
  case Nil
  then show ?case by (simp add: be_nat_def)
next
  case (snoc c bs)
  have "be_nat (b # bs @ [c]) = 256 * be_nat (b # bs) + unat c"
    using be_nat_snoc [of "b # bs" c] by simp
  then show ?case by (simp add: snoc be_nat_snoc algebra_simps)
qed

lemma be_nat_less: "be_nat bs < 256 ^ length bs"
proof (induction bs)
  case Nil
  then show ?case by simp
next
  case (Cons b bs)
  have "unat b * 256 ^ length bs + be_nat bs < Suc (unat b) * 256 ^ length bs"
    using Cons by simp
  also have "\<dots> \<le> 256 * 256 ^ length bs"
    using unat_u8_bound [of b] by (intro mult_le_mono1) simp
  finally show ?case by (simp add: be_nat_Cons)
qed

lemma unat_byte_of: "unat (ucast (drop_bit (8 * n) w) :: byte) = unat (w :: 'a::len word) div 256 ^ n mod 256"
proof -
  have "unat (ucast (drop_bit (8 * n) w) :: byte) = unat (drop_bit (8 * n) w) mod 256"
    by (simp add: unsigned_ucast_eq take_bit_eq_mod)
  also have "unat (drop_bit (8 * n) w) = unat w div 256 ^ n"
    by (simp only: unat_drop_bit_eq) (simp add: drop_bit_eq_div power_mult)
  finally show ?thesis .
qed

lemma be_nat_be_bytes: "be_nat (be_bytes n w) = unat w mod 256 ^ n"
proof (induction n)
  case 0
  then show ?case by simp
next
  case (Suc n)
  have "unat w mod 256 ^ Suc n = 256 ^ n * (unat w div 256 ^ n mod 256) + unat w mod 256 ^ n"
    using mod_mult2_eq [of "unat w" "256 ^ n" 256] by (simp add: mult.commute)
  then show ?case
    by (simp add: be_nat_Cons unat_byte_of Suc)
qed

lemma be_word_be_bytes [simp]:
  assumes "LENGTH('a) \<le> 8 * n"
  shows "(be_word (be_bytes n w) :: 'a::len word) = w"
proof -
  have "unat w < 2 ^ LENGTH('a)" by (rule unsigned_less)
  also have "(2::nat) ^ LENGTH('a) \<le> 2 ^ (8 * n)"
    using assms by (rule power_increasing) simp
  also have "(2::nat) ^ (8 * n) = 256 ^ n"
    by (simp add: power_mult)
  finally show ?thesis
    by (simp add: be_word_def be_nat_be_bytes)
qed

lemma be_nat_inj: "length xs = length ys \<Longrightarrow> be_nat xs = be_nat ys \<Longrightarrow> xs = ys"
proof (induction xs ys rule: list_induct2)
  case Nil
  then show ?case by simp
next
  case (Cons x xs y ys)
  let ?m = "(256::nat) ^ length ys"
  have eq: "unat x * ?m + be_nat xs = unat y * ?m + be_nat ys"
    using Cons by (simp add: be_nat_Cons)
  have lt: "be_nat xs < ?m" "be_nat ys < ?m"
    using be_nat_less [of xs] be_nat_less [of ys] Cons.hyps by simp_all
  have "(unat x * ?m + be_nat xs) div ?m = (unat y * ?m + be_nat ys) div ?m"
    using eq by simp
  then have "unat x = unat y"
    using lt by simp
  with eq Cons.IH show ?case by (simp add: word_unat_eq_iff)
qed

lemma be_bytes_be_word:
  assumes "length bs = n" and "8 * n \<le> LENGTH('a)"
  shows "be_bytes n (be_word bs :: 'a::len word) = bs"
proof (rule be_nat_inj)
  show "length (be_bytes n (be_word bs :: 'a word)) = length bs"
    using assms by simp
  have lt: "be_nat bs < 256 ^ n"
    using be_nat_less [of bs] assms by simp
  also have "(256::nat) ^ n \<le> 2 ^ LENGTH('a)"
    using power_increasing [OF assms(2), of "2::nat"] by (simp add: power_mult)
  finally have "unat (of_nat (be_nat bs) :: 'a word) = be_nat bs"
    by (simp add: unat_of_nat)
  with lt show "be_nat (be_bytes n (be_word bs :: 'a word)) = be_nat bs"
    by (simp add: be_nat_be_bytes be_word_def)
qed

lemma be_bytes_inj:
  assumes "LENGTH('a) \<le> 8 * n"
  shows "be_bytes n (v :: 'a::len word) = be_bytes n w \<longleftrightarrow> v = w"
  using be_word_be_bytes [OF assms, of v] be_word_be_bytes [OF assms, of w] by metis

lemma addr_bytes_inj [simp]: "addr_bytes a = addr_bytes b \<longleftrightarrow> a = b"
  by (simp add: addr_bytes_def be_bytes_inj)

lemma be_word_addr_bytes [simp]: "be_word (addr_bytes a) = a"
  by (simp add: addr_bytes_def)

lemma be_word_u64_bytes [simp]: "be_word (u64_bytes x) = x"
  by (simp add: u64_bytes_def)

lemma be_word_hash_bytes [simp]: "be_word (hash_bytes x) = x"
  by (simp add: hash_bytes_def)

section \<open>Comparing and sorting\<close>

text \<open>\<open>bytes.Compare\<close>: lexicographic, a proper prefix is smaller.\<close>

fun bytes_compare :: "bytes \<Rightarrow> bytes \<Rightarrow> int" where
  "bytes_compare [] [] = 0"
| "bytes_compare [] (y # ys) = -1"
| "bytes_compare (x # xs) [] = 1"
| "bytes_compare (x # xs) (y # ys) =
     (if x < y then -1 else if x > y then 1 else bytes_compare xs ys)"

text \<open>On byte strings of one length the lexicographic order is the numeric one.\<close>

lemma bytes_compare_be_nat:
  "length xs = length ys \<Longrightarrow>
     bytes_compare xs ys = (if be_nat xs < be_nat ys then -1 else if be_nat ys < be_nat xs then 1 else 0)"
proof (induction xs ys rule: list_induct2)
  case Nil
  then show ?case by simp
next
  case (Cons x xs y ys)
  let ?m = "(256::nat) ^ length ys"
  have lt: "be_nat xs < ?m" "be_nat ys < ?m"
    using be_nat_less [of xs] be_nat_less [of ys] Cons.hyps by simp_all
  have less: "unat u * ?m + p < unat v * ?m + q"
    if "unat u < unat v" "p < ?m" for u v :: byte and p q
  proof -
    have "unat u * ?m + p < Suc (unat u) * ?m" using that by simp
    also have "\<dots> \<le> unat v * ?m" using that by (intro mult_le_mono1) simp
    finally show ?thesis by simp
  qed
  consider "x < y" | "y < x" | "x = y" by (rule linorder_cases)
  then show ?case
  proof cases
    case 1
    then show ?thesis
      using less [of x y "be_nat xs" "be_nat ys"] lt Cons.hyps
      by (simp add: be_nat_Cons word_less_nat_alt)
  next
    case 2
    then have "\<not> x < y" by simp
    with 2 show ?thesis
      using less [of y x "be_nat ys" "be_nat xs"] lt Cons.hyps
      by (simp add: be_nat_Cons word_less_nat_alt)
  next
    case 3
    then show ?thesis
      using Cons by (simp add: be_nat_Cons)
  qed
qed

lemma be_nat_addr_bytes: "be_nat (addr_bytes a) = unat a"
proof -
  have "unat a < 2 ^ 160" using unsigned_less [of a] by simp
  then show ?thesis by (simp add: addr_bytes_def be_nat_be_bytes)
qed

lemma bytes_compare_addr:
  "bytes_compare (addr_bytes a) (addr_bytes b) = (if a < b then -1 else if b < a then 1 else 0)"
  by (simp add: bytes_compare_be_nat be_nat_addr_bytes word_less_nat_alt)

text \<open>
  \<open>sort.Sort\<close> with a \<open>Less\<close> method. Go does not fix the algorithm; on keys that \<open>Less\<close> orders
  strictly and totally every correct sort gives this list.
\<close>

fun go_insert :: "('a \<Rightarrow> 'a \<Rightarrow> bool) \<Rightarrow> 'a \<Rightarrow> 'a list \<Rightarrow> 'a list" where
  "go_insert lt x [] = [x]"
| "go_insert lt x (y # ys) = (if lt y x then y # go_insert lt x ys else x # y # ys)"

definition go_sort :: "('a \<Rightarrow> 'a \<Rightarrow> bool) \<Rightarrow> 'a list \<Rightarrow> 'a list" where
  "go_sort lt xs = foldr (go_insert lt) xs []"

lemma mset_go_insert [simp]: "mset (go_insert lt x xs) = add_mset x (mset xs)"
  by (induction xs) simp_all

lemma mset_go_sort [simp]: "mset (go_sort lt xs) = mset xs"
  by (induction xs) (simp_all add: go_sort_def)

lemma set_go_sort [simp]: "set (go_sort lt xs) = set xs"
  by (metis mset_go_sort set_mset_mset)

lemma length_go_sort [simp]: "length (go_sort lt xs) = length xs"
  by (metis mset_go_sort size_mset)

lemma distinct_go_sort [simp]: "distinct (go_sort lt xs) = distinct xs"
  by (metis mset_go_sort distinct_count_atmost_1 set_mset_mset)

lemma go_insert_less: "go_insert (<) (x :: 'a::linorder) xs = insort x xs"
  by (induction xs) auto

lemma go_sort_less: "go_sort (<) (xs :: 'a::linorder list) = sort xs"
  by (induction xs) (simp_all add: go_sort_def go_insert_less)

text \<open>Sorting by a comparison that compares keys is sorting by the key.\<close>

lemma go_sort_key:
  fixes key :: "'a \<Rightarrow> 'b::linorder"
  assumes "\<And>a b. a \<in> set xs \<Longrightarrow> b \<in> set xs \<Longrightarrow> lt a b \<longleftrightarrow> key a < key b"
  shows "go_sort lt xs = sort_key key xs"
proof -
  have ins: "go_insert lt x ys = insort_key key x ys"
    if "\<And>y. y \<in> set ys \<Longrightarrow> lt y x \<longleftrightarrow> key y < key x" for x ys
    using that by (induction ys) (auto simp: not_less)
  show ?thesis
    using assms
  proof (induction xs)
    case Nil
    then show ?case by (simp add: go_sort_def)
  next
    case (Cons x xs)
    then have IH: "go_sort lt xs = sort_key key xs" by simp
    have "go_insert lt x (go_sort lt xs) = insort_key key x (go_sort lt xs)"
      by (rule ins) (use Cons.prems in simp)
    then show ?case using IH by (simp add: go_sort_def)
  qed
qed

section \<open>Sums over words\<close>

lemma sum_list_u64_of_nat:
  "unat (sum_list (xs :: u64 list)) = sum_list (map unat xs) mod 2 ^ 64"
proof (induction xs)
  case Nil
  then show ?case by simp
next
  case (Cons x xs)
  then show ?case by (simp add: unat_word_ariths mod_simps)
qed

lemma sum_list_u64_noov:
  "sum_list (map unat xs) < 2 ^ 64 \<Longrightarrow> unat (sum_list (xs :: u64 list)) = sum_list (map unat xs)"
  by (simp add: sum_list_u64_of_nat)

lemma sum_list_mset_cong: "mset xs = mset ys \<Longrightarrow> sum_list xs = sum_list (ys :: 'a::comm_monoid_add list)"
  by (metis sum_mset_sum_list)

end
