(* ===== verification/Params.thy ===== *)
theory Params
  imports Prelude
begin

text \<open>
  Chain parameters (\<open>src/params/config.go\<close>, \<open>src/params/protocol_params.go\<close>): the configuration
  structures of the PoB engine, the PoB V2 reward model and the Superlight exchange, the fork
  schedule of \<open>ChainConfig\<close>, and the check that a stored chain can be opened with a new
  configuration. A \<open>*big.Int\<close> block number is an \<open>int option\<close>, \<open>None\<close> for nil (no fork).
\<close>

section \<open>Configuration structures\<close>

record Validator =
  v_Enode :: bytes
  v_Owner :: address

record PobConfig =
  pob_Period :: u64
  pob_TickIntervalMs :: u64
  pob_Epoch :: u64
  pob_InitialScore :: u64
  pob_SlashFraction :: u64
  pob_DemotionThreshold :: u64
  pob_ValidatorList :: "Validator list"

record StellarSpeedConfig =
  st_Enabled :: bool
  st_TickIntervalMs :: u64
  st_PipelineEnabled :: bool
  st_ReducedAckQuorum :: bool
  st_MaxTxPerTick :: u64

record SuperlightConfig =
  sl_Enabled :: bool
  sl_MakerFeeBps :: u64
  sl_TakerFeeBps :: u64
  sl_MaxOrdersPerAccount :: u64

record AgentConfig =
  ag_MinStake :: u64
  ag_MaxAgentsPerEpoch :: u64
  ag_RewardPool :: u64
  ag_TaskTimeout :: u64
  ag_HeartbeatBlocks :: u64

definition DefaultAgentConfig :: AgentConfig where
  "DefaultAgentConfig =
     \<lparr>ag_MinStake = 100000000000000000, ag_MaxAgentsPerEpoch = 100000,
      ag_RewardPool = 100000000000000000, ag_TaskTimeout = 5, ag_HeartbeatBlocks = 250\<rparr>"

record PoBV2Config =
  v2_RewardRateBps :: u64
  v2_MinTxValueWei :: u64
  v2_HeartbeatRewardWei :: u64
  v2_MaxBlockRewardWei :: u64
  v2_DecayExponent :: u64
  v2_GoldReserveTargetOZ :: string
  v2_ProducerShareBps :: u64
  v2_AgentShareBps :: u64
  v2_PhysicalShareBps :: u64
  v2_InitialDifficulty :: u64
  v2_NodesPerDifficultyUp :: u64

definition DefaultPoBV2Config :: PoBV2Config where
  "DefaultPoBV2Config =
     \<lparr>v2_RewardRateBps = 5,
      v2_MinTxValueWei = 10000000000000000,
      v2_HeartbeatRewardWei = 10000000000,
      v2_MaxBlockRewardWei = 10000000000000000000,
      v2_DecayExponent = 1,
      v2_GoldReserveTargetOZ = ''1157425200'',
      v2_ProducerShareBps = 3000,
      v2_AgentShareBps = 4000,
      v2_PhysicalShareBps = 3000,
      v2_InitialDifficulty = 1,
      v2_NodesPerDifficultyUp = 1000\<rparr>"

record ChainConfig =
  cc_ChainID :: "int option"
  cc_HomesteadBlock :: "int option"
  cc_DAOForkBlock :: "int option"
  cc_DAOForkSupport :: bool
  cc_EIP150Block :: "int option"
  cc_EIP150Hash :: hash
  cc_EIP155Block :: "int option"
  cc_EIP158Block :: "int option"
  cc_ByzantiumBlock :: "int option"
  cc_ConstantinopleBlock :: "int option"
  cc_PetersburgBlock :: "int option"
  cc_IstanbulBlock :: "int option"
  cc_MuirGlacierBlock :: "int option"
  cc_BerlinBlock :: "int option"
  cc_LondonBlock :: "int option"
  cc_ShenzhenBlock :: "int option"
  cc_DilithiumBlock :: "int option"
  cc_StellarSpeedBlock :: "int option"
  cc_SuperlightBlock :: "int option"
  cc_AgentConsensusBlock :: "int option"
  cc_PoBV2Block :: "int option"
  cc_EWASMBlock :: "int option"
  cc_CatalystBlock :: "int option"
  cc_Pob :: "PobConfig option"
  cc_StellarSpeed :: "StellarSpeedConfig option"
  cc_Superlight :: "SuperlightConfig option"
  cc_Agent :: "AgentConfig option"
  cc_PoBV2 :: "PoBV2Config option"

definition emptyChainConfig :: ChainConfig where
  "emptyChainConfig =
     \<lparr>cc_ChainID = None, cc_HomesteadBlock = None, cc_DAOForkBlock = None, cc_DAOForkSupport = False,
      cc_EIP150Block = None, cc_EIP150Hash = 0, cc_EIP155Block = None, cc_EIP158Block = None,
      cc_ByzantiumBlock = None, cc_ConstantinopleBlock = None, cc_PetersburgBlock = None,
      cc_IstanbulBlock = None, cc_MuirGlacierBlock = None, cc_BerlinBlock = None,
      cc_LondonBlock = None, cc_ShenzhenBlock = None, cc_DilithiumBlock = None,
      cc_StellarSpeedBlock = None, cc_SuperlightBlock = None, cc_AgentConsensusBlock = None,
      cc_PoBV2Block = None, cc_EWASMBlock = None, cc_CatalystBlock = None, cc_Pob = None,
      cc_StellarSpeed = None, cc_Superlight = None, cc_Agent = None, cc_PoBV2 = None\<rparr>"

definition MainnetChainConfig :: ChainConfig where
  "MainnetChainConfig = emptyChainConfig
     \<lparr>cc_ChainID := Some 8004, cc_HomesteadBlock := Some 0, cc_EIP150Block := Some 0,
      cc_EIP155Block := Some 0, cc_EIP158Block := Some 0, cc_ByzantiumBlock := Some 0,
      cc_ConstantinopleBlock := Some 0, cc_PetersburgBlock := Some 0, cc_IstanbulBlock := Some 0,
      cc_MuirGlacierBlock := Some 0, cc_BerlinBlock := Some 0, cc_LondonBlock := Some 0,
      cc_ShenzhenBlock := Some 0, cc_StellarSpeedBlock := Some 0,
      cc_Pob := Some \<lparr>pob_Period = 0, pob_TickIntervalMs = 400, pob_Epoch = 30000,
        pob_InitialScore = 0, pob_SlashFraction = 0, pob_DemotionThreshold = 0,
        pob_ValidatorList = []\<rparr>\<rparr>"

text \<open>Protocol constants (\<open>src/params/protocol_params.go\<close>).\<close>

definition GasLimitBoundDivisor :: u64 where "GasLimitBoundDivisor = 1024"
definition MinGasLimit :: u64 where "MinGasLimit = 5000"
definition BaseFeeChangeDenominator :: u64 where "BaseFeeChangeDenominator = 8"
definition ElasticityMultiplier :: u64 where "ElasticityMultiplier = 2"
definition InitialBaseFee :: u64 where "InitialBaseFee = 1000000000"

section \<open>Decimal strings: \<open>big.Int.SetString(s, 10)\<close>\<close>

definition digit_of :: "char \<Rightarrow> int option" where
  "digit_of c = (let n = of_char c in if 48 \<le> n \<and> n \<le> 57 then Some (n - 48) else None)"

fun digits_value :: "string \<Rightarrow> int \<Rightarrow> int option" where
  "digits_value [] acc = Some acc"
| "digits_value (c # cs) acc =
     (case digit_of c of None \<Rightarrow> None | Some d \<Rightarrow> digits_value cs (10 * acc + d))"

definition unsigned_value :: "string \<Rightarrow> int option" where
  "unsigned_value s = (if s = [] then None else digits_value s 0)"

definition big_SetString :: "string \<Rightarrow> int option" where
  "big_SetString s =
     (case s of
        [] \<Rightarrow> None
      | c # cs \<Rightarrow>
          if c = CHR ''-'' then map_option uminus (unsigned_value cs)
          else if c = CHR ''+'' then unsigned_value cs
          else unsigned_value s)"

section \<open>Forks\<close>

definition isForked :: "int option \<Rightarrow> int option \<Rightarrow> bool" where
  "isForked s head =
     (case s of None \<Rightarrow> False | Some a \<Rightarrow> (case head of None \<Rightarrow> False | Some h \<Rightarrow> a \<le> h))"

definition configNumEqual :: "int option \<Rightarrow> int option \<Rightarrow> bool" where
  "configNumEqual x y =
     (case x of None \<Rightarrow> y = None
      | Some a \<Rightarrow> (case y of None \<Rightarrow> x = None | Some b \<Rightarrow> a = b))"

definition isForkIncompatible :: "int option \<Rightarrow> int option \<Rightarrow> int option \<Rightarrow> bool" where
  "isForkIncompatible s1 s2 head \<longleftrightarrow>
     (isForked s1 head \<or> isForked s2 head) \<and> \<not> configNumEqual s1 s2"

definition IsHomestead :: "ChainConfig \<Rightarrow> int option \<Rightarrow> bool" where
  "IsHomestead c num = isForked (cc_HomesteadBlock c) num"
definition IsDAOFork :: "ChainConfig \<Rightarrow> int option \<Rightarrow> bool" where
  "IsDAOFork c num = isForked (cc_DAOForkBlock c) num"
definition IsEIP150 :: "ChainConfig \<Rightarrow> int option \<Rightarrow> bool" where
  "IsEIP150 c num = isForked (cc_EIP150Block c) num"
definition IsEIP155 :: "ChainConfig \<Rightarrow> int option \<Rightarrow> bool" where
  "IsEIP155 c num = isForked (cc_EIP155Block c) num"
definition IsEIP158 :: "ChainConfig \<Rightarrow> int option \<Rightarrow> bool" where
  "IsEIP158 c num = isForked (cc_EIP158Block c) num"
definition IsByzantium :: "ChainConfig \<Rightarrow> int option \<Rightarrow> bool" where
  "IsByzantium c num = isForked (cc_ByzantiumBlock c) num"
definition IsConstantinople :: "ChainConfig \<Rightarrow> int option \<Rightarrow> bool" where
  "IsConstantinople c num = isForked (cc_ConstantinopleBlock c) num"
definition IsPetersburg :: "ChainConfig \<Rightarrow> int option \<Rightarrow> bool" where
  "IsPetersburg c num \<longleftrightarrow> isForked (cc_PetersburgBlock c) num \<or>
     cc_PetersburgBlock c = None \<and> isForked (cc_ConstantinopleBlock c) num"
definition IsIstanbul :: "ChainConfig \<Rightarrow> int option \<Rightarrow> bool" where
  "IsIstanbul c num = isForked (cc_IstanbulBlock c) num"
definition IsBerlin :: "ChainConfig \<Rightarrow> int option \<Rightarrow> bool" where
  "IsBerlin c num = isForked (cc_BerlinBlock c) num"
definition IsLondon :: "ChainConfig \<Rightarrow> int option \<Rightarrow> bool" where
  "IsLondon c num = isForked (cc_LondonBlock c) num"
definition IsCatalyst :: "ChainConfig \<Rightarrow> int option \<Rightarrow> bool" where
  "IsCatalyst c num = isForked (cc_CatalystBlock c) num"
definition IsShenzhen :: "ChainConfig \<Rightarrow> int option \<Rightarrow> bool" where
  "IsShenzhen c num = isForked (cc_ShenzhenBlock c) num"
definition IsDilithium :: "ChainConfig \<Rightarrow> int option \<Rightarrow> bool" where
  "IsDilithium c num = isForked (cc_DilithiumBlock c) num"
definition IsStellarSpeed :: "ChainConfig \<Rightarrow> int option \<Rightarrow> bool" where
  "IsStellarSpeed c num = isForked (cc_StellarSpeedBlock c) num"
definition IsAgentConsensus :: "ChainConfig \<Rightarrow> int option \<Rightarrow> bool" where
  "IsAgentConsensus c num = isForked (cc_AgentConsensusBlock c) num"
definition IsPoBV2 :: "ChainConfig \<Rightarrow> int option \<Rightarrow> bool" where
  "IsPoBV2 c num = isForked (cc_PoBV2Block c) num"

record Rules =
  r_ChainID :: int
  r_IsHomestead :: bool
  r_IsEIP150 :: bool
  r_IsEIP155 :: bool
  r_IsEIP158 :: bool
  r_IsByzantium :: bool
  r_IsConstantinople :: bool
  r_IsPetersburg :: bool
  r_IsIstanbul :: bool
  r_IsBerlin :: bool
  r_IsLondon :: bool
  r_IsCatalyst :: bool
  r_IsShenzhen :: bool
  r_IsDilithium :: bool
  r_IsAgentConsensus :: bool
  r_IsPoBV2 :: bool

definition RulesAt :: "ChainConfig \<Rightarrow> int option \<Rightarrow> Rules" where
  "RulesAt c num =
     \<lparr>r_ChainID = (case cc_ChainID c of None \<Rightarrow> 0 | Some i \<Rightarrow> i),
      r_IsHomestead = IsHomestead c num, r_IsEIP150 = IsEIP150 c num,
      r_IsEIP155 = IsEIP155 c num, r_IsEIP158 = IsEIP158 c num,
      r_IsByzantium = IsByzantium c num, r_IsConstantinople = IsConstantinople c num,
      r_IsPetersburg = IsPetersburg c num, r_IsIstanbul = IsIstanbul c num,
      r_IsBerlin = IsBerlin c num, r_IsLondon = IsLondon c num,
      r_IsCatalyst = IsCatalyst c num, r_IsShenzhen = IsShenzhen c num,
      r_IsDilithium = IsDilithium c num, r_IsAgentConsensus = IsAgentConsensus c num,
      r_IsPoBV2 = IsPoBV2 c num\<rparr>"

definition PobConfigEpoch :: "ChainConfig \<Rightarrow> u64" where
  "PobConfigEpoch c = (case cc_Pob c of Some p \<Rightarrow> pob_Epoch p | None \<Rightarrow> 30000)"

section \<open>Compatibility of configurations\<close>

record ConfigCompatError =
  ce_What :: string
  ce_StoredConfig :: "int option"
  ce_NewConfig :: "int option"
  ce_RewindTo :: u64

definition compat_rewind :: "int option \<Rightarrow> int option \<Rightarrow> int option" where
  "compat_rewind stored new =
     (case stored of None \<Rightarrow> new
      | Some s \<Rightarrow> (case new of None \<Rightarrow> stored | Some n \<Rightarrow> if s < n then stored else new))"

definition newCompatError :: "string \<Rightarrow> int option \<Rightarrow> int option \<Rightarrow> ConfigCompatError" where
  "newCompatError what stored new =
     \<lparr>ce_What = what, ce_StoredConfig = stored, ce_NewConfig = new,
      ce_RewindTo =
        (case compat_rewind stored new of
           None \<Rightarrow> 0
         | Some r \<Rightarrow> if 0 < r then of_int r - 1 else 0)\<rparr>"

text \<open>A chain of \<open>if cond { return err }\<close> statements: the first condition that holds returns.\<close>

fun first_error :: "(bool \<times> 'e) list \<Rightarrow> 'e option" where
  "first_error [] = None"
| "first_error ((b, e) # rest) = (if b then Some e else first_error rest)"

definition checkCompatible :: "ChainConfig \<Rightarrow> ChainConfig \<Rightarrow> int \<Rightarrow> ConfigCompatError option" where
  "checkCompatible c newcfg h =
     (let head = Some h;
          fork = (\<lambda>what f. (isForkIncompatible (f c) (f newcfg) head,
                             newCompatError what (f c) (f newcfg)))
      in first_error
       [fork ''Homestead fork block'' cc_HomesteadBlock,
        fork ''DAO fork block'' cc_DAOForkBlock,
        (IsDAOFork c head \<and> cc_DAOForkSupport c \<noteq> cc_DAOForkSupport newcfg,
         newCompatError ''DAO fork support flag'' (cc_DAOForkBlock c) (cc_DAOForkBlock newcfg)),
        fork ''EIP150 fork block'' cc_EIP150Block,
        fork ''EIP155 fork block'' cc_EIP155Block,
        fork ''EIP158 fork block'' cc_EIP158Block,
        (IsEIP158 c head \<and> \<not> configNumEqual (cc_ChainID c) (cc_ChainID newcfg),
         newCompatError ''EIP158 chain ID'' (cc_EIP158Block c) (cc_EIP158Block newcfg)),
        fork ''Byzantium fork block'' cc_ByzantiumBlock,
        fork ''Constantinople fork block'' cc_ConstantinopleBlock,
        (isForkIncompatible (cc_PetersburgBlock c) (cc_PetersburgBlock newcfg) head \<and>
           isForkIncompatible (cc_ConstantinopleBlock c) (cc_PetersburgBlock newcfg) head,
         newCompatError ''Petersburg fork block'' (cc_PetersburgBlock c) (cc_PetersburgBlock newcfg)),
        fork ''Istanbul fork block'' cc_IstanbulBlock,
        fork ''Muir Glacier fork block'' cc_MuirGlacierBlock,
        fork ''Berlin fork block'' cc_BerlinBlock,
        fork ''London fork block'' cc_LondonBlock,
        fork ''ewasm fork block'' cc_EWASMBlock,
        fork ''Shenzhen fork block'' cc_ShenzhenBlock,
        fork ''Dilithium fork block'' cc_DilithiumBlock,
        fork ''AgentConsensus fork block'' cc_AgentConsensusBlock])"

lemma first_error_Some: "first_error xs = Some e \<Longrightarrow> \<exists>b. (b, e) \<in> set xs \<and> b"
  by (induction xs rule: first_error.induct) (auto split: if_splits)

lemma compat_rewind_forked:
  assumes "isForked s (Some h) \<or> isForked n (Some h)"
  shows "\<exists>r. compat_rewind s n = Some r \<and> r \<le> h"
  using assms by (auto simp: isForked_def compat_rewind_def split: option.splits)

lemma newCompatError_rewind:
  assumes "isForked s (Some h) \<or> isForked n (Some h)" and "0 \<le> h" and "h < 2 ^ 64"
  shows "uint (ce_RewindTo (newCompatError w s n)) < h \<or> ce_RewindTo (newCompatError w s n) = 0"
proof -
  obtain r where r: "compat_rewind s n = Some r" "r \<le> h"
    using compat_rewind_forked [OF assms(1)] by blast
  show ?thesis
  proof (cases "0 < r")
    case True
    have "(of_int r - 1 :: u64) = word_of_int (r - 1)"
      by simp
    then have "uint (of_int r - 1 :: u64) = (r - 1) mod 2 ^ 64"
      by (simp only: uint_word_of_int_eq) (simp add: take_bit_eq_mod)
    also have "\<dots> = r - 1"
      using True r(2) assms(3) by (intro mod_pos_pos_trivial) simp_all
    finally show ?thesis
      using True r by (simp add: newCompatError_def)
  next
    case False
    then show ?thesis using r by (simp add: newCompatError_def)
  qed
qed

lemma checkCompatible_rewind:
  assumes e: "checkCompatible c n h = Some e" and "0 \<le> h" and "h < 2 ^ 64"
  shows "uint (ce_RewindTo e) < h \<or> ce_RewindTo e = 0"
proof -
  obtain w s m where "e = newCompatError w s m" and "isForked s (Some h) \<or> isForked m (Some h)"
    using first_error_Some [OF e [unfolded checkCompatible_def Let_def]]
    by (auto simp: isForkIncompatible_def IsDAOFork_def IsEIP158_def)
  with assms(2,3) show ?thesis using newCompatError_rewind by blast
qed

text \<open>
  The loop of \<open>CheckCompatible\<close>: check at the head, move the head to the block the error asks to
  rewind to, stop when there is no error or the same block is asked for again. Each round moves
  the head down or ends at block 0, so the loop stops.
\<close>

function compat_loop ::
  "ChainConfig \<Rightarrow> ChainConfig \<Rightarrow> ConfigCompatError option \<Rightarrow> u64 \<Rightarrow> ConfigCompatError option" where
  "compat_loop c newcfg lasterr bhead =
     (case checkCompatible c newcfg (uint bhead) of
        None \<Rightarrow> lasterr
      | Some err \<Rightarrow>
          if (case lasterr of None \<Rightarrow> False | Some l \<Rightarrow> ce_RewindTo err = ce_RewindTo l) then lasterr
          else compat_loop c newcfg (Some err) (ce_RewindTo err))"
  by pat_completeness auto
termination
proof (relation "measure (\<lambda>(c, n, prev, h).
    2 * unat h + (if (\<exists>l. prev = Some l \<and> ce_RewindTo l = h) then 0 else 1))", goal_cases)
  case 1
  then show ?case by simp
next
  case (2 c n prev h err)
  have lt: "uint (ce_RewindTo err) < uint h \<or> ce_RewindTo err = 0"
    using checkCompatible_rewind [OF 2(1)] uint_lt2p [of h] by simp
  show ?case
  proof (cases "ce_RewindTo err = h")
    case True
    with 2(2) show ?thesis by (auto split: option.splits)
  next
    case False
    then have "unat (ce_RewindTo err) < unat h"
      using lt by (auto simp: word_less_nat_alt [symmetric] word_less_alt word_neq_0_conv)
    then show ?thesis by simp
  qed
qed

declare compat_loop.simps [simp del]

definition CheckCompatible :: "ChainConfig \<Rightarrow> ChainConfig \<Rightarrow> u64 \<Rightarrow> ConfigCompatError option" where
  "CheckCompatible c newcfg height = compat_loop c newcfg None height"

text \<open>
  The result of the loop: nothing exactly when the head itself is compatible; otherwise an error
  whose rewind target is compatible, or is block 0.
\<close>

lemma compat_loop_result:
  "compat_loop c n prev h = r \<Longrightarrow>
     (case r of
        None \<Rightarrow> prev = None \<and> checkCompatible c n (uint h) = None
      | Some e \<Rightarrow>
          (r = prev \<and>
             (checkCompatible c n (uint h) = None \<or>
              (\<exists>e'. checkCompatible c n (uint h) = Some e' \<and> ce_RewindTo e' = ce_RewindTo e))) \<or>
          checkCompatible c n (uint (ce_RewindTo e)) = None \<or> ce_RewindTo e = 0)"
proof (induction c n prev h arbitrary: r rule: compat_loop.induct)
  case (1 c n prev h)
  show ?case
  proof (cases "checkCompatible c n (uint h)")
    case None
    with 1 show ?thesis
      by (cases r) (auto simp: compat_loop.simps [of c n prev h])
  next
    case (Some err)
    show ?thesis
    proof (cases "\<exists>l. prev = Some l \<and> ce_RewindTo err = ce_RewindTo l")
      case True
      with 1(2) Some show ?thesis
        by (auto simp: compat_loop.simps [of c n prev h])
    next
      case False
      then have r: "compat_loop c n (Some err) (ce_RewindTo err) = r"
        using 1(2) Some by (auto simp: compat_loop.simps [of c n prev h] split: option.splits)
      have *: "\<not> (case prev of None \<Rightarrow> False | Some l \<Rightarrow> ce_RewindTo err = ce_RewindTo l)"
        using False by (auto split: option.splits)
      have same: "ce_RewindTo err = 0"
        if "checkCompatible c n (uint (ce_RewindTo err)) = Some e'" "ce_RewindTo e' = ce_RewindTo err" for e'
        using checkCompatible_rewind [OF that(1)] that(2) uint_lt2p [of "ce_RewindTo err"] by auto
      show ?thesis
        using 1(1) [OF Some * r] Some same by (cases r) (auto dest: same)
    qed
  qed
qed

lemma CheckCompatible_None_iff:
  "CheckCompatible c n h = None \<longleftrightarrow> checkCompatible c n (uint h) = None"
proof
  assume "CheckCompatible c n h = None"
  then show "checkCompatible c n (uint h) = None"
    using compat_loop_result [of c n None h None] by (simp add: CheckCompatible_def)
next
  assume "checkCompatible c n (uint h) = None"
  then show "CheckCompatible c n h = None"
    by (simp add: CheckCompatible_def compat_loop.simps)
qed

section \<open>Order of the forks\<close>

record fork =
  f_name :: string
  f_block :: "int option"
  f_optional :: bool

definition fork_list :: "ChainConfig \<Rightarrow> fork list" where
  "fork_list c =
     (let req = (\<lambda>n b. \<lparr>f_name = n, f_block = b, f_optional = False\<rparr>);
          opt = (\<lambda>n b. \<lparr>f_name = n, f_block = b, f_optional = True\<rparr>)
      in [req ''homesteadBlock'' (cc_HomesteadBlock c),
          opt ''daoForkBlock'' (cc_DAOForkBlock c),
          req ''eip150Block'' (cc_EIP150Block c),
          req ''eip155Block'' (cc_EIP155Block c),
          req ''eip158Block'' (cc_EIP158Block c),
          req ''byzantiumBlock'' (cc_ByzantiumBlock c),
          req ''constantinopleBlock'' (cc_ConstantinopleBlock c),
          req ''petersburgBlock'' (cc_PetersburgBlock c),
          req ''istanbulBlock'' (cc_IstanbulBlock c),
          opt ''muirGlacierBlock'' (cc_MuirGlacierBlock c),
          opt ''berlinBlock'' (cc_BerlinBlock c),
          opt ''londonBlock'' (cc_LondonBlock c),
          opt ''shenzhenBlock'' (cc_ShenzhenBlock c),
          opt ''dilithiumBlock'' (cc_DilithiumBlock c),
          opt ''stellarSpeedBlock'' (cc_StellarSpeedBlock c),
          opt ''superlightBlock'' (cc_SuperlightBlock c),
          opt ''agentConsensusBlock'' (cc_AgentConsensusBlock c),
          opt ''pobV2Block'' (cc_PoBV2Block c)])"

datatype fork_order_error =
    ForkNotEnabled string string "int option"
  | ForkTooEarly string "int option" string "int option"

text \<open>The loop of \<open>CheckConfigForkOrder\<close>; \<open>None\<close> as last fork is the initial zero value.\<close>

fun fork_order_loop :: "fork option \<Rightarrow> fork list \<Rightarrow> fork_order_error option" where
  "fork_order_loop lastFork [] = None"
| "fork_order_loop lastFork (cur # rest) =
     (let continue_with = (\<lambda>_::unit. fork_order_loop
            (if \<not> f_optional cur \<or> f_block cur \<noteq> None then Some cur else lastFork) rest)
      in case lastFork of
           None \<Rightarrow> continue_with ()
         | Some l \<Rightarrow>
             (case f_block l of
                None \<Rightarrow>
                  if f_block cur \<noteq> None then Some (ForkNotEnabled (f_name l) (f_name cur) (f_block cur))
                  else continue_with ()
              | Some a \<Rightarrow>
                  (case f_block cur of
                     None \<Rightarrow> continue_with ()
                   | Some b \<Rightarrow>
                       if b < a then Some (ForkTooEarly (f_name l) (f_block l) (f_name cur) (f_block cur))
                       else continue_with ())))"

definition CheckConfigForkOrder :: "ChainConfig \<Rightarrow> fork_order_error option" where
  "CheckConfigForkOrder c = fork_order_loop None (fork_list c)"

text \<open>
  A later fork that is enabled lies at or above every earlier fork of an accepted list, and every
  earlier mandatory fork is enabled.
\<close>

lemma fork_order_loop_last:
  assumes "fork_order_loop (Some l) fs = None" and "g \<in> set fs" and "f_block g = Some b"
  shows "\<exists>a. f_block l = Some a \<and> a \<le> b"
  using assms
proof (induction fs arbitrary: l)
  case Nil
  then show ?case by simp
next
  case (Cons cur rest)
  show ?case
  proof (cases "f_block cur")
    case None
    then have step: "fork_order_loop (Some (if \<not> f_optional cur then cur else l)) rest = None"
      using Cons.prems(1) by (auto simp: Let_def split: option.splits)
    have "g \<in> set rest" using Cons.prems(2,3) None by auto
    from Cons.IH [OF step this Cons.prems(3)] show ?thesis
      using None by (auto split: if_splits)
  next
    case (Some d)
    then obtain a where a: "f_block l = Some a" "a \<le> d"
      and step: "fork_order_loop (Some cur) rest = None"
      using Cons.prems(1) by (auto simp: Let_def split: option.splits if_splits)
    show ?thesis
    proof (cases "g = cur")
      case True
      then show ?thesis using a Some Cons.prems(3) by simp
    next
      case False
      then have "g \<in> set rest" using Cons.prems(2) by simp
      from Cons.IH [OF step this Cons.prems(3)] show ?thesis
        using a Some by auto
    qed
  qed
qed

lemma fork_order_loop_sorted:
  assumes "fork_order_loop lastFork (xs @ f # ys) = None"
    and "g \<in> set ys" and "f_block g = Some b" and "\<not> f_optional f \<or> f_block f \<noteq> None"
  shows "\<exists>a. f_block f = Some a \<and> a \<le> b"
  using assms
proof (induction xs arbitrary: lastFork)
  case Nil
  then have "fork_order_loop (Some f) ys = None"
    by (auto simp: Let_def split: option.splits if_splits)
  with Nil show ?case using fork_order_loop_last by blast
next
  case (Cons x xs)
  then obtain l where "fork_order_loop l (xs @ f # ys) = None"
    by (auto simp: Let_def split: option.splits if_splits)
  then show ?case using Cons by blast
qed

lemma fork_order_nth:
  assumes "CheckConfigForkOrder c = None" and "i < j" and "j < length (fork_list c)"
    and "f_block (fork_list c ! j) = Some b"
    and "\<not> f_optional (fork_list c ! i) \<or> f_block (fork_list c ! i) \<noteq> None"
  shows "\<exists>a. f_block (fork_list c ! i) = Some a \<and> a \<le> b"
proof -
  let ?fs = "fork_list c"
  have split: "?fs = take i ?fs @ ?fs ! i # drop (Suc i) ?fs"
    using assms(2,3) by (simp add: id_take_nth_drop)
  have mem: "?fs ! j \<in> set (drop (Suc i) ?fs)"
    using assms(2,3) nth_mem [of "j - Suc i" "drop (Suc i) ?fs"] by simp
  have "fork_order_loop None (take i ?fs @ ?fs ! i # drop (Suc i) ?fs) = None"
    using assms(1) split by (simp add: CheckConfigForkOrder_def)
  from fork_order_loop_sorted [OF this mem assms(4,5)] show ?thesis .
qed

lemma compat_loop_below:
  "compat_loop c n prev h = Some e \<Longrightarrow> prev = Some e \<or> ce_RewindTo e < h \<or> ce_RewindTo e = 0"
proof (induction c n prev h rule: compat_loop.induct)
  case (1 c n prev h)
  show ?case
  proof (cases "checkCompatible c n (uint h)")
    case None
    with 1 show ?thesis by (simp add: compat_loop.simps [of c n prev h])
  next
    case (Some err)
    have below: "ce_RewindTo err < h \<or> ce_RewindTo err = 0"
      using checkCompatible_rewind [OF Some] uint_lt2p [of h] by (simp add: word_less_alt)
    show ?thesis
    proof (cases "case prev of None \<Rightarrow> False | Some l \<Rightarrow> ce_RewindTo err = ce_RewindTo l")
      case True
      with 1(2) Some show ?thesis by (simp add: compat_loop.simps [of c n prev h])
    next
      case False
      with 1(2) Some have "compat_loop c n (Some err) (ce_RewindTo err) = Some e"
        by (simp add: compat_loop.simps [of c n prev h])
      from 1(1) [OF Some False this] below show ?thesis by auto
    qed
  qed
qed

lemma fork_order_nested:
  assumes "CheckConfigForkOrder c = None" and "i < j" and "j < length (fork_list c)"
    and "isForked (f_block (fork_list c ! j)) num"
    and "\<not> f_optional (fork_list c ! i) \<or> f_block (fork_list c ! i) \<noteq> None"
  shows "isForked (f_block (fork_list c ! i)) num"
proof -
  obtain b n where b: "f_block (fork_list c ! j) = Some b" "num = Some n" "b \<le> n"
    using assms(4) by (auto simp: isForked_def split: option.splits)
  from fork_order_nth [OF assms(1-3) b(1) assms(5)] b show ?thesis
    by (auto simp: isForked_def)
qed

text \<open>
  What compatible means, independently of the check: the forks it looks at, and that two fork
  blocks tell every block up to the head the same.
\<close>

definition compared_forks :: "(ChainConfig \<Rightarrow> int option) list" where
  "compared_forks =
     [cc_HomesteadBlock, cc_DAOForkBlock, cc_EIP150Block, cc_EIP155Block, cc_EIP158Block, cc_ByzantiumBlock,
      cc_ConstantinopleBlock, cc_IstanbulBlock, cc_MuirGlacierBlock, cc_BerlinBlock, cc_LondonBlock, cc_EWASMBlock,
      cc_ShenzhenBlock, cc_DilithiumBlock, cc_AgentConsensusBlock]"

definition same_until :: "int \<Rightarrow> int option \<Rightarrow> int option \<Rightarrow> bool" where
  "same_until head s1 s2 \<longleftrightarrow> (\<forall>n \<le> head. isForked s1 (Some n) = isForked s2 (Some n))"

definition same_past :: "ChainConfig \<Rightarrow> ChainConfig \<Rightarrow> int \<Rightarrow> bool" where
  "same_past c newcfg head \<longleftrightarrow>
     (\<forall>f \<in> set compared_forks. same_until head (f c) (f newcfg)) \<and>
     (same_until head (cc_PetersburgBlock c) (cc_PetersburgBlock newcfg) \<or>
      same_until head (cc_ConstantinopleBlock c) (cc_PetersburgBlock newcfg)) \<and>
     (IsDAOFork c (Some head) \<longrightarrow> cc_DAOForkSupport c = cc_DAOForkSupport newcfg) \<and>
     (IsEIP158 c (Some head) \<longrightarrow> cc_ChainID c = cc_ChainID newcfg)"

lemma configNumEqual_eq: "configNumEqual x y \<longleftrightarrow> x = y"
  by (auto simp: configNumEqual_def split: option.splits)

lemma isForkIncompatible_exact: "isForkIncompatible s1 s2 (Some head) \<longleftrightarrow> \<not> same_until head s1 s2"
proof
  assume i: "isForkIncompatible s1 s2 (Some head)"
  then consider x where "s1 = Some x" "x \<le> head" "s2 = None" | y where "s1 = None" "s2 = Some y" "y \<le> head"
    | x y where "s1 = Some x" "s2 = Some y" "x \<noteq> y" "min x y \<le> head"
    by (cases s1; cases s2) (auto simp: isForkIncompatible_def configNumEqual_eq isForked_def min_def)
  then show "\<not> same_until head s1 s2"
  proof cases
    case (3 x y)
    then show ?thesis
      by (auto simp: same_until_def isForked_def min_def intro!: exI [of _ "min x y"] split: if_splits)
  qed (auto simp: same_until_def isForked_def)
qed (auto simp: same_until_def isForkIncompatible_def configNumEqual_eq isForked_def split: option.splits)

lemma first_error_None: "first_error xs = None \<longleftrightarrow> (\<forall>(b, e) \<in> set xs. \<not> b)"
  by (induction xs rule: first_error.induct) auto

lemma checkCompatible_exact: "checkCompatible c newcfg h = None \<longleftrightarrow> same_past c newcfg h"
  by (simp add: checkCompatible_def Let_def first_error_None isForkIncompatible_exact configNumEqual_eq same_past_def
      compared_forks_def)

lemma compat_loop_cong:
  "(\<And>h. checkCompatible c n h = checkCompatible c n' h) \<Longrightarrow> compat_loop c n prev height = compat_loop c n' prev height"
proof (induction c n prev height rule: compat_loop.induct)
  case (1 c n prev height)
  show ?case
    using 1 by (auto simp: compat_loop.simps [of c n prev height] compat_loop.simps [of c n' prev height] split: option.split)
qed

section \<open>Properties\<close>

text \<open>
  C40. \<open>CheckCompatible\<close> reports exactly the rule changes in the past. It returns nothing if and only
  if, at every block up to the given height, the old and the new configuration have the same of the
  sixteen forks it compares active (Petersburg may also follow the old Constantinople block), and the support flag of
  a passed DAO fork and the chain id of a passed EIP158 fork are the same. Otherwise
  the block it says to rewind to is block 0 or a strictly lower block up to which that
  holds; the loop always ends. The StellarSpeed, Superlight and PoB V2 forks are not compared: changing
  their blocks never changes the answer, even when they have passed.
\<close>

theorem CheckCompatible_rewind:
  "(case CheckCompatible c newcfg height of
      None \<Rightarrow> same_past c newcfg (uint height)
    | Some e \<Rightarrow> \<not> same_past c newcfg (uint height) \<and>
        (ce_RewindTo e = 0 \<or> ce_RewindTo e < height \<and> same_past c newcfg (uint (ce_RewindTo e)))) \<and>
   CheckCompatible c (newcfg\<lparr>cc_StellarSpeedBlock := a, cc_SuperlightBlock := b, cc_PoBV2Block := d\<rparr>) height =
     CheckCompatible c newcfg height"
proof (intro conjI)
  show "case CheckCompatible c newcfg height of
      None \<Rightarrow> same_past c newcfg (uint height)
    | Some e \<Rightarrow> \<not> same_past c newcfg (uint height) \<and>
        (ce_RewindTo e = 0 \<or> ce_RewindTo e < height \<and> same_past c newcfg (uint (ce_RewindTo e)))"
  proof (cases "CheckCompatible c newcfg height")
    case None
    then show ?thesis using CheckCompatible_None_iff [of c newcfg height] by (simp add: checkCompatible_exact)
  next
    case (Some e)
    then have l: "compat_loop c newcfg None height = Some e" by (simp add: CheckCompatible_def)
    have "checkCompatible c newcfg (uint height) \<noteq> None"
      using Some CheckCompatible_None_iff [of c newcfg height] by simp
    then show ?thesis
      using Some compat_loop_result [OF l] compat_loop_below [OF l] by (auto simp: checkCompatible_exact)
  qed
  show "CheckCompatible c (newcfg\<lparr>cc_StellarSpeedBlock := a, cc_SuperlightBlock := b, cc_PoBV2Block := d\<rparr>) height =
     CheckCompatible c newcfg height"
    unfolding CheckCompatible_def by (rule compat_loop_cong) (simp add: checkCompatible_def)
qed

text \<open>
  Forks of an accepted configuration are nested: if \<open>CheckConfigForkOrder\<close> returns no error and
  a fork of the list is active at a block, then every earlier fork that is mandatory or scheduled
  is active there too. In particular PoB V2 implies every mandatory fork.
\<close>

theorem accepted_forks_nested:
  assumes "CheckConfigForkOrder c = None"
  shows "(\<forall>i j. i < j \<and> j < length (fork_list c) \<and> isForked (f_block (fork_list c ! j)) num \<and>
             (\<not> f_optional (fork_list c ! i) \<or> f_block (fork_list c ! i) \<noteq> None) \<longrightarrow>
           isForked (f_block (fork_list c ! i)) num) \<and>
         (IsPoBV2 c num \<longrightarrow>
            IsHomestead c num \<and> IsEIP150 c num \<and> IsEIP155 c num \<and> IsEIP158 c num \<and>
            IsByzantium c num \<and> IsConstantinople c num \<and> IsPetersburg c num \<and> IsIstanbul c num)"
proof -
  have pob: "isForked (f_block (fork_list c ! i)) num"
    if "IsPoBV2 c num" "i < 17" "\<not> f_optional (fork_list c ! i)" for i
    using fork_order_nested [OF assms that(2)] that(1,3) by (simp add: fork_list_def IsPoBV2_def)
  have "IsPoBV2 c num \<longrightarrow>
    IsHomestead c num \<and> IsEIP150 c num \<and> IsEIP155 c num \<and> IsEIP158 c num \<and>
    IsByzantium c num \<and> IsConstantinople c num \<and> IsPetersburg c num \<and> IsIstanbul c num"
    using pob [of 0] pob [of 2] pob [of 3] pob [of 4] pob [of 5] pob [of 6] pob [of 7] pob [of 8]
    by (simp add: IsHomestead_def IsEIP150_def IsEIP155_def IsEIP158_def IsByzantium_def
        IsConstantinople_def IsPetersburg_def IsIstanbul_def fork_list_def)
  then show ?thesis using fork_order_nested [OF assms] by blast
qed

theorem accepted_forks_nested_witness:
  "CheckConfigForkOrder (MainnetChainConfig\<lparr>cc_PoBV2Block := Some 100\<rparr>) = None \<and>
   IsPoBV2 (MainnetChainConfig\<lparr>cc_PoBV2Block := Some 100\<rparr>) (Some 100) \<and>
   IsIstanbul (MainnetChainConfig\<lparr>cc_PoBV2Block := Some 100\<rparr>) (Some 100)"
proof -
  have ok: "CheckConfigForkOrder (MainnetChainConfig\<lparr>cc_PoBV2Block := Some 100\<rparr>) = None"
    by (simp add: CheckConfigForkOrder_def fork_list_def MainnetChainConfig_def emptyChainConfig_def)
  have v2: "IsPoBV2 (MainnetChainConfig\<lparr>cc_PoBV2Block := Some 100\<rparr>) (Some 100)"
    by (simp add: IsPoBV2_def isForked_def)
  show ?thesis using ok v2 accepted_forks_nested [OF ok, of "Some 100"] by blast
qed

end
