(* ===== verification/GoMap.thy ===== *)
theory GoMap
  imports Prelude
begin

text \<open>
  Go's built-in map. A map value is nil or holds entries; reading, \<open>len\<close>, \<open>delete\<close> and \<open>range\<close>
  treat nil as empty, assigning to an entry of a nil map panics. The entries are an association
  list whose order is the order in which \<open>range\<close> visits them: Go leaves that order open, so a
  statement about every list of entries is a statement about every iteration order, and a result
  that does not depend on the order is stated as invariance under permuting the entries.

  Maps that the code always creates with \<open>make\<close> before any write are plain association lists with
  the \<open>AList\<close> operations; \<open>gomap\<close> is for the fields that can be nil.
\<close>

section \<open>Entries\<close>

type_synonym ('k, 'v) entries = "('k \<times> 'v) list"

definition keys :: "('k, 'v) entries \<Rightarrow> 'k list" where
  "keys m = map fst m"

definition wf_entries :: "('k, 'v) entries \<Rightarrow> bool" where
  "wf_entries m \<longleftrightarrow> distinct (keys m)"

lemma keys_simps [simp]:
  "keys [] = []"
  "keys ((k, v) # m) = k # keys m"
  by (simp_all add: keys_def)

lemma set_keys: "set (keys m) = dom (map_of m)"
  by (simp add: keys_def dom_map_of_conv_image_fst)

lemma in_keys_iff: "k \<in> set (keys m) \<longleftrightarrow> map_of m k \<noteq> None"
  by (auto simp: set_keys dom_def)

lemma keys_update: "keys (AList.update k v m) = (if k \<in> set (keys m) then keys m else keys m @ [k])"
  by (simp add: keys_def update_keys)

lemma keys_delete: "keys (AList.delete k m) = filter (\<lambda>k'. k' \<noteq> k) (keys m)"
  by (simp add: keys_def delete_keys removeAll_filter_not_eq) (metis (no_types))

lemma wf_entries_empty [simp]: "wf_entries []"
  by (simp add: wf_entries_def)

lemma wf_entries_update [simp]: "wf_entries m \<Longrightarrow> wf_entries (AList.update k v m)"
  by (simp add: wf_entries_def keys_update)

lemma wf_entries_delete [simp]: "wf_entries m \<Longrightarrow> wf_entries (AList.delete k m)"
  by (simp add: wf_entries_def keys_delete)

lemma map_of_update_if [simp]:
  "map_of (AList.update k v m) k' = (if k' = k then Some v else map_of m k')"
  by (simp add: update_conv')

lemma map_of_delete_if [simp]:
  "map_of (AList.delete k m) k' = (if k' = k then None else map_of m k')"
  by (auto simp: delete_conv')

lemma length_update:
  "length (AList.update k v m) = (if k \<in> set (keys m) then length m else Suc (length m))"
  using arg_cong [OF keys_update [of k v m], of length] by (simp add: keys_def split: if_splits)

lemma length_delete:
  "wf_entries m \<Longrightarrow> length (AList.delete k m) = (if k \<in> set (keys m) then length m - 1 else length m)"
proof -
  assume "wf_entries m"
  then have d: "distinct (keys m)" by (simp add: wf_entries_def)
  have "length (AList.delete k m) = length (filter (\<lambda>k'. k' \<noteq> k) (keys m))"
    using arg_cong [OF keys_delete [of k m], of length] by (simp add: keys_def)
  also have "\<dots> = card (set (keys m) - {k})"
    using d by (simp add: distinct_card [symmetric] set_diff_eq Collect_conj_eq Int_commute)
  also have "\<dots> = (if k \<in> set (keys m) then card (set (keys m)) - 1 else card (set (keys m)))"
    by simp
  also have "card (set (keys m)) = length m"
    using distinct_card [OF d] by (simp add: keys_def)
  finally show ?thesis .
qed

lemma map_of_mset_cong:
  assumes "wf_entries m" and "mset m = mset m'"
  shows "map_of m = map_of m'"
proof -
  have "distinct (map fst m')"
    using assms by (metis wf_entries_def keys_def mset_map mset_eq_imp_distinct_iff)
  moreover have "set m = set m'"
    using assms(2) by (metis set_mset_mset)
  ultimately show ?thesis
    using assms(1) by (auto simp: wf_entries_def keys_def intro: map_of_eqI simp: map_of_inject_set)
qed

section \<open>Maps that may be nil\<close>

datatype ('k, 'v) gomap = NilMap | GoMap "('k, 'v) entries"

primrec entries :: "('k, 'v) gomap \<Rightarrow> ('k, 'v) entries" where
  "entries NilMap = []"
| "entries (GoMap es) = es"

definition gm_get :: "('k, 'v) gomap \<Rightarrow> 'k \<Rightarrow> 'v option" where
  "gm_get m k = map_of (entries m) k"

definition gm_len :: "('k, 'v) gomap \<Rightarrow> nat" where
  "gm_len m = length (entries m)"

primrec gm_put :: "('k, 'v) gomap \<Rightarrow> 'k \<Rightarrow> 'v \<Rightarrow> panic + ('k, 'v) gomap" where
  "gm_put NilMap k v = Inl PanicNilMap"
| "gm_put (GoMap es) k v = Inr (GoMap (AList.update k v es))"

primrec gm_del :: "('k, 'v) gomap \<Rightarrow> 'k \<Rightarrow> ('k, 'v) gomap" where
  "gm_del NilMap k = NilMap"
| "gm_del (GoMap es) k = GoMap (AList.delete k es)"

definition gm_make :: "('k, 'v) gomap" where
  "gm_make = GoMap []"

definition gm_wf :: "('k, 'v) gomap \<Rightarrow> bool" where
  "gm_wf m \<longleftrightarrow> wf_entries (entries m)"

text \<open>What a client of a map relies on: reads after writes, and that nil only panics on writes.\<close>

locale map_laws =
  fixes get :: "'m \<Rightarrow> 'k \<Rightarrow> 'v option"
    and put :: "'m \<Rightarrow> 'k \<Rightarrow> 'v \<Rightarrow> panic + 'm"
    and del :: "'m \<Rightarrow> 'k \<Rightarrow> 'm"
    and fresh :: "'m"
    and ok :: "'m \<Rightarrow> bool"
  assumes get_fresh: "get fresh k = None"
    and put_fresh: "\<exists>m'. put fresh k v = Inr m'"
    and get_put: "put m k v = Inr m' \<Longrightarrow> get m' k' = (if k' = k then Some v else get m k')"
    and put_put: "put m k v = Inr m' \<Longrightarrow> \<exists>m''. put m' k' v' = Inr m''"
    and get_del: "get (del m k) k' = (if k' = k then None else get m k')"
    and ok_fresh: "ok fresh"
    and ok_put: "ok m \<Longrightarrow> put m k v = Inr m' \<Longrightarrow> ok m'"
    and ok_del: "ok m \<Longrightarrow> ok (del m k)"
begin

lemma get_put_same: "put m k v = Inr m' \<Longrightarrow> get m' k = Some v"
  by (simp add: get_put)

lemma get_put_other: "put m k v = Inr m' \<Longrightarrow> k' \<noteq> k \<Longrightarrow> get m' k' = get m k'"
  by (simp add: get_put)

lemma get_del_put: "put m k v = Inr m' \<Longrightarrow> get m k = None \<Longrightarrow> get (del m' k) k' = get m k'"
  by (simp add: get_put get_del)

end

lemma gm_put_eq: "gm_put m k v = Inr m' \<longleftrightarrow> (\<exists>es. m = GoMap es \<and> m' = GoMap (AList.update k v es))"
  by (cases m) auto

interpretation gm: map_laws gm_get gm_put gm_del gm_make gm_wf
proof
  show "gm_get gm_make k = (None :: 'b option)" for k :: 'a
    by (simp add: gm_get_def gm_make_def)
  show "\<exists>m'. gm_put gm_make k v = Inr m'" for k :: 'a and v :: 'b
    by (simp add: gm_make_def)
  show "gm_get m' k' = (if k' = k then Some v else gm_get m k')"
    if "gm_put m k v = Inr m'" for m m' :: "('a, 'b) gomap" and k k' v
    using that by (auto simp: gm_put_eq gm_get_def)
  show "\<exists>m''. gm_put m' k' v' = Inr m''"
    if "gm_put m k v = Inr m'" for m m' :: "('a, 'b) gomap" and k k' v v'
    using that by (auto simp: gm_put_eq)
  show "gm_get (gm_del m k) k' = (if k' = k then None else gm_get m k')"
    for m :: "('a, 'b) gomap" and k k'
    by (cases m) (simp_all add: gm_get_def)
  show "gm_wf (gm_make :: ('a, 'b) gomap)"
    by (simp add: gm_wf_def gm_make_def)
  show "gm_wf m'" if "gm_wf m" "gm_put m k v = Inr m'" for m m' :: "('a, 'b) gomap" and k v
    using that by (auto simp: gm_wf_def gm_put_eq)
  show "gm_wf (gm_del m k)" if "gm_wf m" for m :: "('a, 'b) gomap" and k
    using that by (cases m) (simp_all add: gm_wf_def)
qed

lemma entries_make [simp]: "entries gm_make = []"
  by (simp add: gm_make_def)

lemma gm_put_make [simp]: "gm_put gm_make k v = Inr (GoMap [(k, v)])"
  by (simp add: gm_make_def)

end
