(* ===== verification/Behavior.thy ===== *)
theory Behavior
  imports GoMap
begin

text \<open>
  Behaviour scoring (\<open>src/consensus/pob/behavior.go\<close>): the four scoring agents (validators,
  SmartLight nodes, Agent nodes, Physical nodes), each with its history record, its score record,
  one function per dimension and a weighted total in basis points. All counters and scores are
  \<open>uint64\<close>: 64-bit words whose sums and products wrap, as in the code.
\<close>

section \<open>Constants\<close>

definition maxScore :: u64 where "maxScore = 10000"
definition defaultInitialScore :: u64 where "defaultInitialScore = 5000"

lemma unat_maxScore [simp]: "unat maxScore = 10000"
  by (simp add: maxScore_def)

lemma defaultInitialScore_le [simp]: "defaultInitialScore \<le> maxScore"
  by (simp add: maxScore_def defaultInitialScore_def)

section \<open>Validators\<close>

record BehaviorScore =
  bs_Total :: u64
  bs_Liveness :: u64
  bs_Correctness :: u64
  bs_Cooperation :: u64
  bs_Consistency :: u64
  bs_SignalSovereignty :: u64
  bs_LastUpdate :: u64

record ValidatorHistory =
  vh_BlocksProposed :: u64
  vh_BlocksMissed :: u64
  vh_InvalidProposals :: u64
  vh_AcksGiven :: u64
  vh_AcksMissed :: u64
  vh_SlashCount :: u64
  vh_RydbergVerified :: u64
  vh_RadioSyncs :: u64
  vh_StellarBlocks :: u64

definition zeroValidatorHistory :: ValidatorHistory where
  "zeroValidatorHistory =
     \<lparr>vh_BlocksProposed = 0, vh_BlocksMissed = 0, vh_InvalidProposals = 0, vh_AcksGiven = 0,
      vh_AcksMissed = 0, vh_SlashCount = 0, vh_RydbergVerified = 0, vh_RadioSyncs = 0,
      vh_StellarBlocks = 0\<rparr>"

record BehaviorAgent =
  ba_weights :: "u64 list"

definition NewBehaviorAgent :: BehaviorAgent where
  "NewBehaviorAgent = \<lparr>ba_weights = [25, 25, 18, 17, 15]\<rparr>"

definition calcLiveness :: "ValidatorHistory \<Rightarrow> u64" where
  "calcLiveness h =
     (let totalOpportunities = vh_BlocksProposed h + vh_BlocksMissed h in
      if totalOpportunities = 0 then maxScore
      else (vh_BlocksProposed h * maxScore) div totalOpportunities)"

definition calcCorrectness :: "ValidatorHistory \<Rightarrow> u64" where
  "calcCorrectness h =
     (let totalProposals = vh_BlocksProposed h + vh_InvalidProposals h in
      if totalProposals = 0 then maxScore
      else (vh_BlocksProposed h * maxScore) div totalProposals)"

definition calcCooperation :: "ValidatorHistory \<Rightarrow> u64" where
  "calcCooperation h =
     (let totalAcks = vh_AcksGiven h + vh_AcksMissed h in
      if totalAcks = 0 then maxScore
      else (vh_AcksGiven h * maxScore) div totalAcks)"

definition calcConsistency :: "ValidatorHistory \<Rightarrow> u64" where
  "calcConsistency h =
     (let penalty = vh_SlashCount h * 1000 in
      if penalty \<ge> maxScore then 0 else maxScore - penalty)"

definition calcSignalSovereignty :: "ValidatorHistory \<Rightarrow> u64" where
  "calcSignalSovereignty h =
     (let totalStellarOps = vh_RydbergVerified h + vh_RadioSyncs h + vh_StellarBlocks h in
      if totalStellarOps = 0 then defaultInitialScore
      else
        let score = 0;
            score = (if vh_StellarBlocks h > 0 then
                       (let rydbergRatio = (vh_RydbergVerified h * maxScore) div vh_StellarBlocks h;
                            rydbergRatio = (if rydbergRatio > maxScore then maxScore else rydbergRatio)
                        in score + rydbergRatio * 40 div 100)
                     else score);
            radioScore = vh_RadioSyncs h * 100;
            radioScore = (if radioScore > maxScore then maxScore else radioScore);
            score = score + radioScore * 30 div 100;
            stellarScore = vh_StellarBlocks h * 50;
            stellarScore = (if stellarScore > maxScore then maxScore else stellarScore);
            score = score + stellarScore * 30 div 100
        in if score > maxScore then maxScore else score)"

definition EvaluateValidator :: "BehaviorAgent \<Rightarrow> address \<Rightarrow> ValidatorHistory \<Rightarrow> u64 \<Rightarrow> BehaviorScore" where
  "EvaluateValidator ba addr h blockNumber =
     (let liveness = calcLiveness h;
          correctness = calcCorrectness h;
          cooperation = calcCooperation h;
          consistency = calcConsistency h;
          signalSovereignty = calcSignalSovereignty h;
          w = ba_weights ba;
          total = (liveness * w ! 0 + correctness * w ! 1 + cooperation * w ! 2 +
                   consistency * w ! 3 + signalSovereignty * w ! 4) div 100;
          total = (if total > maxScore then maxScore else total)
      in \<lparr>bs_Total = total, bs_Liveness = liveness, bs_Correctness = correctness,
          bs_Cooperation = cooperation, bs_Consistency = consistency,
          bs_SignalSovereignty = signalSovereignty, bs_LastUpdate = blockNumber\<rparr>)"

definition EvaluateValidatorFast ::
  "BehaviorAgent \<Rightarrow> address \<Rightarrow> ValidatorHistory \<Rightarrow> u64 \<Rightarrow> u64 \<Rightarrow> BehaviorScore option \<Rightarrow> BehaviorScore" where
  "EvaluateValidatorFast ba addr h blockNumber epochLength cachedScore =
     (case cachedScore of
        None \<Rightarrow> EvaluateValidator ba addr h blockNumber
      | Some c \<Rightarrow>
          if epochLength = 0 \<or> blockNumber mod epochLength = 0
          then EvaluateValidator ba addr h blockNumber
          else \<lparr>bs_Total = bs_Total c, bs_Liveness = bs_Liveness c,
                bs_Correctness = bs_Correctness c, bs_Cooperation = bs_Cooperation c,
                bs_Consistency = bs_Consistency c,
                bs_SignalSovereignty = bs_SignalSovereignty c, bs_LastUpdate = blockNumber\<rparr>)"

definition UpdateScores ::
  "BehaviorAgent \<Rightarrow> (address, BehaviorScore) entries \<Rightarrow> (address, ValidatorHistory) entries \<Rightarrow> u64
   \<Rightarrow> (address, BehaviorScore) entries" where
  "UpdateScores ba validators histories blockNumber =
     map (\<lambda>(addr, _).
            (addr, EvaluateValidator ba addr
               (case map_of histories addr of Some h \<Rightarrow> h | None \<Rightarrow> zeroValidatorHistory) blockNumber))
         validators"

text \<open>\<open>ProportionalSlash\<close> writes the score's total and returns it: the model returns the new score.\<close>

definition ProportionalSlash :: "BehaviorScore \<Rightarrow> u64 \<Rightarrow> u64 \<Rightarrow> BehaviorScore" where
  "ProportionalSlash score severity slashFraction =
     (let severity = (if severity > maxScore then maxScore else severity);
          deduction = (bs_Total score * severity * slashFraction) div (maxScore * maxScore)
      in if deduction \<ge> bs_Total score then score\<lparr>bs_Total := 0\<rparr>
         else score\<lparr>bs_Total := bs_Total score - deduction\<rparr>)"

definition DefaultBehaviorScore :: "u64 \<Rightarrow> u64 \<Rightarrow> BehaviorScore" where
  "DefaultBehaviorScore initialScore blockNumber =
     \<lparr>bs_Total = initialScore, bs_Liveness = maxScore, bs_Correctness = maxScore,
      bs_Cooperation = maxScore, bs_Consistency = maxScore,
      bs_SignalSovereignty = defaultInitialScore, bs_LastUpdate = blockNumber\<rparr>"

section \<open>SmartLight nodes\<close>

record SmartLightHistory =
  slh_HeartbeatsSent :: u64
  slh_HeartbeatsMissed :: u64
  slh_AcksGiven :: u64
  slh_AcksMissed :: u64
  slh_ValidAttestations :: u64
  slh_InvalidAttests :: u64
  slh_SlashCount :: u64
  slh_GNSSSamples :: u64
  slh_TasksCompleted :: u64
  slh_TasksFailed :: u64

definition zeroSmartLightHistory :: SmartLightHistory where
  "zeroSmartLightHistory =
     \<lparr>slh_HeartbeatsSent = 0, slh_HeartbeatsMissed = 0, slh_AcksGiven = 0, slh_AcksMissed = 0,
      slh_ValidAttestations = 0, slh_InvalidAttests = 0, slh_SlashCount = 0, slh_GNSSSamples = 0,
      slh_TasksCompleted = 0, slh_TasksFailed = 0\<rparr>"

record SmartLightScore =
  sls_Total :: u64
  sls_Liveness :: u64
  sls_Correctness :: u64
  sls_Cooperation :: u64
  sls_Consistency :: u64
  sls_SignalSovereignty :: u64
  sls_LastUpdate :: u64

record SmartLightAgent =
  sla_weights :: "u64 list"

definition NewSmartLightAgent :: SmartLightAgent where
  "NewSmartLightAgent = \<lparr>sla_weights = [30, 20, 25, 10, 15]\<rparr>"

definition calcSLLiveness :: "SmartLightHistory \<Rightarrow> u64" where
  "calcSLLiveness h =
     (let total = slh_HeartbeatsSent h + slh_HeartbeatsMissed h in
      if total = 0 then maxScore else (slh_HeartbeatsSent h * maxScore) div total)"

definition calcSLCorrectness :: "SmartLightHistory \<Rightarrow> u64" where
  "calcSLCorrectness h =
     (let total = slh_ValidAttestations h + slh_InvalidAttests h in
      if total = 0 then maxScore else (slh_ValidAttestations h * maxScore) div total)"

definition calcSLCooperation :: "SmartLightHistory \<Rightarrow> u64" where
  "calcSLCooperation h =
     (let total = slh_AcksGiven h + slh_AcksMissed h in
      if total = 0 then maxScore else (slh_AcksGiven h * maxScore) div total)"

definition calcSLConsistency :: "SmartLightHistory \<Rightarrow> u64" where
  "calcSLConsistency h =
     (let penalty = slh_SlashCount h * 1000 in
      if penalty \<ge> maxScore then 0 else maxScore - penalty)"

definition calcSLSignalSovereignty :: "SmartLightHistory \<Rightarrow> u64" where
  "calcSLSignalSovereignty h =
     (if slh_GNSSSamples h = 0 then defaultInitialScore
      else let score = slh_GNSSSamples h * 100 in if score > maxScore then maxScore else score)"

definition EvaluateSmartLight ::
  "SmartLightAgent \<Rightarrow> address \<Rightarrow> SmartLightHistory \<Rightarrow> u64 \<Rightarrow> SmartLightScore" where
  "EvaluateSmartLight sla addr h blockNumber =
     (let liveness = calcSLLiveness h;
          correctness = calcSLCorrectness h;
          cooperation = calcSLCooperation h;
          consistency = calcSLConsistency h;
          signalSov = calcSLSignalSovereignty h;
          w = sla_weights sla;
          total = (liveness * w ! 0 + correctness * w ! 1 + cooperation * w ! 2 +
                   consistency * w ! 3 + signalSov * w ! 4) div 100;
          total = (if total > maxScore then maxScore else total)
      in \<lparr>sls_Total = total, sls_Liveness = liveness, sls_Correctness = correctness,
          sls_Cooperation = cooperation, sls_Consistency = consistency,
          sls_SignalSovereignty = signalSov, sls_LastUpdate = blockNumber\<rparr>)"

definition UpdateSmartLightScores ::
  "SmartLightAgent \<Rightarrow> (address, SmartLightScore) entries \<Rightarrow> (address, SmartLightHistory) entries \<Rightarrow> u64
   \<Rightarrow> (address, SmartLightScore) entries" where
  "UpdateSmartLightScores sla nodes histories blockNumber =
     map (\<lambda>(addr, _).
            (addr, EvaluateSmartLight sla addr
               (case map_of histories addr of Some h \<Rightarrow> h | None \<Rightarrow> zeroSmartLightHistory) blockNumber))
         nodes"

definition DefaultSmartLightScore :: "u64 \<Rightarrow> SmartLightScore" where
  "DefaultSmartLightScore blockNumber =
     \<lparr>sls_Total = defaultInitialScore, sls_Liveness = maxScore, sls_Correctness = maxScore,
      sls_Cooperation = maxScore, sls_Consistency = maxScore,
      sls_SignalSovereignty = defaultInitialScore, sls_LastUpdate = blockNumber\<rparr>"

section \<open>Agent nodes\<close>

record AgentHistory =
  ah_TasksCompleted :: u64
  ah_TasksFailed :: u64
  ah_AttestationsOK :: u64
  ah_AttestationsBad :: u64
  ah_HeartbeatsSent :: u64
  ah_HeartbeatsMissed :: u64
  ah_Uptime :: u64
  ah_LastActive :: u64
  ah_StakeAmount :: u64
  ah_SlashCount :: u64

definition zeroAgentHistory :: AgentHistory where
  "zeroAgentHistory =
     \<lparr>ah_TasksCompleted = 0, ah_TasksFailed = 0, ah_AttestationsOK = 0, ah_AttestationsBad = 0,
      ah_HeartbeatsSent = 0, ah_HeartbeatsMissed = 0, ah_Uptime = 0, ah_LastActive = 0,
      ah_StakeAmount = 0, ah_SlashCount = 0\<rparr>"

record AgentScore =
  as_Total :: u64
  as_Responsiveness :: u64
  as_Accuracy :: u64
  as_Reliability :: u64
  as_Cooperation :: u64
  as_Economy :: u64
  as_Sovereignty :: u64
  as_LastUpdate :: u64

record AgentScoringAgent =
  asa_weights :: "u64 list"

definition NewAgentScoringAgent :: AgentScoringAgent where
  "NewAgentScoringAgent = \<lparr>asa_weights = [20, 25, 15, 15, 15, 10]\<rparr>"

definition calcAgentResponsiveness :: "AgentHistory \<Rightarrow> u64" where
  "calcAgentResponsiveness h =
     (let total = ah_HeartbeatsSent h + ah_HeartbeatsMissed h in
      if total = 0 then maxScore else (ah_HeartbeatsSent h * maxScore) div total)"

definition calcAgentAccuracy :: "AgentHistory \<Rightarrow> u64" where
  "calcAgentAccuracy h =
     (let totalTasks = ah_TasksCompleted h + ah_TasksFailed h;
          totalAttests = ah_AttestationsOK h + ah_AttestationsBad h in
      if totalTasks = 0 \<and> totalAttests = 0 then maxScore
      else
        let taskScore = (if totalTasks > 0 then (ah_TasksCompleted h * maxScore) div totalTasks
                         else maxScore);
            attestScore = (if totalAttests > 0 then (ah_AttestationsOK h * maxScore) div totalAttests
                           else maxScore)
        in (taskScore * 60 + attestScore * 40) div 100)"

definition calcAgentReliability :: "AgentHistory \<Rightarrow> u64 \<Rightarrow> u64" where
  "calcAgentReliability h blockNumber =
     (let penalty = ah_SlashCount h * 1000 in
      if penalty \<ge> maxScore then 0
      else
        let base = maxScore - penalty;
            uptimeBonus = ah_Uptime h div 10;
            uptimeBonus = (if uptimeBonus > 1000 then 1000 else uptimeBonus);
            score = base + uptimeBonus
        in if score > maxScore then maxScore else score)"

definition calcAgentCooperation :: "AgentHistory \<Rightarrow> u64" where
  "calcAgentCooperation h =
     (let total = ah_AttestationsOK h + ah_AttestationsBad h in
      if total = 0 then defaultInitialScore else (ah_AttestationsOK h * maxScore) div total)"

definition calcAgentEconomy :: "AgentHistory \<Rightarrow> u64" where
  "calcAgentEconomy h =
     (if ah_StakeAmount h = 0 then 0
      else let score = ah_StakeAmount h div 100000000000000
           in if score > maxScore then maxScore else score)"

definition calcAgentSovereignty :: "AgentHistory \<Rightarrow> u64" where
  "calcAgentSovereignty h =
     (let totalOps = ah_TasksCompleted h + ah_AttestationsOK h in
      if totalOps = 0 then defaultInitialScore
      else let score = totalOps * 50 in if score > maxScore then maxScore else score)"

definition EvaluateAgent :: "AgentScoringAgent \<Rightarrow> address \<Rightarrow> AgentHistory \<Rightarrow> u64 \<Rightarrow> AgentScore" where
  "EvaluateAgent asa addr h blockNumber =
     (let responsiveness = calcAgentResponsiveness h;
          accuracy = calcAgentAccuracy h;
          reliability = calcAgentReliability h blockNumber;
          cooperation = calcAgentCooperation h;
          economy = calcAgentEconomy h;
          sovereignty = calcAgentSovereignty h;
          w = asa_weights asa;
          total = (responsiveness * w ! 0 + accuracy * w ! 1 + reliability * w ! 2 +
                   cooperation * w ! 3 + economy * w ! 4 + sovereignty * w ! 5) div 100;
          total = (if total > maxScore then maxScore else total)
      in \<lparr>as_Total = total, as_Responsiveness = responsiveness, as_Accuracy = accuracy,
          as_Reliability = reliability, as_Cooperation = cooperation, as_Economy = economy,
          as_Sovereignty = sovereignty, as_LastUpdate = blockNumber\<rparr>)"

definition UpdateAgentScores ::
  "AgentScoringAgent \<Rightarrow> (address, AgentScore) entries \<Rightarrow> (address, AgentHistory) entries \<Rightarrow> u64
   \<Rightarrow> (address, AgentScore) entries" where
  "UpdateAgentScores asa nodes histories blockNumber =
     map (\<lambda>(addr, _).
            (addr, EvaluateAgent asa addr
               (case map_of histories addr of Some h \<Rightarrow> h | None \<Rightarrow> zeroAgentHistory) blockNumber))
         nodes"

definition DefaultAgentScore :: "u64 \<Rightarrow> AgentScore" where
  "DefaultAgentScore blockNumber =
     \<lparr>as_Total = defaultInitialScore, as_Responsiveness = maxScore, as_Accuracy = maxScore,
      as_Reliability = maxScore, as_Cooperation = defaultInitialScore,
      as_Economy = defaultInitialScore, as_Sovereignty = defaultInitialScore,
      as_LastUpdate = blockNumber\<rparr>"

section \<open>Physical nodes\<close>

record PhysicalNodeHistory =
  ph_StorageBytesProvided :: u64
  ph_StorageBytesVerified :: u64
  ph_UptimeBlocks :: u64
  ph_DowntimeBlocks :: u64
  ph_DataServiced :: u64
  ph_InvalidProofs :: u64
  ph_LastActive :: u64
  ph_Registered :: u64

definition zeroPhysicalNodeHistory :: PhysicalNodeHistory where
  "zeroPhysicalNodeHistory =
     \<lparr>ph_StorageBytesProvided = 0, ph_StorageBytesVerified = 0, ph_UptimeBlocks = 0,
      ph_DowntimeBlocks = 0, ph_DataServiced = 0, ph_InvalidProofs = 0, ph_LastActive = 0,
      ph_Registered = 0\<rparr>"

record PhysicalNodeScore =
  ps_Total :: u64
  ps_StorageContribution :: u64
  ps_Uptime :: u64
  ps_DataService :: u64
  ps_Integrity :: u64
  ps_LastUpdate :: u64

record PhysicalNodeScoringAgent =
  psa_weights :: "u64 list"

definition NewPhysicalNodeScoringAgent :: PhysicalNodeScoringAgent where
  "NewPhysicalNodeScoringAgent = \<lparr>psa_weights = [40, 25, 20, 15]\<rparr>"

definition calcStorage :: "PhysicalNodeHistory \<Rightarrow> u64" where
  "calcStorage h =
     (if ph_StorageBytesProvided h = 0 then defaultInitialScore
      else if ph_StorageBytesVerified h \<ge> ph_StorageBytesProvided h then maxScore
      else ph_StorageBytesVerified h * maxScore div ph_StorageBytesProvided h)"

definition calcUptime :: "PhysicalNodeHistory \<Rightarrow> u64" where
  "calcUptime h =
     (let total = ph_UptimeBlocks h + ph_DowntimeBlocks h in
      if total = 0 then defaultInitialScore else ph_UptimeBlocks h * maxScore div total)"

definition calcDataService :: "PhysicalNodeHistory \<Rightarrow> u64" where
  "calcDataService h =
     (if ph_DataServiced h = 0 then defaultInitialScore
      else let score = ph_DataServiced h * maxScore div 1000
           in if score > maxScore then maxScore else score)"

definition calcIntegrity :: "PhysicalNodeHistory \<Rightarrow> u64" where
  "calcIntegrity h =
     (let totalProofs = ph_StorageBytesVerified h + ph_InvalidProofs h in
      if totalProofs = 0 then maxScore
      else if ph_InvalidProofs h = 0 then maxScore
      else let errorRate = ph_InvalidProofs h * maxScore div totalProofs
           in if errorRate \<ge> maxScore then 0 else maxScore - errorRate)"

definition EvaluatePhysicalNode ::
  "PhysicalNodeScoringAgent \<Rightarrow> PhysicalNodeHistory option \<Rightarrow> u64 \<Rightarrow> PhysicalNodeScore" where
  "EvaluatePhysicalNode psa history blockNumber =
     (let h = (case history of None \<Rightarrow> zeroPhysicalNodeHistory | Some h \<Rightarrow> h);
          storage = calcStorage h;
          uptime = calcUptime h;
          dataService = calcDataService h;
          integrity = calcIntegrity h;
          w = psa_weights psa;
          total = (storage * w ! 0 + uptime * w ! 1 + dataService * w ! 2 + integrity * w ! 3) div 100;
          total = (if total > maxScore then maxScore else total)
      in \<lparr>ps_Total = total, ps_StorageContribution = storage, ps_Uptime = uptime,
          ps_DataService = dataService, ps_Integrity = integrity, ps_LastUpdate = blockNumber\<rparr>)"

definition DefaultPhysicalNodeScore :: "u64 \<Rightarrow> PhysicalNodeScore" where
  "DefaultPhysicalNodeScore blockNumber =
     \<lparr>ps_Total = defaultInitialScore, ps_StorageContribution = defaultInitialScore,
      ps_Uptime = maxScore, ps_DataService = defaultInitialScore, ps_Integrity = maxScore,
      ps_LastUpdate = blockNumber\<rparr>"

section \<open>Bounds of the dimensions\<close>

text \<open>
  A history whose opportunity counters do not wrap when they are added. The counters grow by one
  per block, so the bound is far away; it is the only thing the scores rely on.
\<close>

definition vh_ok :: "ValidatorHistory \<Rightarrow> bool" where
  "vh_ok h \<longleftrightarrow>
     unat (vh_BlocksProposed h) + unat (vh_BlocksMissed h) < 2 ^ 64 \<and>
     unat (vh_BlocksProposed h) + unat (vh_InvalidProposals h) < 2 ^ 64 \<and>
     unat (vh_AcksGiven h) + unat (vh_AcksMissed h) < 2 ^ 64"

definition slh_ok :: "SmartLightHistory \<Rightarrow> bool" where
  "slh_ok h \<longleftrightarrow>
     unat (slh_HeartbeatsSent h) + unat (slh_HeartbeatsMissed h) < 2 ^ 64 \<and>
     unat (slh_ValidAttestations h) + unat (slh_InvalidAttests h) < 2 ^ 64 \<and>
     unat (slh_AcksGiven h) + unat (slh_AcksMissed h) < 2 ^ 64"

definition ah_ok :: "AgentHistory \<Rightarrow> bool" where
  "ah_ok h \<longleftrightarrow>
     unat (ah_HeartbeatsSent h) + unat (ah_HeartbeatsMissed h) < 2 ^ 64 \<and>
     unat (ah_TasksCompleted h) + unat (ah_TasksFailed h) < 2 ^ 64 \<and>
     unat (ah_AttestationsOK h) + unat (ah_AttestationsBad h) < 2 ^ 64"

definition ph_ok :: "PhysicalNodeHistory \<Rightarrow> bool" where
  "ph_ok h \<longleftrightarrow> unat (ph_UptimeBlocks h) + unat (ph_DowntimeBlocks h) < 2 ^ 64"

lemma ratio_le_max [word_bounds]:
  "unat (a :: u64) + unat b < 2 ^ 64 \<Longrightarrow> a * maxScore div (a + b) \<le> maxScore"
  by (rule ratio_le) simp

lemma maxScore_minus_le [word_bounds]: "\<not> maxScore \<le> p \<Longrightarrow> maxScore - p \<le> maxScore"
  by (rule word_sub_le) simp

lemma validator_dims_le [word_bounds]:
  assumes "vh_ok h"
  shows "calcLiveness h \<le> maxScore" and "calcCorrectness h \<le> maxScore"
    and "calcCooperation h \<le> maxScore"
  using assms
  by (simp_all add: vh_ok_def calcLiveness_def calcCorrectness_def calcCooperation_def Let_def ratio_le_max)

lemma calcConsistency_le [word_bounds]: "calcConsistency h \<le> maxScore"
  by (simp add: calcConsistency_def Let_def maxScore_minus_le)

lemma calcSignalSovereignty_le [word_bounds]: "calcSignalSovereignty h \<le> maxScore"
  by (simp add: calcSignalSovereignty_def Let_def not_less)

lemma smartlight_dims_le [word_bounds]:
  assumes "slh_ok h"
  shows "calcSLLiveness h \<le> maxScore" and "calcSLCorrectness h \<le> maxScore"
    and "calcSLCooperation h \<le> maxScore"
  using assms
  by (simp_all add: slh_ok_def calcSLLiveness_def calcSLCorrectness_def calcSLCooperation_def Let_def ratio_le_max)

lemma calcSLConsistency_le [word_bounds]: "calcSLConsistency h \<le> maxScore"
  by (simp add: calcSLConsistency_def Let_def maxScore_minus_le)

lemma calcSLSignalSovereignty_le [word_bounds]: "calcSLSignalSovereignty h \<le> maxScore"
  by (simp add: calcSLSignalSovereignty_def Let_def not_less)

text \<open>The average of two scores with percentage weights stays a score.\<close>

lemma unat_pair_average:
  fixes a b u v :: u64
  assumes "a \<le> maxScore" and "b \<le> maxScore" and "unat u + unat v = 100"
  shows "unat ((a * u + b * v) div 100) = (unat a * unat u + unat b * unat v) div 100"
    and "(a * u + b * v) div 100 \<le> maxScore"
proof -
  have ab: "unat a \<le> 10000" "unat b \<le> 10000"
    using assms(1,2) by (simp_all add: word_le_nat_alt)
  have sum: "unat a * unat u + unat b * unat v \<le> 10000 * 100"
  proof -
    have "unat a * unat u + unat b * unat v \<le> 10000 * unat u + 10000 * unat v"
      using ab by (intro add_mono mult_le_mono1) simp_all
    also have "\<dots> = 10000 * (unat u + unat v)" by simp
    finally show ?thesis using assms(3) by simp
  qed
  have m: "unat (a * u) = unat a * unat u" "unat (b * v) = unat b * unat v"
    by (rule unat_mult_noov, use sum in simp)+
  have add: "unat (a * u + b * v) = unat a * unat u + unat b * unat v"
    using sum unat_add_noov [of "a * u" "b * v"] by (simp add: m)
  show "unat ((a * u + b * v) div 100) = (unat a * unat u + unat b * unat v) div 100"
    by (simp add: unat_div add)
  then show "(a * u + b * v) div 100 \<le> maxScore"
    using sum by (simp add: word_le_nat_alt)
qed

lemma agent_dims_le [word_bounds]:
  assumes "ah_ok h"
  shows "calcAgentResponsiveness h \<le> maxScore" and "calcAgentAccuracy h \<le> maxScore"
    and "calcAgentCooperation h \<le> maxScore"
proof -
  note ok = assms [unfolded ah_ok_def]
  show "calcAgentResponsiveness h \<le> maxScore" and "calcAgentCooperation h \<le> maxScore"
    using ok by (simp_all add: calcAgentResponsiveness_def calcAgentCooperation_def Let_def ratio_le_max)
  have cases: "(if t > 0 then x else maxScore) \<le> maxScore" if "t > 0 \<Longrightarrow> x \<le> maxScore" for t x :: u64
    using that by simp
  show "calcAgentAccuracy h \<le> maxScore"
    unfolding calcAgentAccuracy_def Let_def
    using ok by (simp del: if_split add: if_split [where P = "\<lambda>x. x \<le> maxScore"]
        unat_pair_average(2) cases ratio_le_max)
qed

lemma calcAgentReliability_le [word_bounds]: "calcAgentReliability h n \<le> maxScore"
  by (simp add: calcAgentReliability_def Let_def not_less)

lemma calcAgentEconomy_le [word_bounds]: "calcAgentEconomy h \<le> maxScore"
  by (simp add: calcAgentEconomy_def Let_def not_less)

lemma calcAgentSovereignty_le [word_bounds]: "calcAgentSovereignty h \<le> maxScore"
  by (simp add: calcAgentSovereignty_def Let_def not_less)

lemma calcStorage_le [word_bounds]: "calcStorage h \<le> maxScore"
proof -
  have "v * maxScore div p \<le> maxScore" if "v \<le> p" for v p :: u64
  proof -
    have "unat v \<le> unat p" using that by (simp add: word_le_nat_alt)
    then have "unat (p - v) = unat p - unat v" and le: "unat v \<le> unat p"
      using that by (simp_all add: unat_sub_noov)
    then have "unat v + unat (p - v) < 2 ^ 64"
      using unat_u64_bound [of p] by simp
    from ratio_le_max [OF this] show ?thesis by simp
  qed
  then show ?thesis by (simp add: calcStorage_def)
qed

lemma calcUptime_le [word_bounds]: "ph_ok h \<Longrightarrow> calcUptime h \<le> maxScore"
  by (simp add: ph_ok_def calcUptime_def Let_def ratio_le_max)

lemma calcDataService_le [word_bounds]: "calcDataService h \<le> maxScore"
  by (simp add: calcDataService_def Let_def not_less)

lemma calcIntegrity_le [word_bounds]: "calcIntegrity h \<le> maxScore"
  by (simp add: calcIntegrity_def Let_def maxScore_minus_le)

section \<open>The weighted total\<close>

text \<open>The exact weighted average over the natural numbers that the scoring agents compute.\<close>

definition weighted_average :: "u64 list \<Rightarrow> u64 list \<Rightarrow> nat" where
  "weighted_average ds ws = sum_list (map2 (\<lambda>d w. unat d * unat w) ds ws) div 100"

lemma weighted_sum_le:
  assumes "length ds = length ws" and "\<forall>d \<in> set ds. unat d \<le> M"
  shows "sum_list (map2 (\<lambda>d w. unat d * unat w) ds ws) \<le> M * sum_list (map unat (ws :: u64 list))"
  using assms
proof (induction ds ws rule: list_induct2)
  case (Cons d ds w ws)
  then have "unat d * unat w \<le> M * unat w" by (intro mult_le_mono1) simp
  with Cons show ?case by (simp add: distrib_left add_mono)
qed simp

lemma unat_weighted_sum:
  assumes "length ds = length ws"
    and "sum_list (map2 (\<lambda>d w. unat d * unat w) ds ws) < 2 ^ 64"
  shows "unat (sum_list (map2 (*) ds (ws :: u64 list))) = sum_list (map2 (\<lambda>d w. unat d * unat w) ds ws)"
  using assms
proof (induction ds ws rule: list_induct2)
  case (Cons d ds w ws)
  let ?r = "sum_list (map2 (\<lambda>d w. unat d * unat w) ds ws)"
  have lt: "unat d * unat w + ?r < 2 ^ 64" using Cons.prems by simp
  then have m: "unat (d * w) = unat d * unat w" by (intro unat_mult_noov) simp
  have "unat (sum_list (map2 (*) ds ws)) = ?r" using Cons lt by simp
  with lt m show ?case using unat_add_noov [of "d * w" "sum_list (map2 (*) ds ws)"] by simp
qed simp

locale score_weights =
  fixes weights :: "u64 list"
  assumes weights_sum: "sum_list (map unat weights) = 100"
begin

lemma total_exact:
  assumes "length ds = length weights" and "\<forall>d \<in> set ds. d \<le> maxScore"
  shows "unat (sum_list (map2 (*) ds weights) div 100) = weighted_average ds weights"
    and "sum_list (map2 (*) ds weights) div 100 \<le> maxScore"
proof -
  have le: "sum_list (map2 (\<lambda>d w. unat d * unat w) ds weights) \<le> 10000 * 100"
    using weighted_sum_le [OF assms(1), of 10000] assms(2) weights_sum
    by (simp add: word_le_nat_alt)
  show eq: "unat (sum_list (map2 (*) ds weights) div 100) = weighted_average ds weights"
    using unat_weighted_sum [OF assms(1)] le by (simp add: unat_div weighted_average_def)
  show "sum_list (map2 (*) ds weights) div 100 \<le> maxScore"
    using le eq by (simp add: word_le_nat_alt weighted_average_def)
qed

text \<open>The cap on the total never changes a value.\<close>

lemma capped_total:
  assumes "length ds = length weights" and "\<forall>d \<in> set ds. d \<le> maxScore"
    and "t = sum_list (map2 (*) ds weights) div 100"
  shows "unat (if t > maxScore then maxScore else t) = weighted_average ds weights"
    and "(if t > maxScore then maxScore else t) \<le> maxScore"
  using total_exact [OF assms(1,2)] assms(3) by auto

end

interpretation validator: score_weights "ba_weights NewBehaviorAgent"
  by unfold_locales (simp add: NewBehaviorAgent_def)

interpretation smartlight: score_weights "sla_weights NewSmartLightAgent"
  by unfold_locales (simp add: NewSmartLightAgent_def)

interpretation agent: score_weights "asa_weights NewAgentScoringAgent"
  by unfold_locales (simp add: NewAgentScoringAgent_def)

interpretation physical: score_weights "psa_weights NewPhysicalNodeScoringAgent"
  by unfold_locales (simp add: NewPhysicalNodeScoringAgent_def)

section \<open>Monotonicity\<close>

lemma div_cross_le:
  fixes a b c d :: nat
  assumes "0 < b" and "0 < d" and "a * d \<le> c * b"
  shows "a div b \<le> c div d"
proof -
  have "a div b * d * b = a div b * b * d" by (simp add: ac_simps)
  also have "\<dots> \<le> a * d" by (intro mult_le_mono1) (simp add: div_times_less_eq_dividend)
  also have "\<dots> \<le> c * b" by (rule assms(3))
  finally have "a div b * d \<le> c" using assms(1) by simp
  then show ?thesis using assms(2) by (simp add: less_eq_div_iff_mult_less_eq)
qed

lemma ratio_grows:
  fixes p m :: u64
  assumes "unat p + unat m + 1 < 2 ^ 64" and "(unat p + 1) * 10000 < 2 ^ 64" and "p + m \<noteq> 0"
  shows "p * maxScore div (p + m) \<le> (p + 1) * maxScore div (p + 1 + m)"
    and "p * maxScore div (p + (m + 1)) \<le> p * maxScore div (p + m)"
proof -
  have p1: "unat (p + 1) = unat p + 1" and m1: "unat (m + 1) = unat m + 1"
    using assms(1) by (simp_all add: unat_add_noov)
  have pos: "0 < unat p + unat m"
    using assms(1,3) unat_gt_0 [of "p + m"] by (simp add: unat_add_noov)
  have a: "unat (p * maxScore div (p + m)) = unat p * 10000 div (unat p + unat m)"
    using assms by (subst ratio_unat) simp_all
  have b: "unat ((p + 1) * maxScore div (p + 1 + m)) = (unat p + 1) * 10000 div (unat p + 1 + unat m)"
    using assms by (subst ratio_unat) (simp_all add: p1)
  have c: "unat (p * maxScore div (p + (m + 1))) = unat p * 10000 div (unat p + (unat m + 1))"
    using assms by (subst ratio_unat) (simp_all add: m1)
  show "p * maxScore div (p + m) \<le> (p + 1) * maxScore div (p + 1 + m)"
    unfolding word_le_nat_alt a b using pos by (intro div_cross_le) (simp_all add: algebra_simps)
  show "p * maxScore div (p + (m + 1)) \<le> p * maxScore div (p + m)"
    unfolding word_le_nat_alt a c using pos by (intro div_le_mono2) simp_all
qed

lemma weighted_average_mono:
  assumes "list_all2 (\<le>) ds es" and "length ds = length ws"
  shows "weighted_average ds ws \<le> weighted_average es ws"
proof -
  have "sum_list (map2 (\<lambda>d w. unat d * unat w) ds ws) \<le> sum_list (map2 (\<lambda>d w. unat d * unat w) es ws)"
    using assms
  proof (induction ds es arbitrary: ws rule: list_all2_induct)
    case (Cons d ds e es)
    then obtain w vs where "ws = w # vs" by (cases ws) auto
    with Cons show ?case by (auto intro!: add_mono mult_le_mono1 simp: word_le_nat_alt)
  qed simp
  then show ?thesis by (simp add: weighted_average_def div_le_mono)
qed

text \<open>The dimensions of a validator, in the order of the weights.\<close>

definition validator_dims :: "ValidatorHistory \<Rightarrow> u64 list" where
  "validator_dims h =
     [calcLiveness h, calcCorrectness h, calcCooperation h, calcConsistency h, calcSignalSovereignty h]"

lemma validator_dims_bounded: "vh_ok h \<Longrightarrow> \<forall>d \<in> set (validator_dims h). d \<le> maxScore"
  by (simp add: validator_dims_def word_bounds)

lemma EvaluateValidator_Total:
  assumes "vh_ok h"
  shows "unat (bs_Total (EvaluateValidator NewBehaviorAgent a h n)) =
           weighted_average (validator_dims h) (ba_weights NewBehaviorAgent)"
    and "bs_Total (EvaluateValidator NewBehaviorAgent a h n) \<le> maxScore"
  unfolding EvaluateValidator_def Let_def BehaviorScore.simps
  by (rule validator.capped_total [OF _ validator_dims_bounded [OF assms]];
      simp add: validator_dims_def NewBehaviorAgent_def add.assoc)+

lemma EvaluateSmartLight_Total:
  assumes "slh_ok h"
  shows "unat (sls_Total (EvaluateSmartLight NewSmartLightAgent a h n)) =
           weighted_average [calcSLLiveness h, calcSLCorrectness h, calcSLCooperation h,
             calcSLConsistency h, calcSLSignalSovereignty h] (sla_weights NewSmartLightAgent)"
    and "sls_Total (EvaluateSmartLight NewSmartLightAgent a h n) \<le> maxScore"
  unfolding EvaluateSmartLight_def Let_def SmartLightScore.simps option.case
  by (rule smartlight.capped_total [where ds = "[calcSLLiveness h, calcSLCorrectness h,
        calcSLCooperation h, calcSLConsistency h, calcSLSignalSovereignty h]"];
      simp add: NewSmartLightAgent_def add.assoc assms word_bounds)+

lemma EvaluateAgent_Total:
  assumes "ah_ok h"
  shows "unat (as_Total (EvaluateAgent NewAgentScoringAgent a h n)) =
           weighted_average [calcAgentResponsiveness h, calcAgentAccuracy h, calcAgentReliability h n,
             calcAgentCooperation h, calcAgentEconomy h, calcAgentSovereignty h]
             (asa_weights NewAgentScoringAgent)"
    and "as_Total (EvaluateAgent NewAgentScoringAgent a h n) \<le> maxScore"
  unfolding EvaluateAgent_def Let_def AgentScore.simps option.case
  by (rule agent.capped_total [where ds = "[calcAgentResponsiveness h, calcAgentAccuracy h,
        calcAgentReliability h n, calcAgentCooperation h, calcAgentEconomy h, calcAgentSovereignty h]"];
      simp add: NewAgentScoringAgent_def add.assoc assms word_bounds)+

lemma EvaluatePhysicalNode_Total:
  assumes "ph_ok h"
  shows "unat (ps_Total (EvaluatePhysicalNode NewPhysicalNodeScoringAgent (Some h) n)) =
           weighted_average [calcStorage h, calcUptime h, calcDataService h, calcIntegrity h]
             (psa_weights NewPhysicalNodeScoringAgent)"
    and "ps_Total (EvaluatePhysicalNode NewPhysicalNodeScoringAgent (Some h) n) \<le> maxScore"
  unfolding EvaluatePhysicalNode_def Let_def PhysicalNodeScore.simps option.case
  by (rule physical.capped_total [where ds = "[calcStorage h, calcUptime h, calcDataService h, calcIntegrity h]"];
      simp add: NewPhysicalNodeScoringAgent_def add.assoc assms word_bounds)+

lemma EvaluateValidator_mono:
  assumes "vh_ok g" and "vh_ok h" and "list_all2 (\<le>) (validator_dims g) (validator_dims h)"
  shows "bs_Total (EvaluateValidator NewBehaviorAgent a g n) \<le> bs_Total (EvaluateValidator NewBehaviorAgent a h m)"
  unfolding word_le_nat_alt EvaluateValidator_Total(1) [OF assms(1)] EvaluateValidator_Total(1) [OF assms(2)]
  by (rule weighted_average_mono [OF assms(3)]) (simp add: validator_dims_def NewBehaviorAgent_def)

section \<open>Properties\<close>

text \<open>
  C1. With the weights the constructors install, the total of each of the four scoring agents is
  exactly the weighted average of its dimensions, rounded down, computed without wrap-around, and
  is at most 10000 basis points, for every history whose opportunity counters do not wrap.
\<close>

theorem scores_exact:
  assumes "vh_ok vh" and "slh_ok slh" and "ah_ok ah" and "ph_ok ph"
  shows "unat (bs_Total (EvaluateValidator NewBehaviorAgent a vh n)) =
           (unat (calcLiveness vh) * 25 + unat (calcCorrectness vh) * 25 + unat (calcCooperation vh) * 18 +
            unat (calcConsistency vh) * 17 + unat (calcSignalSovereignty vh) * 15) div 100 \<and>
         unat (sls_Total (EvaluateSmartLight NewSmartLightAgent a slh n)) =
           (unat (calcSLLiveness slh) * 30 + unat (calcSLCorrectness slh) * 20 +
            unat (calcSLCooperation slh) * 25 + unat (calcSLConsistency slh) * 10 +
            unat (calcSLSignalSovereignty slh) * 15) div 100 \<and>
         unat (as_Total (EvaluateAgent NewAgentScoringAgent a ah n)) =
           (unat (calcAgentResponsiveness ah) * 20 + unat (calcAgentAccuracy ah) * 25 +
            unat (calcAgentReliability ah n) * 15 + unat (calcAgentCooperation ah) * 15 +
            unat (calcAgentEconomy ah) * 15 + unat (calcAgentSovereignty ah) * 10) div 100 \<and>
         unat (ps_Total (EvaluatePhysicalNode NewPhysicalNodeScoringAgent (Some ph) n)) =
           (unat (calcStorage ph) * 40 + unat (calcUptime ph) * 25 + unat (calcDataService ph) * 20 +
            unat (calcIntegrity ph) * 15) div 100 \<and>
         bs_Total (EvaluateValidator NewBehaviorAgent a vh n) \<le> maxScore \<and>
         sls_Total (EvaluateSmartLight NewSmartLightAgent a slh n) \<le> maxScore \<and>
         as_Total (EvaluateAgent NewAgentScoringAgent a ah n) \<le> maxScore \<and>
         ps_Total (EvaluatePhysicalNode NewPhysicalNodeScoringAgent (Some ph) n) \<le> maxScore"
  using EvaluateValidator_Total [OF assms(1), of a n] EvaluateSmartLight_Total [OF assms(2), of a n]
    EvaluateAgent_Total [OF assms(3), of a n] EvaluatePhysicalNode_Total [OF assms(4), of n]
  by (simp add: weighted_average_def validator_dims_def NewBehaviorAgent_def NewSmartLightAgent_def
      NewAgentScoringAgent_def NewPhysicalNodeScoringAgent_def add.assoc)

theorem scores_exact_witness:
  "vh_ok (zeroValidatorHistory\<lparr>vh_BlocksProposed := 9, vh_BlocksMissed := 1\<rparr>) \<and>
   bs_Total (EvaluateValidator NewBehaviorAgent 7
     (zeroValidatorHistory\<lparr>vh_BlocksProposed := 9, vh_BlocksMissed := 1\<rparr>) 42) = 9000 \<and>
   ps_Total (EvaluatePhysicalNode NewPhysicalNodeScoringAgent (Some zeroPhysicalNodeHistory) 42) = 5750"
proof -
  let ?vh = "zeroValidatorHistory\<lparr>vh_BlocksProposed := 9, vh_BlocksMissed := 1\<rparr>"
  have v: "vh_ok ?vh" by (simp add: vh_ok_def zeroValidatorHistory_def)
  have sl: "slh_ok zeroSmartLightHistory" by (simp add: slh_ok_def zeroSmartLightHistory_def)
  have ag: "ah_ok zeroAgentHistory" by (simp add: ah_ok_def zeroAgentHistory_def)
  have ph: "ph_ok zeroPhysicalNodeHistory" by (simp add: ph_ok_def zeroPhysicalNodeHistory_def)
  have dims: "calcLiveness ?vh = 9000" "calcCorrectness ?vh = 10000" "calcCooperation ?vh = 10000"
    "calcConsistency ?vh = 10000" "calcSignalSovereignty ?vh = 5000"
    "calcStorage zeroPhysicalNodeHistory = 5000" "calcUptime zeroPhysicalNodeHistory = 5000"
    "calcDataService zeroPhysicalNodeHistory = 5000" "calcIntegrity zeroPhysicalNodeHistory = 10000"
    by (simp_all add: calcLiveness_def calcCorrectness_def calcCooperation_def calcConsistency_def
        calcSignalSovereignty_def calcStorage_def calcUptime_def calcDataService_def calcIntegrity_def
        zeroValidatorHistory_def zeroPhysicalNodeHistory_def maxScore_def defaultInitialScore_def)
  show ?thesis
    using v scores_exact [OF v sl ag ph, of 7 42] by (simp add: dims word_unat_eq_iff)
qed

text \<open>
  C2. A slash of a score in range by a fraction of at most 10000 basis points removes exactly
  \<open>total * severity * fraction / 10^8\<close>, with the severity capped at 10000; it never raises the
  score, a harder slash leaves no more than a softer one, and nothing else of the score changes.
\<close>

theorem ProportionalSlash_exact:
  assumes "bs_Total s \<le> maxScore" and "f \<le> maxScore"
  shows "unat (bs_Total (ProportionalSlash s sev f)) =
           unat (bs_Total s) - unat (bs_Total s) * min (unat sev) 10000 * unat f div 100000000 \<and>
         bs_Total (ProportionalSlash s sev f) \<le> bs_Total s \<and>
         (sev \<le> sev' \<longrightarrow> bs_Total (ProportionalSlash s sev' f) \<le> bs_Total (ProportionalSlash s sev f)) \<and>
         ProportionalSlash s sev f = s\<lparr>bs_Total := bs_Total (ProportionalSlash s sev f)\<rparr>"
proof -
  have le: "unat (bs_Total s) \<le> 10000" "unat f \<le> 10000"
    using assms by (simp_all add: word_le_nat_alt)
  have ex: "unat (bs_Total (ProportionalSlash s v f)) =
           unat (bs_Total s) - unat (bs_Total s) * min (unat v) 10000 * unat f div 100000000" for v
  proof -
    define w where "w = (if v > maxScore then maxScore else v)"
    have w: "unat w = min (unat v) 10000"
      by (simp add: w_def word_less_nat_alt)
    have p1: "unat (bs_Total s) * unat w \<le> 10000 * 10000"
      using le w by (intro mult_le_mono) simp_all
    have p2: "unat (bs_Total s) * unat w * unat f \<le> 10000 * 10000 * 10000"
      using p1 le(2) by (rule mult_le_mono)
    have m1: "unat (bs_Total s * w) = unat (bs_Total s) * unat w"
      using p1 by (intro unat_mult_noov) simp
    have m2: "unat (bs_Total s * w * f) = unat (bs_Total s) * unat w * unat f"
      using p2 unat_mult_noov [of "bs_Total s * w" f] by (simp add: m1)
    have d: "unat (bs_Total s * w * f div (maxScore * maxScore)) =
               unat (bs_Total s) * unat w * unat f div 100000000"
      by (simp add: unat_div m2 maxScore_def)
    show ?thesis
      by (simp add: ProportionalSlash_def Let_def flip: w_def)
        (simp add: d word_le_nat_alt unat_sub_noov flip: w)
  qed
  have "min (unat sev) 10000 \<le> min (unat sev') 10000" if "sev \<le> sev'"
    using that by (simp add: word_le_nat_alt min_le_iff_disj)
  then have mono: "sev \<le> sev' \<longrightarrow> bs_Total (ProportionalSlash s sev' f) \<le> bs_Total (ProportionalSlash s sev f)"
    unfolding word_le_nat_alt ex by (intro impI diff_le_mono2 div_le_mono mult_le_mono1 mult_le_mono2) simp
  show ?thesis
    using ex [of sev] mono by (simp add: word_le_nat_alt ProportionalSlash_def Let_def)
qed

theorem ProportionalSlash_exact_witness:
  "DefaultBehaviorScore 5000 1 = (DefaultBehaviorScore 5000 1)\<lparr>bs_Total := 5000\<rparr> \<and>
   bs_Total (ProportionalSlash (DefaultBehaviorScore 5000 1) 10000 1000) = 4500"
  using ProportionalSlash_exact [of "DefaultBehaviorScore 5000 1" 1000 10000 0]
  by (simp add: DefaultBehaviorScore_def maxScore_def word_unat_eq_iff)

lemma production_counters_only:
  "calcCooperation (vh_BlocksProposed_update f h) = calcCooperation h"
  "calcConsistency (vh_BlocksProposed_update f h) = calcConsistency h"
  "calcSignalSovereignty (vh_BlocksProposed_update f h) = calcSignalSovereignty h"
  "calcCorrectness (vh_BlocksMissed_update f h) = calcCorrectness h"
  "calcCooperation (vh_BlocksMissed_update f h) = calcCooperation h"
  "calcConsistency (vh_BlocksMissed_update f h) = calcConsistency h"
  "calcSignalSovereignty (vh_BlocksMissed_update f h) = calcSignalSovereignty h"
  unfolding calcCorrectness_def calcCooperation_def calcConsistency_def calcSignalSovereignty_def
  by (simp_all add: Let_def cong: if_cong)

lemma liveness_propose:
  assumes "vh_ok h" and "unat (vh_BlocksProposed h) + unat (vh_BlocksMissed h) + 1 < 2 ^ 64"
    and "unat (vh_BlocksProposed h) + unat (vh_InvalidProposals h) + 1 < 2 ^ 64"
    and "(unat (vh_BlocksProposed h) + 1) * 10000 < 2 ^ 64"
  defines "h' \<equiv> h\<lparr>vh_BlocksProposed := vh_BlocksProposed h + 1\<rparr>"
  shows "vh_ok h'" and "list_all2 (\<le>) (validator_dims h) (validator_dims h')"
proof -
  let ?p = "vh_BlocksProposed h"
  have p1: "unat (?p + 1) = unat ?p + 1"
    using assms(2) by (simp add: unat_add_noov)
  show ok: "vh_ok h'"
    using assms(1-3) by (simp add: vh_ok_def h'_def p1)
  have ratio: "(if ?p + m = 0 then maxScore else ?p * maxScore div (?p + m)) \<le>
               (if ?p + 1 + m = 0 then maxScore else (?p + 1) * maxScore div (?p + 1 + m))"
    if "unat ?p + unat m + 1 < 2 ^ 64" for m
  proof (cases "?p + m = 0")
    case True
    moreover have "unat (?p + m) = unat ?p + unat m"
      using that by (simp add: unat_add_noov)
    ultimately have "?p = 0" "m = 0" by (simp_all add: unat_eq_zero)
    then show ?thesis by simp
  next
    case False
    then have "unat (?p + 1 + m) = unat ?p + 1 + unat m"
      using that by (simp add: unat_add_noov p1)
    then have "?p + 1 + m \<noteq> 0" by (metis add_eq_0_iff_both_eq_0 one_neq_zero unat_0)
    then show ?thesis using False ratio_grows(1) [OF that assms(4) False] by simp
  qed
  have live: "calcLiveness h \<le> calcLiveness h'"
    using ratio [OF assms(2)] unfolding calcLiveness_def h'_def Let_def
    by (simp split del: if_split cong: if_cong)
  have corr: "calcCorrectness h \<le> calcCorrectness h'"
    using ratio [OF assms(3)] unfolding calcCorrectness_def h'_def Let_def
    by (simp split del: if_split cong: if_cong)
  show "list_all2 (\<le>) (validator_dims h) (validator_dims h')"
    using live corr by (simp add: validator_dims_def h'_def production_counters_only)
qed

lemma liveness_miss:
  assumes "vh_ok h" and "unat (vh_BlocksProposed h) + unat (vh_BlocksMissed h) + 1 < 2 ^ 64"
    and "(unat (vh_BlocksProposed h) + 1) * 10000 < 2 ^ 64"
  defines "h' \<equiv> h\<lparr>vh_BlocksMissed := vh_BlocksMissed h + 1\<rparr>"
  shows "vh_ok h'" and "list_all2 (\<le>) (validator_dims h') (validator_dims h)"
proof -
  let ?p = "vh_BlocksProposed h" and ?m = "vh_BlocksMissed h"
  have m1: "unat (?m + 1) = unat ?m + 1"
    using assms(2) by (simp add: unat_add_noov)
  show ok: "vh_ok h'"
    using assms(1,2) by (simp add: vh_ok_def h'_def m1)
  have "unat (?p + (?m + 1)) = unat ?p + unat ?m + 1"
    using assms(2) by (simp add: unat_add_noov m1)
  then have nz: "?p + (?m + 1) \<noteq> 0" by (metis add_eq_0_iff_both_eq_0 one_neq_zero unat_0)
  have "calcLiveness h' \<le> calcLiveness h"
  proof (cases "?p + ?m = 0")
    case True
    then show ?thesis
      using validator_dims_le(1) [OF ok] by (simp add: calcLiveness_def [of h])
  next
    case False
    then show ?thesis
      using ratio_grows(2) [OF assms(2,3) False] nz
      by (simp add: calcLiveness_def h'_def Let_def)
  qed
  then show "list_all2 (\<le>) (validator_dims h') (validator_dims h)"
    by (simp add: validator_dims_def h'_def production_counters_only)
qed

text \<open>
  The score rewards production: proposing one more block never lowers a validator's total and
  missing one never raises it, as long as the counters stay below the wrap-around.
\<close>

theorem production_pays:
  assumes "vh_ok h" and "unat (vh_BlocksProposed h) + unat (vh_BlocksMissed h) + 1 < 2 ^ 64"
    and "unat (vh_BlocksProposed h) + unat (vh_InvalidProposals h) + 1 < 2 ^ 64"
    and "(unat (vh_BlocksProposed h) + 1) * 10000 < 2 ^ 64"
  shows "bs_Total (EvaluateValidator NewBehaviorAgent a h n) \<le>
           bs_Total (EvaluateValidator NewBehaviorAgent a
             (h\<lparr>vh_BlocksProposed := vh_BlocksProposed h + 1\<rparr>) n') \<and>
         bs_Total (EvaluateValidator NewBehaviorAgent a
             (h\<lparr>vh_BlocksMissed := vh_BlocksMissed h + 1\<rparr>) n') \<le>
           bs_Total (EvaluateValidator NewBehaviorAgent a h n)"
  using liveness_propose [OF assms] liveness_miss [OF assms(1,2,4)] assms(1)
  by (intro conjI EvaluateValidator_mono) simp_all

theorem production_pays_witness:
  "bs_Total (EvaluateValidator NewBehaviorAgent 1 zeroValidatorHistory 5) \<le>
     bs_Total (EvaluateValidator NewBehaviorAgent 1 (zeroValidatorHistory\<lparr>vh_BlocksProposed := 1\<rparr>) 6) \<and>
   bs_Total (EvaluateValidator NewBehaviorAgent 1 (zeroValidatorHistory\<lparr>vh_BlocksMissed := 1\<rparr>) 6) \<le>
     bs_Total (EvaluateValidator NewBehaviorAgent 1 zeroValidatorHistory 5)"
  using production_pays [of zeroValidatorHistory 1 5 6]
  by (simp add: zeroValidatorHistory_def vh_ok_def)

end
