(* ===== verification/Accounts.thy ===== *)
theory Accounts
  imports Params GoMap "HOL-Library.Product_Lexorder"
begin

text \<open>
  The accounts of the state: the seven account kinds of \<open>src/core/state/state_object.go\<close>, the
  constants of \<open>src/common/biz_type.go\<close>, the loss marks and loss types and the round arithmetic of
  \<open>src/common/types.go\<close>, and the candidate list of \<open>src/core/state/validator_candidate.go\<close>.

  A \<open>*big.Int\<close> field is an \<open>int option\<close> (\<open>None\<close> is the nil pointer); a \<open>LossMark\<close>
  (\<^verbatim>\<open>[128]byte\<close>) is a 1024-bit word and a \<open>LossType\<close> a byte.
\<close>

section \<open>Constants\<close>

definition ACC_TYPE_OF_REGULAR :: u8 where [simp]: "ACC_TYPE_OF_REGULAR = 1"
definition ACC_TYPE_OF_PNS :: u8 where [simp]: "ACC_TYPE_OF_PNS = 2"
definition ACC_TYPE_OF_CONTRACT :: u8 where [simp]: "ACC_TYPE_OF_CONTRACT = 3"
definition ACC_TYPE_OF_AUTHORIZE :: u8 where [simp]: "ACC_TYPE_OF_AUTHORIZE = 4"
definition ACC_TYPE_OF_LOSS :: u8 where [simp]: "ACC_TYPE_OF_LOSS = 5"
definition ACC_TYPE_OF_LOSS_MARK :: u8 where [simp]: "ACC_TYPE_OF_LOSS_MARK = 6"
definition ACC_TYPE_OF_DPOS :: u8 where [simp]: "ACC_TYPE_OF_DPOS = 7"
definition ACC_TYPE_OF_UNKNOWN :: u8 where [simp]: "ACC_TYPE_OF_UNKNOWN = 100"

definition PLEDGE_OF_REGULAR :: u64 where "PLEDGE_OF_REGULAR = 10000000000000000"
definition PLEDGE_OF_PNS :: u64 where "PLEDGE_OF_PNS = 50000000000000000"
definition PLEDGE_OF_CONTRACT :: u64 where "PLEDGE_OF_CONTRACT = 100000000000000000"
definition PLEDGE_OF_AUTHORIZE :: u64 where "PLEDGE_OF_AUTHORIZE = 10000000000000000000"
definition PLEDGE_OF_LOSS :: u64 where "PLEDGE_OF_LOSS = 1000000000000000000"

definition LOSS_STATE_OF_APPLY :: u8 where "LOSS_STATE_OF_APPLY = 0"
definition LOSS_STATE_OF_REVEAL :: u8 where "LOSS_STATE_OF_REVEAL = 1"
definition LOSS_STATE_OF_SUCCESS :: u8 where "LOSS_STATE_OF_SUCCESS = 2"

definition SPECIAL_REGISTER_PNS :: address where "SPECIAL_REGISTER_PNS = 0x101"
definition SPECIAL_REGISTER_AUTHORIZE :: address where "SPECIAL_REGISTER_AUTHORIZE = 0x102"
definition SPECIAL_REGISTER_LOSE :: address where "SPECIAL_REGISTER_LOSE = 0x103"
definition SPECIAL_CANCELLATION :: address where "SPECIAL_CANCELLATION = 0x104"
definition SPECIAL_VOTE :: address where "SPECIAL_VOTE = 0x105"
definition SPECIAL_APPLY_TO_BE_DPOS_NODE :: address where "SPECIAL_APPLY_TO_BE_DPOS_NODE = 0x106"
definition SPECIAL_REDEMPTION :: address where "SPECIAL_REDEMPTION = 0x107"
definition SPECIAL_CANCELLATION_LOST_ACCOUNT :: address where "SPECIAL_CANCELLATION_LOST_ACCOUNT = 0x108"
definition SPECIAL_REVEAL_LOSS_REPORT :: address where "SPECIAL_REVEAL_LOSS_REPORT = 0x109"
definition SPECIAL_TRANSFER_LOST_BALANCE :: address where "SPECIAL_TRANSFER_LOST_BALANCE = 0x110"
definition SPECIAL_REMOVE_LOSS_REPORT :: address where "SPECIAL_REMOVE_LOSS_REPORT = 0x111"
definition SPECIAL_REJECT_LOSS_REPORT :: address where "SPECIAL_REJECT_LOSS_REPORT = 0x112"
definition SPECIAL_MODIFY_PNS_OWNER :: address where "SPECIAL_MODIFY_PNS_OWNER = 0x113"
definition SPECIAL_MODIFY_PNS_CONTENT :: address where "SPECIAL_MODIFY_PNS_CONTENT = 0x114"
definition SPECIAL_MODIFY_LOSS_TYPE :: address where "SPECIAL_MODIFY_LOSS_TYPE = 0x115"
definition SPECIAL_TRANSFER_LOST_PNS :: address where "SPECIAL_TRANSFER_LOST_PNS = 0x116"
definition SPECIAL_TRANSFER_LOST_AUTHORIZE :: address where "SPECIAL_TRANSFER_LOST_AUTHORIZE = 0x117"
definition SPECIAL_DPOS :: address where "SPECIAL_DPOS = 0x119"

lemmas special_addresses =
  SPECIAL_REGISTER_PNS_def SPECIAL_REGISTER_AUTHORIZE_def SPECIAL_REGISTER_LOSE_def
  SPECIAL_CANCELLATION_def SPECIAL_VOTE_def SPECIAL_APPLY_TO_BE_DPOS_NODE_def
  SPECIAL_REDEMPTION_def SPECIAL_CANCELLATION_LOST_ACCOUNT_def SPECIAL_REVEAL_LOSS_REPORT_def
  SPECIAL_TRANSFER_LOST_BALANCE_def SPECIAL_REMOVE_LOSS_REPORT_def SPECIAL_REJECT_LOSS_REPORT_def
  SPECIAL_MODIFY_PNS_OWNER_def SPECIAL_MODIFY_PNS_CONTENT_def SPECIAL_MODIFY_LOSS_TYPE_def
  SPECIAL_TRANSFER_LOST_PNS_def SPECIAL_TRANSFER_LOST_AUTHORIZE_def SPECIAL_DPOS_def

section \<open>Loss marks and loss types\<close>

type_synonym LossMark = "1024 word"
type_synonym LossType = "8 word"

definition LossMarkBitLength :: nat where "LossMarkBitLength = 1024"

text \<open>\<open>None\<close> is \<open>ErrIndexOutOfBounds\<close>.\<close>

definition SetMark :: "LossMark \<Rightarrow> nat \<Rightarrow> bool \<Rightarrow> LossMark option" where
  "SetMark a index flag =
     (if index > LossMarkBitLength - 1 then None
      else Some (if flag then a OR push_bit index 1 else a AND NOT (push_bit index 1)))"

definition GetMark :: "LossMark \<Rightarrow> nat \<Rightarrow> bool" where
  "GetMark a index = (if index > LossMarkBitLength - 1 then False else bit a index)"

definition GetMarkedIndex :: "LossMark \<Rightarrow> nat list" where
  "GetMarkedIndex a = filter (bit a) [0..<LossMarkBitLength]"

definition LossType_GetState :: "LossType \<Rightarrow> bool" where
  "LossType_GetState a = bit a 0"

definition LossType_SetState :: "LossType \<Rightarrow> bool \<Rightarrow> LossType" where
  "LossType_SetState a flag = (if flag then a OR 1 else a AND NOT 1)"

definition LossType_GetType :: "LossType \<Rightarrow> u8" where
  "LossType_GetType a = drop_bit 1 a"

text \<open>
  \<open>SetType\<close> shifts the period left as a big integer and keeps the first (most significant) byte of
  the result, which has two bytes from period 128 on.
\<close>

definition LossType_SetType :: "LossType \<Rightarrow> u8 \<Rightarrow> LossType" where
  "LossType_SetType a period =
     (let flag = LossType_GetState a;
          b = 2 * unat period;
          c = (if b \<ge> 256 then of_nat (b div 256) else of_nat b)
      in LossType_SetState c flag)"

section \<open>Validator rounds\<close>

definition DPosNodeIntervalConfirmPoint :: u64 where "DPosNodeIntervalConfirmPoint = 64"

definition confirmBlockNum :: "u64 \<Rightarrow> u64" where
  "confirmBlockNum dPosEpoch =
     (if dPosEpoch > DPosNodeIntervalConfirmPoint then DPosNodeIntervalConfirmPoint
      else dPosEpoch div 2)"

definition CalcValidatorRoundId :: "u64 \<Rightarrow> u64 \<Rightarrow> panic + u64" where
  "CalcValidatorRoundId blockNumber dPosEpoch =
     (if blockNumber = 0 then Inr blockNumber
      else if dPosEpoch = 0 then Inl PanicDivide
      else let factor = blockNumber + confirmBlockNum dPosEpoch + dPosEpoch - 1
           in Inr ((factor - factor mod dPosEpoch) div dPosEpoch))"

definition IsConfirmPoint :: "u64 \<Rightarrow> u64 \<Rightarrow> panic + bool" where
  "IsConfirmPoint blockNumber dPosEpoch =
     (if dPosEpoch = 0 then Inl PanicDivide
      else let m = (blockNumber div dPosEpoch + 1) * dPosEpoch - confirmBlockNum dPosEpoch
           in if m = 0 then Inl PanicDivide else Inr (blockNumber mod m = 0))"

definition GetLastConfirmPoint :: "u64 \<Rightarrow> u64 \<Rightarrow> panic + u64" where
  "GetLastConfirmPoint blockNumber dPosEpoch =
     (if blockNumber \<le> dPosEpoch then Inr 0
      else if dPosEpoch = 0 then Inl PanicDivide
      else Inr ((blockNumber - 1) div dPosEpoch * dPosEpoch - confirmBlockNum dPosEpoch))"

definition GetCurrentConfirmPoint :: "u64 \<Rightarrow> u64 \<Rightarrow> panic + u64" where
  "GetCurrentConfirmPoint blockNumber dPosEpoch =
     bindE (GetLastConfirmPoint blockNumber dPosEpoch) (\<lambda>lastConfirmPoint.
       Inr (if lastConfirmPoint = 0 then dPosEpoch - confirmBlockNum dPosEpoch
            else lastConfirmPoint + dPosEpoch))"

section \<open>Account records\<close>

record RegularAccount =
  ra_VoteAccount :: address
  ra_VoteValue :: "int option"
  ra_LossType :: LossType
  ra_Nonce :: u64
  ra_Value :: "int option"
  ra_AccType :: u8

record PnsAccount =
  pa_Type :: u8
  pa_Owner :: address
  pa_Data :: bytes
  pa_AccType :: u8

record ContractAccount =
  ca_CodeHash :: "hash option"
  ca_StorageRoot :: hash
  ca_Value :: "int option"
  ca_VoteAccount :: address
  ca_VoteValue :: "int option"
  ca_Nonce :: u64
  ca_AccType :: u8

record AuthorizeAccount =
  aa_Owner :: address
  aa_PledgeValue :: "int option"
  aa_VoteValue :: "int option"
  aa_Info :: bytes
  aa_ValidPeriod :: "int option"
  aa_AccType :: u8

record LossAccount =
  la_State :: u8
  la_LostAccount :: address
  la_NewAccount :: address
  la_Height :: "int option"
  la_InfoDigest :: hash
  la_LastBits :: u32
  la_AccType :: u8

record LossMarkAccount =
  lm_LossMark :: LossMark
  lm_AccType :: u8

record DPoSCandidateAccount =
  dc_Enode :: bytes
  dc_Owner :: address
  dc_VoteAccount :: address
  dc_VoteValue :: "int option"

record ValidatorListAccount =
  vl_ValidatorCandidates :: "DPoSCandidateAccount list"
  vl_RoundId :: u64
  vl_AccType :: u8

definition zeroRegular :: RegularAccount where
  "zeroRegular = \<lparr>ra_VoteAccount = 0, ra_VoteValue = None, ra_LossType = 0, ra_Nonce = 0,
     ra_Value = None, ra_AccType = 0\<rparr>"
definition zeroPns :: PnsAccount where
  "zeroPns = \<lparr>pa_Type = 0, pa_Owner = 0, pa_Data = [], pa_AccType = 0\<rparr>"
definition zeroContract :: ContractAccount where
  "zeroContract = \<lparr>ca_CodeHash = None, ca_StorageRoot = 0, ca_Value = None, ca_VoteAccount = 0,
     ca_VoteValue = None, ca_Nonce = 0, ca_AccType = 0\<rparr>"
definition zeroAuthorize :: AuthorizeAccount where
  "zeroAuthorize = \<lparr>aa_Owner = 0, aa_PledgeValue = None, aa_VoteValue = None, aa_Info = [],
     aa_ValidPeriod = None, aa_AccType = 0\<rparr>"
definition zeroLoss :: LossAccount where
  "zeroLoss = \<lparr>la_State = 0, la_LostAccount = 0, la_NewAccount = 0, la_Height = None,
     la_InfoDigest = 0, la_LastBits = 0, la_AccType = 0\<rparr>"
definition zeroLossMark :: LossMarkAccount where
  "zeroLossMark = \<lparr>lm_LossMark = 0, lm_AccType = 0\<rparr>"
definition zeroValidatorList :: ValidatorListAccount where
  "zeroValidatorList = \<lparr>vl_ValidatorCandidates = [], vl_RoundId = 0, vl_AccType = 0\<rparr>"

section \<open>Candidates\<close>

text \<open>
  \<open>Less\<close> orders by vote value, highest first, ties by owner, highest first; it dereferences nil
  vote values when both are nil (\<open>None\<close> here).
\<close>

definition candidate_less :: "DPoSCandidateAccount \<Rightarrow> DPoSCandidateAccount \<Rightarrow> bool option" where
  "candidate_less a b =
     (case (dc_VoteValue a, dc_VoteValue b) of
        (None, Some _) \<Rightarrow> Some False
      | (Some _, None) \<Rightarrow> Some True
      | (None, None) \<Rightarrow> None
      | (Some x, Some y) \<Rightarrow> Some (if x = y then dc_Owner a > dc_Owner b else x > y))"

definition GetPresetDPosAccounts :: "DPoSCandidateAccount list \<Rightarrow> Validator list" where
  "GetPresetDPosAccounts d = map (\<lambda>c. \<lparr>v_Enode = dc_Enode c, v_Owner = dc_Owner c\<rparr>) d"

definition ValidatorNodeLength :: nat where "ValidatorNodeLength = 64"

fun replace_candidate ::
  "DPoSCandidateAccount list \<Rightarrow> DPoSCandidateAccount \<Rightarrow> DPoSCandidateAccount list option" where
  "replace_candidate [] cur = None"
| "replace_candidate (node # rest) cur =
     (if dc_VoteAccount node = dc_VoteAccount cur then Some (cur # rest)
      else map_option ((#) node) (replace_candidate rest cur))"

text \<open>
  \<open>AddValidatorCandidate\<close>: replace the entry of the same voting account or append, sort, keep the
  first 64. A panic of the comparison ends the call.
\<close>

definition AddValidatorCandidate ::
  "DPoSCandidateAccount list \<Rightarrow> DPoSCandidateAccount \<Rightarrow> panic + DPoSCandidateAccount list" where
  "AddValidatorCandidate d curNode =
     (let d' = (case replace_candidate d curNode of Some xs \<Rightarrow> xs | None \<Rightarrow> d @ [curNode])
      in if length (filter (\<lambda>c. dc_VoteValue c = None) d') > 1 then Inl PanicNilPointer
         else Inr (take ValidatorNodeLength (go_sort (\<lambda>a b. candidate_less a b = Some True) d')))"

section \<open>Facts about marks\<close>

lemma bit_loss_type: "n < 8 \<Longrightarrow> bit (LossType_SetState a f) n = (if n = 0 then f else bit a n)"
  by (auto simp: LossType_SetState_def bit_simps)

lemma LossType_SetState_type: "LossType_GetType (LossType_SetState a f) = LossType_GetType a"
  by (rule bit_word_eqI)
    (auto simp: LossType_GetType_def bit_simps LossType_SetState_def dest: bit_imp_le_length)

text \<open>The candidates invariant.\<close>

definition candidate_key :: "DPoSCandidateAccount \<Rightarrow> int \<times> int" where
  "candidate_key c = (- the (dc_VoteValue c), - uint (dc_Owner c))"

definition candidates_ok :: "DPoSCandidateAccount list \<Rightarrow> bool" where
  "candidates_ok d \<longleftrightarrow> length d \<le> ValidatorNodeLength \<and> distinct (map dc_VoteAccount d) \<and>
     (\<forall>c \<in> set d. dc_VoteValue c \<noteq> None) \<and> sorted (map candidate_key d)"

lemma candidate_less_key:
  assumes "dc_VoteValue a \<noteq> None" and "dc_VoteValue b \<noteq> None"
  shows "candidate_less a b = Some True \<longleftrightarrow> candidate_key a < candidate_key b"
  using assms by (auto simp: candidate_less_def candidate_key_def less_prod_def word_less_def split: if_splits)

lemma replace_candidate_result:
  "replace_candidate d cur = None \<Longrightarrow> dc_VoteAccount cur \<notin> dc_VoteAccount ` set d"
  "replace_candidate d cur = Some xs \<Longrightarrow>
     map dc_VoteAccount xs = map dc_VoteAccount d \<and> cur \<in> set xs \<and> set xs \<subseteq> insert cur (set d)"
  by (induction d arbitrary: xs) (auto split: if_splits)

lemma replace_candidate_others:
  "replace_candidate d cur = Some xs \<Longrightarrow> distinct (map dc_VoteAccount d) \<Longrightarrow> c \<in> set d \<Longrightarrow>
     dc_VoteAccount c \<noteq> dc_VoteAccount cur \<Longrightarrow> c \<in> set xs"
  by (induction d arbitrary: xs) (auto split: if_splits)

definition candidate_put :: "DPoSCandidateAccount list \<Rightarrow> DPoSCandidateAccount \<Rightarrow> DPoSCandidateAccount list" where
  "candidate_put d cur = (case replace_candidate d cur of Some xs \<Rightarrow> xs | None \<Rightarrow> d @ [cur])"

lemma candidate_put:
  assumes "distinct (map dc_VoteAccount d)"
  shows "distinct (map dc_VoteAccount (candidate_put d cur))"
    and "set (candidate_put d cur) = insert cur {c \<in> set d. dc_VoteAccount c \<noteq> dc_VoteAccount cur}"
proof -
  show D: "distinct (map dc_VoteAccount (candidate_put d cur))"
    using assms replace_candidate_result [of d cur]
    by (auto simp: candidate_put_def split: option.splits)
  show "set (candidate_put d cur) = insert cur {c \<in> set d. dc_VoteAccount c \<noteq> dc_VoteAccount cur}"
  proof (cases "replace_candidate d cur")
    case None
    then show ?thesis
      using replace_candidate_result(1) [OF None] by (auto simp: candidate_put_def image_iff)
  next
    case (Some xs)
    have "inj_on dc_VoteAccount (set xs)"
      using D Some by (simp add: candidate_put_def distinct_map)
    then have "c = cur" if "c \<in> set xs" "dc_VoteAccount c = dc_VoteAccount cur" for c
      using that replace_candidate_result(2) [OF Some] by (auto dest: inj_onD)
    then show ?thesis
      using Some replace_candidate_result(2) [OF Some] replace_candidate_others [OF Some assms]
      by (auto simp: candidate_put_def)
  qed
qed

lemma AddValidatorCandidate_result:
  assumes "candidates_ok d" and "dc_VoteValue cur \<noteq> None"
  shows "AddValidatorCandidate d cur =
           Inr (take ValidatorNodeLength (sort_key candidate_key (candidate_put d cur)))"
proof -
  have D: "distinct (map dc_VoteAccount d)" and V: "\<forall>c \<in> set d. dc_VoteValue c \<noteq> None"
    using assms(1) by (simp_all add: candidates_ok_def)
  have all: "dc_VoteValue c \<noteq> None" if "c \<in> set (candidate_put d cur)" for c
    using that V assms(2) candidate_put(2) [OF D, of cur] by auto
  then have "filter (\<lambda>c. dc_VoteValue c = None) (candidate_put d cur) = []"
    by (simp add: filter_empty_conv)
  moreover have "go_sort (\<lambda>a b. candidate_less a b = Some True) (candidate_put d cur) =
      sort_key candidate_key (candidate_put d cur)"
    by (rule go_sort_key) (rule candidate_less_key [OF all all])
  ultimately show ?thesis
    by (simp add: AddValidatorCandidate_def Let_def flip: candidate_put_def)
qed

section \<open>Properties\<close>

text \<open>
  C31. The candidate list stays a sorted list of at most 64 candidates with pairwise different
  voting accounts when a candidate is added; a candidate that is cut off (the new one or an old one
  of another voting account) is beaten by, or tied with, every one of the 64 candidates kept.
\<close>

theorem AddValidatorCandidate_ok:
  assumes "candidates_ok d" and "dc_VoteValue cur \<noteq> None"
  shows "\<exists>d'. AddValidatorCandidate d cur = Inr d' \<and> candidates_ok d' \<and>
           set d' \<subseteq> insert cur (set d) \<and>
           (\<forall>c. (c = cur \<or> c \<in> set d \<and> dc_VoteAccount c \<noteq> dc_VoteAccount cur) \<and> c \<notin> set d' \<longrightarrow>
              length d' = ValidatorNodeLength \<and> (\<forall>k \<in> set d'. candidate_key k \<le> candidate_key c))"
proof -
  let ?p = "candidate_put d cur"
  let ?q = "sort_key candidate_key ?p"
  let ?r = "take ValidatorNodeLength ?q"
  have D: "distinct (map dc_VoteAccount d)" and V: "\<forall>c \<in> set d. dc_VoteValue c \<noteq> None"
    using assms(1) by (simp_all add: candidates_ok_def)
  note put = candidate_put [OF D, of cur]
  have sub: "set ?r \<subseteq> set ?p" using set_take_subset [of ValidatorNodeLength ?q] by auto
  have "mset (map dc_VoteAccount ?q) = mset (map dc_VoteAccount ?p)" by simp
  then have dq: "distinct (map dc_VoteAccount ?q)" using put(1) by (metis mset_eq_imp_distinct_iff)
  have ok: "candidates_ok ?r"
    using sub put(2) V assms(2) dq unfolding candidates_ok_def
    by (auto simp: take_map [symmetric] sorted_wrt_take distinct_take)
  have rest: "length ?r = ValidatorNodeLength \<and> (\<forall>k \<in> set ?r. candidate_key k \<le> candidate_key c)"
    if "c \<in> set ?p" "c \<notin> set ?r" for c
  proof -
    have "?r @ drop ValidatorNodeLength ?q = ?q" by simp
    then have "c \<in> set (drop ValidatorNodeLength ?q)"
      using that by (metis UnE set_append set_sort)
    moreover have "sorted (map candidate_key (?r @ drop ValidatorNodeLength ?q))" by simp
    ultimately show ?thesis
      unfolding map_append sorted_append by (auto dest: in_set_dropD simp: min_def)
  qed
  show ?thesis
    using AddValidatorCandidate_result [OF assms] ok sub put(2) rest
    by (intro exI [of _ ?r]) auto
qed

theorem AddValidatorCandidate_ok_witness:
  "\<exists>d'. AddValidatorCandidate [\<lparr>dc_Enode = [], dc_Owner = 1, dc_VoteAccount = 11, dc_VoteValue = Some 5\<rparr>]
      \<lparr>dc_Enode = [], dc_Owner = 2, dc_VoteAccount = 12, dc_VoteValue = Some 7\<rparr> = Inr d' \<and>
    candidates_ok d'"
  using AddValidatorCandidate_ok [of "[\<lparr>dc_Enode = [], dc_Owner = 1, dc_VoteAccount = 11, dc_VoteValue = Some 5\<rparr>]"
      "\<lparr>dc_Enode = [], dc_Owner = 2, dc_VoteAccount = 12, dc_VoteValue = Some 7\<rparr>"]
  by (auto simp: candidates_ok_def ValidatorNodeLength_def)

text \<open>
  A loss mark is a set of 1024 bits: setting a bit in range succeeds and changes that bit only.
  A loss type packs a state bit and a period of 7 bits: setting one keeps the other, and a period up
  to 127 reads back.
\<close>

theorem marks_roundtrip:
  assumes "i < LossMarkBitLength" and "unat p \<le> 127"
  shows "(\<exists>b. SetMark m i f = Some b \<and> (\<forall>j. GetMark b j = (if j = i then f else GetMark m j))) \<and>
         LossType_GetState (LossType_SetState t f) = f \<and>
         LossType_GetType (LossType_SetState t f) = LossType_GetType t \<and>
         LossType_GetType (LossType_SetType t p) = p \<and>
         LossType_GetState (LossType_SetType t p) = LossType_GetState t"
proof -
  have mark: "\<exists>b. SetMark m i f = Some b \<and> (\<forall>j. GetMark b j = (if j = i then f else GetMark m j))"
    using assms(1) by (auto simp: SetMark_def GetMark_def LossMarkBitLength_def bit_simps)
  have state: "LossType_GetState (LossType_SetState x f) = f" for x f
    by (simp add: LossType_GetState_def bit_loss_type)
  have "drop_bit 1 (of_nat (2 * unat p) :: u8) = p"
  proof -
    have "unat (of_nat (2 * unat p) :: u8) = 2 * unat p"
      using assms(2) by (simp only: unat_of_nat) simp
    then show ?thesis by (simp add: word_unat_eq_iff drop_bit_Suc unat_div)
  qed
  then have "LossType_GetType (LossType_SetType t p) = p"
    using assms(2) unfolding LossType_SetType_def Let_def LossType_SetState_type
    by (simp add: LossType_GetType_def)
  with mark state LossType_SetState_type show ?thesis
    by (auto simp: LossType_SetType_def Let_def)
qed

theorem marks_roundtrip_witness:
  "LossType_GetType (LossType_SetType 1 127) = 127 \<and> LossType_GetState (LossType_SetType 1 127) \<and>
   (\<exists>b. SetMark 0 5 True = Some b \<and> GetMark b 5)"
  using marks_roundtrip [of 5 127 0 True 1]
  by (auto simp: LossMarkBitLength_def LossType_GetState_def)

end
