(* ===== verification/StateDB.thy ===== *)
theory StateDB
  imports Accounts
begin

text \<open>
  The world state of \<open>src/core/state\<close>: state objects (\<open>state_object.go\<close>), the access list
  (\<open>access_list.go\<close>), the journal (\<open>journal.go\<close>) and the setters, snapshots and reverts of
  \<open>statedb.go\<close>. The main result is that \<open>RevertToSnapshot\<close> undoes every sequence of journalled
  setters, nested snapshots and nested reverts included.

  The database below the state is a record of what it holds: decoded accounts by address, storage
  slots by storage root, code by hash. Reads are pure: the code also caches what it read in the
  live objects, which no operation can observe. The state is opened without a snapshot tree
  (\<open>s.snap == nil\<close>), and the prefetcher and the metrics are left out.
\<close>

section \<open>State objects\<close>

datatype account_data =
    RegularData RegularAccount
  | PnsData PnsAccount
  | ContractData ContractAccount
  | AuthorizeData AuthorizeAccount
  | LossData LossAccount
  | LossMarkData LossMarkAccount
  | ValidatorListData ValidatorListAccount
  | BadData  \<comment> \<open>bytes that do not decode\<close>

record Database =
  db_account :: "address \<Rightarrow> account_data option"
  db_slot :: "hash \<Rightarrow> hash \<Rightarrow> hash"
  db_code :: "hash \<Rightarrow> bytes option"
  db_emptyCodeHash :: hash
  db_emptyRoot :: hash

record stateObject =
  so_address :: address
  so_accountType :: u8
  so_regularAccount :: RegularAccount
  so_pnsAccount :: PnsAccount
  so_assetAccount :: ContractAccount
  so_authorizeAccount :: AuthorizeAccount
  so_lossAccount :: LossAccount
  so_lossMarkAccount :: LossMarkAccount
  so_validatorListAccount :: ValidatorListAccount
  so_code :: "bytes option"
  so_originStorage :: "hash \<rightharpoonup> hash"
  so_pendingStorage :: "hash \<rightharpoonup> hash"
  so_dirtyStorage :: "hash \<rightharpoonup> hash"
  so_fakeStorage :: "(hash \<rightharpoonup> hash) option"
  so_dirtyCode :: bool
  so_suicided :: bool
  so_deleted :: bool

definition emptyObject :: "address \<Rightarrow> u8 \<Rightarrow> stateObject" where
  "emptyObject addr t =
     \<lparr>so_address = addr, so_accountType = t, so_regularAccount = zeroRegular,
      so_pnsAccount = zeroPns, so_assetAccount = zeroContract, so_authorizeAccount = zeroAuthorize,
      so_lossAccount = zeroLoss, so_lossMarkAccount = zeroLossMark,
      so_validatorListAccount = zeroValidatorList, so_code = None,
      so_originStorage = Map.empty, so_pendingStorage = Map.empty, so_dirtyStorage = Map.empty,
      so_fakeStorage = None, so_dirtyCode = False, so_suicided = False, so_deleted = False\<rparr>"

definition nil_to_zero :: "int option \<Rightarrow> int option" where
  "nil_to_zero v = (case v of None \<Rightarrow> Some 0 | Some x \<Rightarrow> Some x)"

definition newRegularAccount :: "address \<Rightarrow> RegularAccount \<Rightarrow> stateObject" where
  "newRegularAccount addr data = (emptyObject addr ACC_TYPE_OF_REGULAR)
     \<lparr>so_regularAccount := data\<lparr>ra_Value := nil_to_zero (ra_Value data), ra_AccType := ACC_TYPE_OF_REGULAR\<rparr>\<rparr>"

definition newPnsAccount :: "address \<Rightarrow> PnsAccount \<Rightarrow> stateObject" where
  "newPnsAccount addr data = (emptyObject addr ACC_TYPE_OF_PNS)
     \<lparr>so_pnsAccount := data\<lparr>pa_AccType := ACC_TYPE_OF_PNS\<rparr>\<rparr>"

definition newContractAccount :: "Database \<Rightarrow> address \<Rightarrow> ContractAccount \<Rightarrow> stateObject" where
  "newContractAccount db addr data = (emptyObject addr ACC_TYPE_OF_CONTRACT)
     \<lparr>so_assetAccount := data
        \<lparr>ca_Value := nil_to_zero (ca_Value data), ca_VoteValue := nil_to_zero (ca_VoteValue data),
         ca_CodeHash := (if ca_CodeHash data = None then Some (db_emptyCodeHash db) else ca_CodeHash data),
         ca_StorageRoot := (if ca_StorageRoot data = 0 then db_emptyRoot db else ca_StorageRoot data),
         ca_AccType := ACC_TYPE_OF_CONTRACT\<rparr>\<rparr>"

definition newAuthorizeAccount :: "address \<Rightarrow> AuthorizeAccount \<Rightarrow> stateObject" where
  "newAuthorizeAccount addr data = (emptyObject addr ACC_TYPE_OF_AUTHORIZE)
     \<lparr>so_authorizeAccount := data\<lparr>aa_AccType := ACC_TYPE_OF_AUTHORIZE\<rparr>\<rparr>"

definition newLossAccount :: "address \<Rightarrow> LossAccount \<Rightarrow> stateObject" where
  "newLossAccount addr data = (emptyObject addr ACC_TYPE_OF_LOSS)
     \<lparr>so_lossAccount := data\<lparr>la_AccType := ACC_TYPE_OF_LOSS\<rparr>\<rparr>"

definition newLossMarkAccount :: "address \<Rightarrow> LossMarkAccount \<Rightarrow> stateObject" where
  "newLossMarkAccount addr data = (emptyObject addr ACC_TYPE_OF_LOSS_MARK)
     \<lparr>so_lossMarkAccount := data\<lparr>lm_AccType := ACC_TYPE_OF_LOSS_MARK\<rparr>\<rparr>"

definition newValidatorListAccount :: "address \<Rightarrow> ValidatorListAccount \<Rightarrow> stateObject" where
  "newValidatorListAccount addr data = (emptyObject addr ACC_TYPE_OF_DPOS)
     \<lparr>so_validatorListAccount := data\<lparr>vl_AccType := ACC_TYPE_OF_DPOS\<rparr>\<rparr>"

text \<open>
  \<open>newAccountDataByAddr\<close> with an encoding (the type is read off its end) or, with no encoding and
  a type, from zero data; \<open>None\<close> when it reports that it is done without an object.
\<close>

definition newAccountDataByAddr :: "Database \<Rightarrow> address \<Rightarrow> account_data option \<Rightarrow> u8 \<Rightarrow> stateObject option" where
  "newAccountDataByAddr db addr enc accountType =
     (case enc of
        Some d \<Rightarrow>
          (case d of
             RegularData a \<Rightarrow> Some (newRegularAccount addr a)
           | PnsData a \<Rightarrow> Some (newPnsAccount addr a)
           | ContractData a \<Rightarrow> Some (newContractAccount db addr a)
           | AuthorizeData a \<Rightarrow> Some (newAuthorizeAccount addr a)
           | LossData a \<Rightarrow> Some (newLossAccount addr a)
           | LossMarkData a \<Rightarrow> Some (newLossMarkAccount addr a)
           | ValidatorListData a \<Rightarrow> Some (newValidatorListAccount addr a)
           | BadData \<Rightarrow> None)
      | None \<Rightarrow>
          if accountType = ACC_TYPE_OF_REGULAR then Some (newRegularAccount addr zeroRegular)
          else if accountType = ACC_TYPE_OF_PNS then Some (newPnsAccount addr zeroPns)
          else if accountType = ACC_TYPE_OF_CONTRACT then Some (newContractAccount db addr zeroContract)
          else if accountType = ACC_TYPE_OF_AUTHORIZE then Some (newAuthorizeAccount addr zeroAuthorize)
          else if accountType = ACC_TYPE_OF_LOSS then Some (newLossAccount addr zeroLoss)
          else if accountType = ACC_TYPE_OF_LOSS_MARK then Some (newLossMarkAccount addr zeroLossMark)
          else if accountType = ACC_TYPE_OF_DPOS then Some (newValidatorListAccount addr zeroValidatorList)
          else None)"

definition Balance :: "stateObject \<Rightarrow> int option" where
  "Balance ob =
     (if so_accountType ob = ACC_TYPE_OF_REGULAR then ra_Value (so_regularAccount ob)
      else if so_accountType ob = ACC_TYPE_OF_CONTRACT then ca_Value (so_assetAccount ob)
      else Some 0)"

definition Nonce :: "stateObject \<Rightarrow> u64" where
  "Nonce ob =
     (if so_accountType ob = ACC_TYPE_OF_REGULAR then ra_Nonce (so_regularAccount ob)
      else if so_accountType ob = ACC_TYPE_OF_CONTRACT then ca_Nonce (so_assetAccount ob)
      else 0)"

definition setBalance :: "int option \<Rightarrow> stateObject \<Rightarrow> stateObject" where
  "setBalance amount ob =
     (if so_accountType ob = ACC_TYPE_OF_REGULAR
      then ob\<lparr>so_regularAccount := (so_regularAccount ob)\<lparr>ra_Value := amount\<rparr>\<rparr>
      else if so_accountType ob = ACC_TYPE_OF_CONTRACT
      then ob\<lparr>so_assetAccount := (so_assetAccount ob)\<lparr>ca_Value := amount\<rparr>\<rparr>
      else ob)"

definition setNonce :: "u64 \<Rightarrow> stateObject \<Rightarrow> stateObject" where
  "setNonce nonce ob =
     (if so_accountType ob = ACC_TYPE_OF_REGULAR
      then ob\<lparr>so_regularAccount := (so_regularAccount ob)\<lparr>ra_Nonce := nonce\<rparr>\<rparr>
      else if so_accountType ob = ACC_TYPE_OF_CONTRACT
      then ob\<lparr>so_assetAccount := (so_assetAccount ob)\<lparr>ca_Nonce := nonce\<rparr>\<rparr>
      else ob)"

text \<open>
  Storage reads: the fake storage when there is one, else the dirty, pending and original slots,
  else the storage trie of the object's root.
\<close>

definition obj_GetCommittedState :: "Database \<Rightarrow> stateObject \<Rightarrow> hash \<Rightarrow> hash" where
  "obj_GetCommittedState db ob key =
     (case so_fakeStorage ob of
        Some f \<Rightarrow> (case f key of Some v \<Rightarrow> v | None \<Rightarrow> 0)
      | None \<Rightarrow>
          (case so_pendingStorage ob key of
             Some v \<Rightarrow> v
           | None \<Rightarrow>
               (case so_originStorage ob key of
                  Some v \<Rightarrow> v
                | None \<Rightarrow> db_slot db (ca_StorageRoot (so_assetAccount ob)) key)))"

definition obj_GetState :: "Database \<Rightarrow> stateObject \<Rightarrow> hash \<Rightarrow> hash" where
  "obj_GetState db ob key =
     (case so_fakeStorage ob of
        Some f \<Rightarrow> (case f key of Some v \<Rightarrow> v | None \<Rightarrow> 0)
      | None \<Rightarrow>
          (case so_dirtyStorage ob key of
             Some v \<Rightarrow> v
           | None \<Rightarrow> obj_GetCommittedState db ob key))"

definition setState :: "hash \<Rightarrow> hash \<Rightarrow> stateObject \<Rightarrow> stateObject" where
  "setState key value ob = ob\<lparr>so_dirtyStorage := (so_dirtyStorage ob)(key \<mapsto> value)\<rparr>"

definition obj_SetStorage :: "(hash \<rightharpoonup> hash) \<Rightarrow> stateObject \<Rightarrow> stateObject" where
  "obj_SetStorage storage ob =
     ob\<lparr>so_fakeStorage := Some ((case so_fakeStorage ob of Some f \<Rightarrow> f | None \<Rightarrow> Map.empty) ++ storage)\<rparr>"

definition finalise :: "stateObject \<Rightarrow> stateObject" where
  "finalise ob = ob\<lparr>so_pendingStorage := so_pendingStorage ob ++ so_dirtyStorage ob,
                  so_dirtyStorage := Map.empty\<rparr>"

definition CodeHash :: "stateObject \<Rightarrow> hash option" where
  "CodeHash ob = ca_CodeHash (so_assetAccount ob)"

definition BytesToHash_nil :: "hash option \<Rightarrow> hash" where
  "BytesToHash_nil h = (case h of None \<Rightarrow> 0 | Some x \<Rightarrow> x)"

definition Code :: "Database \<Rightarrow> stateObject \<Rightarrow> bytes option" where
  "Code db ob =
     (case so_code ob of
        Some c \<Rightarrow> Some c
      | None \<Rightarrow> if CodeHash ob = Some (db_emptyCodeHash db) then None
                else db_code db (BytesToHash_nil (CodeHash ob)))"

definition setCode :: "hash \<Rightarrow> bytes option \<Rightarrow> stateObject \<Rightarrow> stateObject" where
  "setCode codeHash code ob =
     ob\<lparr>so_code := code, so_assetAccount := (so_assetAccount ob)\<lparr>ca_CodeHash := Some codeHash\<rparr>,
       so_dirtyCode := True\<rparr>"

definition markSuicided :: "stateObject \<Rightarrow> stateObject" where
  "markSuicided ob = ob\<lparr>so_suicided := True\<rparr>"

section \<open>The access list\<close>

text \<open>An address maps to \<open>-1\<close> (no slots) or to the index of its slot set.\<close>

record accessList =
  al_addresses :: "address \<rightharpoonup> int"
  al_slots :: "hash set list"

definition newAccessList :: accessList where
  "newAccessList = \<lparr>al_addresses = Map.empty, al_slots = []\<rparr>"

definition ContainsAddress :: "accessList \<Rightarrow> address \<Rightarrow> bool" where
  "ContainsAddress al a = (al_addresses al a \<noteq> None)"

definition al_Contains :: "accessList \<Rightarrow> address \<Rightarrow> hash \<Rightarrow> panic + bool \<times> bool" where
  "al_Contains al a slot =
     (case al_addresses al a of
        None \<Rightarrow> Inr (False, False)
      | Some idx \<Rightarrow>
          if idx = -1 then Inr (True, False)
          else if idx < 0 \<or> idx \<ge> int (length (al_slots al)) then Inl PanicIndex
          else Inr (True, slot \<in> al_slots al ! nat idx))"

definition AddAddress :: "accessList \<Rightarrow> address \<Rightarrow> accessList \<times> bool" where
  "AddAddress al a =
     (if al_addresses al a \<noteq> None then (al, False)
      else (al\<lparr>al_addresses := (al_addresses al)(a \<mapsto> -1)\<rparr>, True))"

definition AddSlot :: "accessList \<Rightarrow> address \<Rightarrow> hash \<Rightarrow> panic + accessList \<times> bool \<times> bool" where
  "AddSlot al a slot =
     (case al_addresses al a of
        None \<Rightarrow> Inr (al\<lparr>al_addresses := (al_addresses al)(a \<mapsto> int (length (al_slots al))),
                       al_slots := al_slots al @ [{slot}]\<rparr>, True, True)
      | Some idx \<Rightarrow>
          if idx = -1 then
            Inr (al\<lparr>al_addresses := (al_addresses al)(a \<mapsto> int (length (al_slots al))),
                    al_slots := al_slots al @ [{slot}]\<rparr>, False, True)
          else if idx < 0 \<or> idx \<ge> int (length (al_slots al)) then Inl PanicIndex
          else if slot \<notin> al_slots al ! nat idx then
            Inr (al\<lparr>al_slots := (al_slots al)[nat idx := insert slot (al_slots al ! nat idx)]\<rparr>, False, True)
          else Inr (al, False, False))"

definition DeleteSlot :: "accessList \<Rightarrow> address \<Rightarrow> hash \<Rightarrow> panic + accessList" where
  "DeleteSlot al a slot =
     (case al_addresses al a of
        None \<Rightarrow> Inl PanicExplicit
      | Some idx \<Rightarrow>
          if idx < 0 \<or> idx \<ge> int (length (al_slots al)) then Inl PanicIndex
          else let slotmap = al_slots al ! nat idx - {slot}
               in if slotmap = {} then
                    Inr (al\<lparr>al_slots := take (nat idx) (al_slots al),
                            al_addresses := (al_addresses al)(a \<mapsto> -1)\<rparr>)
                  else Inr (al\<lparr>al_slots := (al_slots al)[nat idx := slotmap]\<rparr>))"

definition DeleteAddress :: "accessList \<Rightarrow> address \<Rightarrow> accessList" where
  "DeleteAddress al a = al\<lparr>al_addresses := (al_addresses al)(a := None)\<rparr>"

section \<open>The journal\<close>

datatype journalEntry =
    createObjectChange address
  | resetObjectChange stateObject
  | regularSuicideChange address bool u8 address int LossType int
  | pnsSuicideChange address bool u8 u8 address bytes
  | assetSuicideChange address bool u8 address int int
  | authorizeSuicideChange address bool u8 address int int bytes int
  | lossSuicideChange address bool u8 u8 address address int hash
  | balanceChange address int
  | nonceChange address u64
  | storageChange address hash hash
  | codeChange address "bytes option" "hash option"
  | refundChange u64
  | addLogChange hash
  | addPreimageChange hash
  | touchChange address
  | accessListAddAccountChange address
  | accessListAddSlotChange address hash
  | voteForRegularChange address address int
  | voteValueForAuthorizeChange address int
  | lossMarkAccountChange address LossMark
  | sendLossReportChange address u8 u64 hash int
  | lossTypeChange address LossType
  | lossStateChange address u8
  | lostAccountVoteChange address address int
  | revealLossReportChange address address address int u8
  | redemptionForRegularChange address address int int
  | modifyAuthorizeOwnerChange address address
  | modifyPnsOwnerChange address address
  | modifyPnsContentChange address u8 bytes
  | redemptionForAuthorizeChange address int int
  | dPosCandidateForAuthorizeChange address bytes int
  | dPosCandidateChange address "DPoSCandidateAccount list" u64

fun dirtied :: "journalEntry \<Rightarrow> address option" where
  "dirtied (createObjectChange a) = Some a"
| "dirtied (resetObjectChange prev) = None"
| "dirtied (regularSuicideChange a _ _ _ _ _ _) = Some a"
| "dirtied (pnsSuicideChange a _ _ _ _ _) = Some a"
| "dirtied (assetSuicideChange a _ _ _ _ _) = Some a"
| "dirtied (authorizeSuicideChange a _ _ _ _ _ _ _) = Some a"
| "dirtied (lossSuicideChange a _ _ _ _ _ _ _) = Some a"
| "dirtied (balanceChange a _) = Some a"
| "dirtied (nonceChange a _) = Some a"
| "dirtied (storageChange a _ _) = Some a"
| "dirtied (codeChange a _ _) = Some a"
| "dirtied (refundChange _) = None"
| "dirtied (addLogChange _) = None"
| "dirtied (addPreimageChange _) = None"
| "dirtied (touchChange a) = Some a"
| "dirtied (accessListAddAccountChange _) = None"
| "dirtied (accessListAddSlotChange _ _) = None"
| "dirtied (voteForRegularChange a _ _) = Some a"
| "dirtied (voteValueForAuthorizeChange a _) = Some a"
| "dirtied (lossMarkAccountChange a _) = Some a"
| "dirtied (sendLossReportChange a _ _ _ _) = Some a"
| "dirtied (lossTypeChange a _) = Some a"
| "dirtied (lossStateChange a _) = Some a"
| "dirtied (lostAccountVoteChange a _ _) = Some a"
| "dirtied (revealLossReportChange a _ _ _ _) = Some a"
| "dirtied (redemptionForRegularChange a _ _ _) = Some a"
| "dirtied (modifyAuthorizeOwnerChange a _) = Some a"
| "dirtied (modifyPnsOwnerChange a _) = Some a"
| "dirtied (modifyPnsContentChange a _ _) = Some a"
| "dirtied (redemptionForAuthorizeChange a _ _) = Some a"
| "dirtied (dPosCandidateForAuthorizeChange a _ _) = Some a"
| "dirtied (dPosCandidateChange a _ _) = Some a"

record Log =
  lg_Address :: address
  lg_Topics :: "hash list"
  lg_Data :: bytes
  lg_TxHash :: hash
  lg_TxIndex :: int
  lg_Index :: u64

record StateDB =
  sd_db :: Database
  sd_stateObjects :: "address \<rightharpoonup> stateObject"
  sd_stateObjectsPending :: "address set"
  sd_stateObjectsDirty :: "address set"
  sd_refund :: u64
  sd_thash :: hash
  sd_txIndex :: int
  sd_logs :: "hash \<rightharpoonup> Log list"
  sd_logSize :: u64
  sd_preimages :: "hash \<rightharpoonup> bytes"
  sd_accessList :: accessList
  sd_entries :: "journalEntry list"
  sd_dirties :: "address \<rightharpoonup> int"
  sd_validRevisions :: "(int \<times> nat) list"
  sd_nextRevisionId :: int

definition NewStateDB :: "Database \<Rightarrow> StateDB" where
  "NewStateDB db =
     \<lparr>sd_db = db, sd_stateObjects = Map.empty, sd_stateObjectsPending = {}, sd_stateObjectsDirty = {},
      sd_refund = 0, sd_thash = 0, sd_txIndex = 0, sd_logs = Map.empty, sd_logSize = 0,
      sd_preimages = Map.empty, sd_accessList = newAccessList, sd_entries = [],
      sd_dirties = Map.empty, sd_validRevisions = [], sd_nextRevisionId = 0\<rparr>"

definition journal_append :: "journalEntry \<Rightarrow> StateDB \<Rightarrow> StateDB" where
  "journal_append e s =
     s\<lparr>sd_entries := sd_entries s @ [e],
       sd_dirties := (case dirtied e of
                        None \<Rightarrow> sd_dirties s
                      | Some a \<Rightarrow> (sd_dirties s)(a \<mapsto> (case sd_dirties s a of None \<Rightarrow> 0 | Some n \<Rightarrow> n) + 1))\<rparr>"

section \<open>Objects of the state\<close>

definition getDeletedStateObject :: "StateDB \<Rightarrow> address \<Rightarrow> stateObject option" where
  "getDeletedStateObject s addr =
     (case sd_stateObjects s addr of
        Some ob \<Rightarrow> Some ob
      | None \<Rightarrow>
          (case db_account (sd_db s) addr of
             None \<Rightarrow> None
           | Some enc \<Rightarrow> newAccountDataByAddr (sd_db s) addr (Some enc) ACC_TYPE_OF_UNKNOWN))"

definition getStateObject :: "StateDB \<Rightarrow> address \<Rightarrow> stateObject option" where
  "getStateObject s addr =
     (case getDeletedStateObject s addr of
        Some ob \<Rightarrow> if so_deleted ob then None else Some ob
      | None \<Rightarrow> None)"

definition setStateObject :: "stateObject \<Rightarrow> StateDB \<Rightarrow> StateDB" where
  "setStateObject ob s = s\<lparr>sd_stateObjects := (sd_stateObjects s)(so_address ob \<mapsto> ob)\<rparr>"

text \<open>An assignment to fields of the object found at an address.\<close>

definition put_object :: "address \<Rightarrow> stateObject \<Rightarrow> StateDB \<Rightarrow> StateDB" where
  "put_object addr ob s = s\<lparr>sd_stateObjects := (sd_stateObjects s)(addr \<mapsto> ob)\<rparr>"

definition createObjectByAccType ::
  "address \<Rightarrow> u8 \<Rightarrow> StateDB \<Rightarrow> (stateObject option \<times> stateObject option) \<times> StateDB" where
  "createObjectByAccType addr accType s =
     (let prev = getDeletedStateObject s addr
      in case newAccountDataByAddr (sd_db s) addr None accType of
           None \<Rightarrow> ((None, None), s)
         | Some newobj \<Rightarrow>
             let s = journal_append (case prev of None \<Rightarrow> createObjectChange addr
                                     | Some p \<Rightarrow> resetObjectChange p) s;
                 s = setStateObject newobj s
             in ((Some newobj,
                  case prev of Some p \<Rightarrow> if so_deleted p then None else Some p | None \<Rightarrow> None), s))"

definition createObject ::
  "address \<Rightarrow> StateDB \<Rightarrow> (stateObject option \<times> stateObject option) \<times> StateDB" where
  "createObject addr s = createObjectByAccType addr ACC_TYPE_OF_REGULAR s"

definition GetOrNewStateObject :: "address \<Rightarrow> StateDB \<Rightarrow> stateObject option \<times> StateDB" where
  "GetOrNewStateObject addr s =
     (case getStateObject s addr of
        Some ob \<Rightarrow> (Some ob, s)
      | None \<Rightarrow> (let r = createObject addr s in (fst (fst r), snd r)))"

definition CreateAccountOfType :: "u8 \<Rightarrow> address \<Rightarrow> StateDB \<Rightarrow> StateDB" where
  "CreateAccountOfType t addr s =
     (let r = createObjectByAccType addr t s
      in case fst r of
           (Some newObj, Some prev) \<Rightarrow> put_object addr (setBalance (Balance prev) newObj) (snd r)
         | _ \<Rightarrow> snd r)"

definition CreateAccount :: "address \<Rightarrow> StateDB \<Rightarrow> StateDB" where
  "CreateAccount addr s = CreateAccountOfType ACC_TYPE_OF_REGULAR addr s"

definition CreateContractAccount :: "address \<Rightarrow> StateDB \<Rightarrow> StateDB" where
  "CreateContractAccount addr s = CreateAccountOfType ACC_TYPE_OF_CONTRACT addr s"

section \<open>Getters\<close>

definition GetBalance :: "StateDB \<Rightarrow> address \<Rightarrow> int option" where
  "GetBalance s addr = (case getStateObject s addr of Some ob \<Rightarrow> Balance ob | None \<Rightarrow> Some 0)"

definition GetNonce :: "StateDB \<Rightarrow> address \<Rightarrow> u64" where
  "GetNonce s addr = (case getStateObject s addr of Some ob \<Rightarrow> Nonce ob | None \<Rightarrow> 0)"

definition GetCode :: "StateDB \<Rightarrow> address \<Rightarrow> bytes option" where
  "GetCode s addr = (case getStateObject s addr of Some ob \<Rightarrow> Code (sd_db s) ob | None \<Rightarrow> None)"

definition GetCodeHash :: "StateDB \<Rightarrow> address \<Rightarrow> hash" where
  "GetCodeHash s addr =
     (case getStateObject s addr of Some ob \<Rightarrow> BytesToHash_nil (CodeHash ob) | None \<Rightarrow> 0)"

definition GetState :: "StateDB \<Rightarrow> address \<Rightarrow> hash \<Rightarrow> hash" where
  "GetState s addr key =
     (case getStateObject s addr of Some ob \<Rightarrow> obj_GetState (sd_db s) ob key | None \<Rightarrow> 0)"

definition GetCommittedState :: "StateDB \<Rightarrow> address \<Rightarrow> hash \<Rightarrow> hash" where
  "GetCommittedState s addr key =
     (case getStateObject s addr of Some ob \<Rightarrow> obj_GetCommittedState (sd_db s) ob key | None \<Rightarrow> 0)"

definition Exist :: "StateDB \<Rightarrow> address \<Rightarrow> bool" where
  "Exist s addr = (getStateObject s addr \<noteq> None)"

definition HasSuicided :: "StateDB \<Rightarrow> address \<Rightarrow> bool" where
  "HasSuicided s addr = (case getStateObject s addr of Some ob \<Rightarrow> so_suicided ob | None \<Rightarrow> False)"

section \<open>Setters\<close>

text \<open>
  Each setter finds or creates the object and calls the object's method; the object's methods
  append to the journal of the state. Reading a nil balance is a nil pointer dereference.
\<close>

definition obj_SetBalance :: "address \<Rightarrow> stateObject \<Rightarrow> int \<Rightarrow> StateDB \<Rightarrow> panic + StateDB" where
  "obj_SetBalance addr ob amount s =
     (if so_accountType ob = ACC_TYPE_OF_REGULAR \<or> so_accountType ob = ACC_TYPE_OF_CONTRACT then
        (case Balance ob of
           None \<Rightarrow> Inl PanicNilPointer
         | Some prev \<Rightarrow>
             Inr (put_object addr (setBalance (Some amount) ob) (journal_append (balanceChange addr prev) s)))
      else Inr s)"

definition obj_AddBalance :: "address \<Rightarrow> stateObject \<Rightarrow> int \<Rightarrow> StateDB \<Rightarrow> panic + StateDB" where
  "obj_AddBalance addr ob amount s =
     (if amount = 0 then Inr s
      else case Balance ob of
             None \<Rightarrow> Inl PanicNilPointer
           | Some b \<Rightarrow> obj_SetBalance addr ob (b + amount) s)"

definition obj_SubBalance :: "address \<Rightarrow> stateObject \<Rightarrow> int \<Rightarrow> StateDB \<Rightarrow> panic + StateDB" where
  "obj_SubBalance addr ob amount s =
     (if amount = 0 then Inr s
      else case Balance ob of
             None \<Rightarrow> Inl PanicNilPointer
           | Some b \<Rightarrow> obj_SetBalance addr ob (b - amount) s)"

definition on_object ::
  "(address \<Rightarrow> stateObject \<Rightarrow> StateDB \<Rightarrow> panic + StateDB) \<Rightarrow> address \<Rightarrow> StateDB \<Rightarrow> panic + StateDB" where
  "on_object f addr s =
     (let r = GetOrNewStateObject addr s
      in case fst r of None \<Rightarrow> Inr (snd r) | Some ob \<Rightarrow> f addr ob (snd r))"

definition AddBalance :: "address \<Rightarrow> int \<Rightarrow> StateDB \<Rightarrow> panic + StateDB" where
  "AddBalance addr amount = on_object (\<lambda>a ob. obj_AddBalance a ob amount) addr"

definition SubBalance :: "address \<Rightarrow> int \<Rightarrow> StateDB \<Rightarrow> panic + StateDB" where
  "SubBalance addr amount = on_object (\<lambda>a ob. obj_SubBalance a ob amount) addr"

definition SetBalance :: "address \<Rightarrow> int \<Rightarrow> StateDB \<Rightarrow> panic + StateDB" where
  "SetBalance addr amount = on_object (\<lambda>a ob. obj_SetBalance a ob amount) addr"

definition SetNonce :: "address \<Rightarrow> u64 \<Rightarrow> StateDB \<Rightarrow> panic + StateDB" where
  "SetNonce addr nonce = on_object (\<lambda>a ob s.
     if so_accountType ob = ACC_TYPE_OF_REGULAR \<or> so_accountType ob = ACC_TYPE_OF_CONTRACT
     then Inr (put_object a (setNonce nonce ob) (journal_append (nonceChange a (Nonce ob)) s))
     else Inr s) addr"

text \<open>\<open>codeHash\<close> is \<open>crypto.Keccak256Hash(code)\<close>, computed by the caller's hash function.\<close>

definition SetCode :: "(bytes \<Rightarrow> hash) \<Rightarrow> address \<Rightarrow> bytes \<Rightarrow> StateDB \<Rightarrow> panic + StateDB" where
  "SetCode keccak addr code = on_object (\<lambda>a ob s.
     Inr (put_object a (setCode (keccak code) (Some code) ob)
            (journal_append (codeChange a (Code (sd_db s) ob) (CodeHash ob)) s))) addr"

definition SetState :: "address \<Rightarrow> hash \<Rightarrow> hash \<Rightarrow> StateDB \<Rightarrow> panic + StateDB" where
  "SetState addr key value = on_object (\<lambda>a ob s.
     case so_fakeStorage ob of
       Some f \<Rightarrow> Inr (put_object a (ob\<lparr>so_fakeStorage := Some (f(key \<mapsto> value))\<rparr>) s)
     | None \<Rightarrow>
         (let prev = obj_GetState (sd_db s) ob key
          in if prev = value then Inr s
             else Inr (put_object a (setState key value ob)
                         (journal_append (storageChange a key prev) s)))) addr"

definition SetStorage :: "address \<Rightarrow> (hash \<rightharpoonup> hash) \<Rightarrow> StateDB \<Rightarrow> panic + StateDB" where
  "SetStorage addr storage = on_object (\<lambda>a ob s. Inr (put_object a (obj_SetStorage storage ob) s)) addr"

text \<open>The journal entry of \<open>Suicide\<close>, by account type; types 6 and 7 have none.\<close>

definition suicide_entry :: "address \<Rightarrow> stateObject \<Rightarrow> panic + journalEntry option" where
  "suicide_entry addr ob =
     (if so_accountType ob = ACC_TYPE_OF_REGULAR then
        (case (ra_VoteValue (so_regularAccount ob), ra_Value (so_regularAccount ob)) of
           (Some vv, Some v) \<Rightarrow>
             Inr (Some (regularSuicideChange addr (so_suicided ob) (so_accountType ob)
                          (ra_VoteAccount (so_regularAccount ob)) vv
                          (ra_LossType (so_regularAccount ob)) v))
         | _ \<Rightarrow> Inl PanicNilPointer)
      else if so_accountType ob = ACC_TYPE_OF_PNS then
        Inr (Some (pnsSuicideChange addr (so_suicided ob) (so_accountType ob)
                     (pa_Type (so_pnsAccount ob)) (pa_Owner (so_pnsAccount ob)) (pa_Data (so_pnsAccount ob))))
      else if so_accountType ob = ACC_TYPE_OF_CONTRACT then
        (case (ca_VoteValue (so_assetAccount ob), ca_Value (so_assetAccount ob)) of
           (Some vv, Some v) \<Rightarrow>
             Inr (Some (assetSuicideChange addr (so_suicided ob) (so_accountType ob)
                          (ca_VoteAccount (so_assetAccount ob)) vv v))
         | _ \<Rightarrow> Inl PanicNilPointer)
      else if so_accountType ob = ACC_TYPE_OF_AUTHORIZE then
        (case (aa_PledgeValue (so_authorizeAccount ob), aa_VoteValue (so_authorizeAccount ob),
               aa_ValidPeriod (so_authorizeAccount ob)) of
           (Some pv, Some vv, Some p) \<Rightarrow>
             Inr (Some (authorizeSuicideChange addr (so_suicided ob) (so_accountType ob)
                          (aa_Owner (so_authorizeAccount ob)) pv vv (aa_Info (so_authorizeAccount ob)) p))
         | _ \<Rightarrow> Inl PanicNilPointer)
      else if so_accountType ob = ACC_TYPE_OF_LOSS then
        (case la_Height (so_lossAccount ob) of
           Some h \<Rightarrow>
             Inr (Some (lossSuicideChange addr (so_suicided ob) (so_accountType ob)
                          (la_State (so_lossAccount ob)) (la_LostAccount (so_lossAccount ob))
                          (la_NewAccount (so_lossAccount ob)) h (la_InfoDigest (so_lossAccount ob))))
         | None \<Rightarrow> Inl PanicNilPointer)
      else Inr None)"

definition Suicide :: "address \<Rightarrow> StateDB \<Rightarrow> panic + bool \<times> StateDB" where
  "Suicide addr s =
     (case getStateObject s addr of
        None \<Rightarrow> Inr (False, s)
      | Some ob \<Rightarrow>
          bindE (suicide_entry addr ob) (\<lambda>e.
            Inr (True, put_object addr (markSuicided ob)
                         (case e of Some e \<Rightarrow> journal_append e s | None \<Rightarrow> s))))"

definition AddRefund :: "u64 \<Rightarrow> StateDB \<Rightarrow> StateDB" where
  "AddRefund gas s = (journal_append (refundChange (sd_refund s)) s)\<lparr>sd_refund := sd_refund s + gas\<rparr>"

definition SubRefund :: "u64 \<Rightarrow> StateDB \<Rightarrow> panic + StateDB" where
  "SubRefund gas s =
     (if gas > sd_refund s then Inl PanicExplicit
      else Inr ((journal_append (refundChange (sd_refund s)) s)\<lparr>sd_refund := sd_refund s - gas\<rparr>))"

definition AddLog :: "Log \<Rightarrow> StateDB \<Rightarrow> StateDB" where
  "AddLog log s =
     (let s1 = journal_append (addLogChange (sd_thash s)) s;
          log = log\<lparr>lg_TxHash := sd_thash s, lg_TxIndex := sd_txIndex s, lg_Index := sd_logSize s\<rparr>;
          logs = (case sd_logs s (sd_thash s) of None \<Rightarrow> [] | Some l \<Rightarrow> l)
      in s1\<lparr>sd_logs := (sd_logs s)(sd_thash s \<mapsto> logs @ [log]), sd_logSize := sd_logSize s + 1\<rparr>)"

definition AddPreimage :: "hash \<Rightarrow> bytes \<Rightarrow> StateDB \<Rightarrow> StateDB" where
  "AddPreimage h preimage s =
     (if sd_preimages s h \<noteq> None then s
      else (journal_append (addPreimageChange h) s)\<lparr>sd_preimages := (sd_preimages s)(h \<mapsto> preimage)\<rparr>)"

definition AddAddressToAccessList :: "address \<Rightarrow> StateDB \<Rightarrow> StateDB" where
  "AddAddressToAccessList addr s =
     (let r = AddAddress (sd_accessList s) addr;
          s1 = s\<lparr>sd_accessList := fst r\<rparr>
      in if snd r then journal_append (accessListAddAccountChange addr) s1 else s1)"

definition AddSlotToAccessList :: "address \<Rightarrow> hash \<Rightarrow> StateDB \<Rightarrow> panic + StateDB" where
  "AddSlotToAccessList addr slot s =
     bindE (AddSlot (sd_accessList s) addr slot) (\<lambda>(al, addrMod, slotMod).
       let s1 = s\<lparr>sd_accessList := al\<rparr>;
           s2 = (if addrMod then journal_append (accessListAddAccountChange addr) s1 else s1);
           s3 = (if slotMod then journal_append (accessListAddSlotChange addr slot) s2 else s2)
       in Inr s3)"

definition PrepareAccessList ::
  "address \<Rightarrow> address option \<Rightarrow> address list \<Rightarrow> (address \<times> hash list) list \<Rightarrow> StateDB \<Rightarrow> panic + StateDB" where
  "PrepareAccessList sender dst precompiles list s =
     (let s = AddAddressToAccessList sender s;
          s = (case dst of None \<Rightarrow> s | Some d \<Rightarrow> AddAddressToAccessList d s);
          s = fold AddAddressToAccessList precompiles s
      in foldE (\<lambda>el s. foldE (AddSlotToAccessList (fst el)) (snd el) (AddAddressToAccessList (fst el) s)) list s)"

definition StateDB_Prepare :: "hash \<Rightarrow> int \<Rightarrow> StateDB \<Rightarrow> StateDB" where
  "StateDB_Prepare thash ti s = s\<lparr>sd_thash := thash, sd_txIndex := ti, sd_accessList := newAccessList\<rparr>"

section \<open>Reverting\<close>

definition modify_object :: "address \<Rightarrow> (stateObject \<Rightarrow> stateObject) \<Rightarrow> StateDB \<Rightarrow> panic + StateDB" where
  "modify_object addr f s =
     (case getStateObject s addr of
        None \<Rightarrow> Inl PanicNilPointer
      | Some ob \<Rightarrow> Inr (put_object addr (f ob) s))"

definition modify_if_present :: "address \<Rightarrow> (stateObject \<Rightarrow> stateObject) \<Rightarrow> StateDB \<Rightarrow> panic + StateDB" where
  "modify_if_present addr f s =
     (case getStateObject s addr of
        None \<Rightarrow> Inr s
      | Some ob \<Rightarrow> Inr (put_object addr (f ob) s))"

text \<open>
  Several \<open>revert\<close> methods copy the account structure into a local variable and assign to the copy
  (\<open>x := obj.regularAccount; x.Field = ...\<close>): nothing of the state changes, the only effect is the
  dereference of the object.
\<close>

definition touch_copy :: "address \<Rightarrow> StateDB \<Rightarrow> panic + StateDB" where
  "touch_copy addr s = (if getStateObject s addr = None then Inl PanicNilPointer else Inr s)"

fun revert_entry :: "journalEntry \<Rightarrow> StateDB \<Rightarrow> panic + StateDB" where
  "revert_entry (createObjectChange a) s =
     Inr (s\<lparr>sd_stateObjects := (sd_stateObjects s)(a := None),
            sd_stateObjectsDirty := sd_stateObjectsDirty s - {a}\<rparr>)"
| "revert_entry (resetObjectChange prev) s = Inr (setStateObject prev s)"
| "revert_entry (regularSuicideChange a suicide accType voteAccount voteValue lossType v) s =
     modify_if_present a (\<lambda>ob. ob\<lparr>so_suicided := suicide,
       so_regularAccount := (so_regularAccount ob)\<lparr>ra_AccType := accType, ra_VoteAccount := voteAccount,
         ra_VoteValue := Some voteValue, ra_LossType := lossType, ra_Value := Some v\<rparr>\<rparr>) s"
| "revert_entry (pnsSuicideChange a suicide accType pnsType owner data) s =
     modify_if_present a (\<lambda>ob. ob\<lparr>so_suicided := suicide,
       so_pnsAccount := (so_pnsAccount ob)\<lparr>pa_AccType := accType, pa_Type := pnsType,
         pa_Owner := owner, pa_Data := data\<rparr>\<rparr>) s"
| "revert_entry (assetSuicideChange a suicide accType voteAccount voteValue v) s =
     modify_if_present a (\<lambda>ob. ob\<lparr>so_suicided := suicide,
       so_assetAccount := (so_assetAccount ob)\<lparr>ca_AccType := accType, ca_VoteAccount := voteAccount,
         ca_VoteValue := Some voteValue, ca_Value := Some v\<rparr>\<rparr>) s"
| "revert_entry (authorizeSuicideChange a suicide accType owner pledgeValue voteValue info validPeriod) s =
     modify_if_present a (\<lambda>ob. ob\<lparr>so_suicided := suicide,
       so_authorizeAccount := (so_authorizeAccount ob)\<lparr>aa_AccType := accType, aa_Owner := owner,
         aa_PledgeValue := Some pledgeValue, aa_VoteValue := Some voteValue, aa_Info := info,
         aa_ValidPeriod := Some validPeriod\<rparr>\<rparr>) s"
| "revert_entry (lossSuicideChange a suicide accType st lostAccount newAccount height infoDigest) s =
     modify_if_present a (\<lambda>ob. ob\<lparr>so_suicided := suicide,
       so_lossAccount := (so_lossAccount ob)\<lparr>la_AccType := accType, la_State := st,
         la_LostAccount := lostAccount, la_NewAccount := newAccount, la_Height := Some height,
         la_InfoDigest := infoDigest\<rparr>\<rparr>) s"
| "revert_entry (balanceChange a prev) s = modify_object a (setBalance (Some prev)) s"
| "revert_entry (nonceChange a prev) s = modify_object a (setNonce prev) s"
| "revert_entry (storageChange a key prevalue) s = modify_object a (setState key prevalue) s"
| "revert_entry (codeChange a prevcode prevhash) s =
     modify_object a (setCode (BytesToHash_nil prevhash) prevcode) s"
| "revert_entry (refundChange prev) s = Inr (s\<lparr>sd_refund := prev\<rparr>)"
| "revert_entry (addLogChange txhash) s =
     (let logs = (case sd_logs s txhash of None \<Rightarrow> [] | Some l \<Rightarrow> l)
      in if length logs = 1
         then Inr (s\<lparr>sd_logs := (sd_logs s)(txhash := None), sd_logSize := sd_logSize s - 1\<rparr>)
         else if logs = [] then Inl PanicIndex
         else Inr (s\<lparr>sd_logs := (sd_logs s)(txhash \<mapsto> butlast logs), sd_logSize := sd_logSize s - 1\<rparr>))"
| "revert_entry (addPreimageChange h) s = Inr (s\<lparr>sd_preimages := (sd_preimages s)(h := None)\<rparr>)"
| "revert_entry (touchChange a) s = Inr s"
| "revert_entry (accessListAddAccountChange a) s =
     Inr (s\<lparr>sd_accessList := DeleteAddress (sd_accessList s) a\<rparr>)"
| "revert_entry (accessListAddSlotChange a slot) s =
     bindE (DeleteSlot (sd_accessList s) a slot) (\<lambda>al. Inr (s\<lparr>sd_accessList := al\<rparr>))"
| "revert_entry (voteForRegularChange a _ _) s = touch_copy a s"
| "revert_entry (voteValueForAuthorizeChange a prev) s =
     modify_object a (\<lambda>ob. ob\<lparr>so_authorizeAccount := (so_authorizeAccount ob)\<lparr>aa_VoteValue := Some prev\<rparr>\<rparr>) s"
| "revert_entry (lossMarkAccountChange a prev) s =
     modify_object a (\<lambda>ob. ob\<lparr>so_lossMarkAccount := (so_lossMarkAccount ob)\<lparr>lm_LossMark := prev\<rparr>\<rparr>) s"
| "revert_entry (sendLossReportChange a _ _ _ _) s = touch_copy a s"
| "revert_entry (lossTypeChange a _) s = touch_copy a s"
| "revert_entry (lossStateChange a _) s = touch_copy a s"
| "revert_entry (lostAccountVoteChange a _ _) s = touch_copy a s"
| "revert_entry (revealLossReportChange a _ _ _ _) s = touch_copy a s"
| "revert_entry (redemptionForRegularChange a _ _ _) s = touch_copy a s"
| "revert_entry (modifyAuthorizeOwnerChange a _) s = touch_copy a s"
| "revert_entry (modifyPnsOwnerChange a _) s = touch_copy a s"
| "revert_entry (modifyPnsContentChange a _ _) s = touch_copy a s"
| "revert_entry (redemptionForAuthorizeChange a _ _) s = touch_copy a s"
| "revert_entry (dPosCandidateForAuthorizeChange a _ _) s = touch_copy a s"
| "revert_entry (dPosCandidateChange a _ _) s = touch_copy a s"

definition undirty :: "journalEntry \<Rightarrow> StateDB \<Rightarrow> StateDB" where
  "undirty e s =
     (case dirtied e of
        None \<Rightarrow> s
      | Some a \<Rightarrow>
          let n = (case sd_dirties s a of None \<Rightarrow> 0 | Some n \<Rightarrow> n) - 1
          in s\<lparr>sd_dirties := (if n = 0 then (sd_dirties s)(a := None) else (sd_dirties s)(a \<mapsto> n))\<rparr>)"

text \<open>The loop of \<open>journal.revert\<close> over the entries to undo, newest first.\<close>

definition undo :: "journalEntry list \<Rightarrow> StateDB \<Rightarrow> panic + StateDB" where
  "undo es s = foldE (\<lambda>e s. bindE (revert_entry e s) (\<lambda>s. Inr (undirty e s))) (rev es) s"

definition journal_revert :: "nat \<Rightarrow> StateDB \<Rightarrow> panic + StateDB" where
  "journal_revert snapshot s =
     bindE (undo (drop snapshot (sd_entries s)) s) (\<lambda>s. Inr (s\<lparr>sd_entries := take snapshot (sd_entries s)\<rparr>))"

definition Snapshot :: "StateDB \<Rightarrow> int \<times> StateDB" where
  "Snapshot s =
     (let id = sd_nextRevisionId s
      in (id, s\<lparr>sd_nextRevisionId := id + 1,
                sd_validRevisions := sd_validRevisions s @ [(id, length (sd_entries s))]\<rparr>))"

text \<open>
  \<open>sort.Search\<close> gives the first revision whose id is at least the one asked for (the ids increase).
\<close>

definition RevertToSnapshot :: "int \<Rightarrow> StateDB \<Rightarrow> panic + StateDB" where
  "RevertToSnapshot revid s =
     (let older = takeWhile (\<lambda>r. fst r < revid) (sd_validRevisions s);
          idx = length older
      in if idx = length (sd_validRevisions s) \<or> fst (sd_validRevisions s ! idx) \<noteq> revid
         then Inl PanicExplicit
         else bindE (journal_revert (snd (sd_validRevisions s ! idx)) s)
                (\<lambda>s'. Inr (s'\<lparr>sd_validRevisions := take idx (sd_validRevisions s')\<rparr>)))"

definition clearJournalAndRefund :: "StateDB \<Rightarrow> StateDB" where
  "clearJournalAndRefund s =
     (if sd_entries s \<noteq> [] then s\<lparr>sd_entries := [], sd_dirties := Map.empty, sd_refund := 0, sd_validRevisions := []\<rparr>
      else s\<lparr>sd_validRevisions := []\<rparr>)"

definition Finalise :: "StateDB \<Rightarrow> StateDB" where
  "Finalise s =
     (let dirty = {a. sd_dirties s a \<noteq> None \<and> sd_stateObjects s a \<noteq> None};
          objs = (\<lambda>a. if a \<in> dirty
                      then map_option (\<lambda>ob. if so_suicided ob then ob\<lparr>so_deleted := True\<rparr> else finalise ob)
                             (sd_stateObjects s a)
                      else sd_stateObjects s a)
      in clearJournalAndRefund
           (s\<lparr>sd_stateObjects := objs,
              sd_stateObjectsPending := sd_stateObjectsPending s \<union> dirty,
              sd_stateObjectsDirty := sd_stateObjectsDirty s \<union> dirty\<rparr>))"

end
