(* ===== verification/StateRevert.thy ===== *)
theory StateRevert
  imports StateDB
begin

text \<open>
  \<open>RevertToSnapshot\<close> undoes: observational equality of states, the laws of \<open>undo\<close>, one lemma per
  journalled setter that its journal entries undo it, and the step relation \<open>evolve\<close> of a
  transaction (setters, nested snapshots, nested reverts) with its invariant.
\<close>

section \<open>Observational equality\<close>

text \<open>
  What an object shows: its accounts and flags, the code and the storage as the getters read them.
  Whether a slot is dirty or the code is cached does not show, and neither does \<open>dirtyCode\<close>, which
  only decides whether the code is written again.
\<close>

definition norm_obj :: "Database \<Rightarrow> stateObject \<Rightarrow> stateObject" where
  "norm_obj db ob = ob
     \<lparr>so_assetAccount := (so_assetAccount ob)\<lparr>ca_CodeHash := Some (BytesToHash_nil (CodeHash ob))\<rparr>,
      so_code := Code db ob,
      so_originStorage := Map.empty,
      so_pendingStorage := (\<lambda>k. Some (obj_GetCommittedState db ob k)),
      so_dirtyStorage := (\<lambda>k. Some (obj_GetState db ob k)),
      so_dirtyCode := False\<rparr>"

definition view :: "StateDB \<Rightarrow> address \<Rightarrow> stateObject option" where
  "view s a = map_option (norm_obj (sd_db s)) (getDeletedStateObject s a)"

definition eqv :: "StateDB \<Rightarrow> StateDB \<Rightarrow> bool" where
  "eqv s t \<longleftrightarrow> sd_db s = sd_db t \<and> view s = view t \<and>
     sd_stateObjectsPending s = sd_stateObjectsPending t \<and>
     sd_stateObjectsDirty s = sd_stateObjectsDirty t \<and>
     sd_refund s = sd_refund t \<and> sd_thash s = sd_thash t \<and> sd_txIndex s = sd_txIndex t \<and>
     sd_logs s = sd_logs t \<and> sd_logSize s = sd_logSize t \<and> sd_preimages s = sd_preimages t \<and>
     sd_accessList s = sd_accessList t \<and> sd_dirties s = sd_dirties t"

lemma eqv_refl [simp]: "eqv s s"
  and eqv_sym: "eqv s t \<Longrightarrow> eqv t s"
  and eqv_trans [trans]: "eqv s t \<Longrightarrow> eqv t u \<Longrightarrow> eqv s u"
  by (auto simp: eqv_def)

lemma view_get:
  "view s a = view t a \<Longrightarrow> sd_db s = sd_db t \<Longrightarrow>
     rel_option (\<lambda>x y. norm_obj (sd_db s) x = norm_obj (sd_db s) y)
       (getDeletedStateObject s a) (getDeletedStateObject t a)"
  by (auto simp: view_def map_option_case split: option.splits)

lemma norm_obj_deleted: "norm_obj db x = norm_obj db y \<Longrightarrow> so_deleted x = so_deleted y"
  by (drule arg_cong [where f = so_deleted]) (simp add: norm_obj_def)

lemma eqv_getStateObject:
  assumes "eqv s t"
  shows "rel_option (\<lambda>x y. norm_obj (sd_db s) x = norm_obj (sd_db s) y)
           (getStateObject s a) (getStateObject t a)"
proof -
  have "rel_option (\<lambda>x y. norm_obj (sd_db s) x = norm_obj (sd_db s) y)
          (getDeletedStateObject s a) (getDeletedStateObject t a)"
    using assms by (intro view_get) (auto simp: eqv_def)
  then show ?thesis
    by (cases "getDeletedStateObject s a"; cases "getDeletedStateObject t a")
      (auto simp: getStateObject_def dest: norm_obj_deleted)
qed

lemma norm_obj_fields:
  assumes "norm_obj db x = norm_obj db y"
  shows "so_address x = so_address y" "so_accountType x = so_accountType y"
    "so_regularAccount x = so_regularAccount y" "so_suicided x = so_suicided y"
    "so_fakeStorage x = so_fakeStorage y"
    "(so_assetAccount x)\<lparr>ca_CodeHash := None\<rparr> = (so_assetAccount y)\<lparr>ca_CodeHash := None\<rparr>"
    "BytesToHash_nil (CodeHash x) = BytesToHash_nil (CodeHash y)"
    "Code db x = Code db y"
    "obj_GetState db x = obj_GetState db y"
    "obj_GetCommittedState db x = obj_GetCommittedState db y"
proof -
  note f = arg_cong [OF assms]
  show "so_address x = so_address y" using f [of so_address] by (simp add: norm_obj_def)
  show "so_accountType x = so_accountType y" using f [of so_accountType] by (simp add: norm_obj_def)
  show "so_regularAccount x = so_regularAccount y" using f [of so_regularAccount] by (simp add: norm_obj_def)
  show "so_suicided x = so_suicided y" using f [of so_suicided] by (simp add: norm_obj_def)
  show "so_fakeStorage x = so_fakeStorage y" using f [of so_fakeStorage] by (simp add: norm_obj_def)
  show "(so_assetAccount x)\<lparr>ca_CodeHash := None\<rparr> = (so_assetAccount y)\<lparr>ca_CodeHash := None\<rparr>"
    using f [of "\<lambda>z. (so_assetAccount z)\<lparr>ca_CodeHash := None\<rparr>"] by (simp add: norm_obj_def)
  show "BytesToHash_nil (CodeHash x) = BytesToHash_nil (CodeHash y)"
    using f [of "\<lambda>z. ca_CodeHash (so_assetAccount z)"] by (simp add: norm_obj_def)
  show "Code db x = Code db y" using f [of so_code] by (simp add: norm_obj_def)
  show "obj_GetState db x = obj_GetState db y"
    using f [of so_dirtyStorage] by (simp add: norm_obj_def fun_eq_iff)
  show "obj_GetCommittedState db x = obj_GetCommittedState db y"
    using f [of so_pendingStorage] by (simp add: norm_obj_def fun_eq_iff)
qed

lemma norm_obj_Balance: "norm_obj db x = norm_obj db y \<Longrightarrow> Balance x = Balance y"
  using norm_obj_fields(2,3) [of db x y] arg_cong [OF norm_obj_fields(6) [of db x y], of ca_Value]
  by (simp add: Balance_def)

lemma norm_obj_Nonce: "norm_obj db x = norm_obj db y \<Longrightarrow> Nonce x = Nonce y"
  using norm_obj_fields(2,3) [of db x y] arg_cong [OF norm_obj_fields(6) [of db x y], of ca_Nonce]
  by (simp add: Nonce_def)

text \<open>Every getter agrees on observationally equal states.\<close>

lemma eqv_getters:
  assumes "eqv s t"
  shows "GetBalance s a = GetBalance t a" "GetNonce s a = GetNonce t a"
    "GetCode s a = GetCode t a" "GetCodeHash s a = GetCodeHash t a"
    "GetState s a k = GetState t a k" "GetCommittedState s a k = GetCommittedState t a k"
    "Exist s a = Exist t a" "HasSuicided s a = HasSuicided t a"
proof -
  have db: "sd_db t = sd_db s" using assms by (simp add: eqv_def)
  note r = eqv_getStateObject [OF assms, of a]
  show "GetBalance s a = GetBalance t a"
    using r by (cases "getStateObject s a"; cases "getStateObject t a")
      (auto simp: GetBalance_def dest: norm_obj_Balance)
  show "GetNonce s a = GetNonce t a"
    using r by (cases "getStateObject s a"; cases "getStateObject t a")
      (auto simp: GetNonce_def dest: norm_obj_Nonce)
  show "GetCode s a = GetCode t a"
    using r by (cases "getStateObject s a"; cases "getStateObject t a")
      (auto simp: GetCode_def db dest: norm_obj_fields(8))
  show "GetCodeHash s a = GetCodeHash t a"
    using r by (cases "getStateObject s a"; cases "getStateObject t a")
      (auto simp: GetCodeHash_def dest: norm_obj_fields(7))
  show "GetState s a k = GetState t a k"
    using r by (cases "getStateObject s a"; cases "getStateObject t a")
      (auto simp: GetState_def db dest: norm_obj_fields(9))
  show "GetCommittedState s a k = GetCommittedState t a k"
    using r by (cases "getStateObject s a"; cases "getStateObject t a")
      (auto simp: GetCommittedState_def db dest: norm_obj_fields(10))
  show "Exist s a = Exist t a"
    using r by (cases "getStateObject s a"; cases "getStateObject t a") (auto simp: Exist_def)
  show "HasSuicided s a = HasSuicided t a"
    using r by (cases "getStateObject s a"; cases "getStateObject t a")
      (auto simp: HasSuicided_def dest: norm_obj_fields(4))
qed

section \<open>Undoing respects observational equality\<close>

text \<open>A change of an object that only looks at what the object shows.\<close>

definition norm_compat :: "Database \<Rightarrow> (stateObject \<Rightarrow> stateObject) \<Rightarrow> bool" where
  "norm_compat db f \<longleftrightarrow> (\<forall>x y. norm_obj db x = norm_obj db y \<longrightarrow> norm_obj db (f x) = norm_obj db (f y))"

lemma norm_compatI:
  assumes "\<And>x. norm_obj db (f x) = g (norm_obj db x)"
  shows "norm_compat db f"
  by (simp add: norm_compat_def assms)

lemmas norm_compat_hom = norm_compatI [where f = f and g = f for f]

lemma put_object_view:
  "view (put_object a ob s) = (view s)(a \<mapsto> norm_obj (sd_db s) ob)"
  by (rule ext) (simp add: view_def put_object_def getDeletedStateObject_def cong: option.case_cong)

lemma put_object_fields [simp]:
  "sd_db (put_object a ob s) = sd_db s"
  "sd_stateObjectsPending (put_object a ob s) = sd_stateObjectsPending s"
  "sd_stateObjectsDirty (put_object a ob s) = sd_stateObjectsDirty s"
  "sd_refund (put_object a ob s) = sd_refund s" "sd_thash (put_object a ob s) = sd_thash s"
  "sd_txIndex (put_object a ob s) = sd_txIndex s" "sd_logs (put_object a ob s) = sd_logs s"
  "sd_logSize (put_object a ob s) = sd_logSize s" "sd_preimages (put_object a ob s) = sd_preimages s"
  "sd_accessList (put_object a ob s) = sd_accessList s" "sd_dirties (put_object a ob s) = sd_dirties s"
  "sd_entries (put_object a ob s) = sd_entries s"
  "sd_validRevisions (put_object a ob s) = sd_validRevisions s"
  "sd_nextRevisionId (put_object a ob s) = sd_nextRevisionId s"
  by (simp_all add: put_object_def)

lemma put_object_eqv:
  assumes "eqv s t" and "norm_obj (sd_db s) x = norm_obj (sd_db s) y"
  shows "eqv (put_object a x s) (put_object a y t)"
  using assms by (simp add: eqv_def put_object_view)

lemma modify_object_eqv:
  assumes "eqv s t" and "norm_compat (sd_db s) f"
  shows "rel_sum (=) eqv (modify_object a f s) (modify_object a f t)"
    and "rel_sum (=) eqv (modify_if_present a f s) (modify_if_present a f t)"
    and "rel_sum (=) eqv (touch_copy a s) (touch_copy a t)"
proof -
  have r: "rel_option (\<lambda>x y. norm_obj (sd_db s) x = norm_obj (sd_db s) y)
      (getStateObject s a) (getStateObject t a)"
    by (rule eqv_getStateObject [OF assms(1)])
  have put: "eqv (put_object a (f x) s) (put_object a (f y) t)"
    if "norm_obj (sd_db s) x = norm_obj (sd_db s) y" for x y
    by (rule put_object_eqv [OF assms(1)]) (use assms(2) that in \<open>unfold norm_compat_def, blast\<close>)
  show "rel_sum (=) eqv (modify_object a f s) (modify_object a f t)"
    using r by (cases "getStateObject s a"; cases "getStateObject t a")
      (simp_all add: modify_object_def put)
  show "rel_sum (=) eqv (modify_if_present a f s) (modify_if_present a f t)"
    using r assms(1) by (cases "getStateObject s a"; cases "getStateObject t a")
      (simp_all add: modify_if_present_def put)
  show "rel_sum (=) eqv (touch_copy a s) (touch_copy a t)"
    using r assms(1) by (cases "getStateObject s a"; cases "getStateObject t a")
      (simp_all add: touch_copy_def)
qed

lemma norm_storage_update:
  "obj_GetState db (so_regularAccount_update f ob) = obj_GetState db ob"
  "obj_GetState db (so_pnsAccount_update f2 ob) = obj_GetState db ob"
  "obj_GetState db (so_authorizeAccount_update f3 ob) = obj_GetState db ob"
  "obj_GetState db (so_lossAccount_update f4 ob) = obj_GetState db ob"
  "obj_GetState db (so_lossMarkAccount_update f5 ob) = obj_GetState db ob"
  "obj_GetState db (so_suicided_update f6 ob) = obj_GetState db ob"
  "obj_GetCommittedState db (so_regularAccount_update f ob) = obj_GetCommittedState db ob"
  "obj_GetCommittedState db (so_pnsAccount_update f2 ob) = obj_GetCommittedState db ob"
  "obj_GetCommittedState db (so_authorizeAccount_update f3 ob) = obj_GetCommittedState db ob"
  "obj_GetCommittedState db (so_lossAccount_update f4 ob) = obj_GetCommittedState db ob"
  "obj_GetCommittedState db (so_lossMarkAccount_update f5 ob) = obj_GetCommittedState db ob"
  "obj_GetCommittedState db (so_suicided_update f6 ob) = obj_GetCommittedState db ob"
  "Code db (so_regularAccount_update f ob) = Code db ob"
  "Code db (so_pnsAccount_update f2 ob) = Code db ob"
  "Code db (so_authorizeAccount_update f3 ob) = Code db ob"
  "Code db (so_lossAccount_update f4 ob) = Code db ob"
  "Code db (so_lossMarkAccount_update f5 ob) = Code db ob"
  "Code db (so_suicided_update f6 ob) = Code db ob"
  by (auto simp: obj_GetState_def obj_GetCommittedState_def fun_eq_iff Code_def CodeHash_def
      cong: option.case_cong if_cong)

lemma asset_same_storage:
  assumes "ca_StorageRoot (f (so_assetAccount ob)) = ca_StorageRoot (so_assetAccount ob)"
  shows "obj_GetState db (so_assetAccount_update f ob) = obj_GetState db ob"
    and "obj_GetCommittedState db (so_assetAccount_update f ob) = obj_GetCommittedState db ob"
  using assms by (auto simp: obj_GetState_def obj_GetCommittedState_def fun_eq_iff
      cong: option.case_cong)

lemma asset_same_code:
  assumes "ca_CodeHash (f (so_assetAccount ob)) = ca_CodeHash (so_assetAccount ob)"
  shows "Code db (so_assetAccount_update f ob) = Code db ob"
  using assms by (simp add: Code_def CodeHash_def cong: option.case_cong)

lemmas norm_updates = norm_storage_update asset_same_storage asset_same_code CodeHash_def

lemma norm_setBalance: "norm_obj db (setBalance v ob) = setBalance v (norm_obj db ob)"
  by (simp add: norm_obj_def setBalance_def norm_updates)

lemma norm_setNonce: "norm_obj db (setNonce v ob) = setNonce v (norm_obj db ob)"
  by (simp add: norm_obj_def setNonce_def norm_updates)

lemma norm_setState:
  "norm_obj db (setState k v ob) =
     (if so_fakeStorage (norm_obj db ob) = None
      then (norm_obj db ob)\<lparr>so_dirtyStorage := (so_dirtyStorage (norm_obj db ob))(k \<mapsto> v)\<rparr>
      else norm_obj db ob)"
  by (auto simp: norm_obj_def setState_def obj_GetState_def obj_GetCommittedState_def Code_def CodeHash_def
      fun_eq_iff cong: option.case_cong if_cong split: option.splits)

lemma norm_setCode:
  "norm_obj db (setCode h c ob) =
     (norm_obj db ob)\<lparr>so_code := (case c of Some c \<Rightarrow> Some c
                                | None \<Rightarrow> if h = db_emptyCodeHash db then None else db_code db h),
       so_assetAccount := (so_assetAccount (norm_obj db ob))\<lparr>ca_CodeHash := Some h\<rparr>\<rparr>"
  by (auto simp: norm_obj_def setCode_def obj_GetState_def obj_GetCommittedState_def Code_def CodeHash_def
      BytesToHash_nil_def fun_eq_iff cong: option.case_cong if_cong split: option.splits)

lemma norm_compat_revert:
  "norm_compat db (setBalance v)"
  "norm_compat db (setNonce n)"
  "norm_compat db (setState k w)"
  "norm_compat db (setCode h c)"
  "norm_compat db (\<lambda>ob. ob\<lparr>so_authorizeAccount := f1 (so_authorizeAccount ob)\<rparr>)"
  "norm_compat db (\<lambda>ob. ob\<lparr>so_lossMarkAccount := f2 (so_lossMarkAccount ob)\<rparr>)"
  "norm_compat db (\<lambda>ob. ob\<lparr>so_suicided := b, so_regularAccount := f3 (so_regularAccount ob)\<rparr>)"
  "norm_compat db (\<lambda>ob. ob\<lparr>so_suicided := b, so_pnsAccount := f4 (so_pnsAccount ob)\<rparr>)"
  "norm_compat db (\<lambda>ob. ob\<lparr>so_suicided := b, so_authorizeAccount := f1 (so_authorizeAccount ob)\<rparr>)"
  "norm_compat db (\<lambda>ob. ob\<lparr>so_suicided := b, so_lossAccount := f5 (so_lossAccount ob)\<rparr>)"
  "norm_compat db (\<lambda>ob. ob\<lparr>so_suicided := b, so_assetAccount := (so_assetAccount ob)
     \<lparr>ca_AccType := t, ca_VoteAccount := va, ca_VoteValue := vv, ca_Value := v\<rparr>\<rparr>)"
  by (rule norm_compatI, rule norm_setBalance norm_setNonce norm_setState norm_setCode)+
    (rule norm_compat_hom, simp add: norm_obj_def norm_updates)+

lemma eqv_no_live:
  assumes "eqv s t"
  shows "eqv (s\<lparr>sd_stateObjects := (sd_stateObjects s)(a := None), sd_stateObjectsDirty := sd_stateObjectsDirty s - {a}\<rparr>)
             (t\<lparr>sd_stateObjects := (sd_stateObjects t)(a := None), sd_stateObjectsDirty := sd_stateObjectsDirty t - {a}\<rparr>)"
proof -
  have db: "sd_db s = sd_db t" and v: "\<And>x. view s x = view t x" using assms by (auto simp: eqv_def)
  have "view (s\<lparr>sd_stateObjects := (sd_stateObjects s)(a := None), sd_stateObjectsDirty := X\<rparr>) x =
        view (t\<lparr>sd_stateObjects := (sd_stateObjects t)(a := None), sd_stateObjectsDirty := X\<rparr>) x" for x X
    using v [of x] db
    by (cases "x = a") (simp_all add: view_def getDeletedStateObject_def cong: option.case_cong)
  then show ?thesis using assms unfolding eqv_def by (auto simp: fun_eq_iff)
qed

lemma setStateObject_put: "setStateObject ob s = put_object (so_address ob) ob s"
  by (simp add: setStateObject_def put_object_def)

lemma view_cong:
  "sd_db s = sd_db t \<Longrightarrow> sd_stateObjects s = sd_stateObjects t \<Longrightarrow> view s = view t"
  by (rule ext) (simp add: view_def getDeletedStateObject_def cong: option.case_cong)

lemma view_other_fields [simp]:
  "view (s\<lparr>sd_refund := r\<rparr>) = view s" "view (s\<lparr>sd_logs := l\<rparr>) = view s"
  "view (s\<lparr>sd_logSize := n\<rparr>) = view s" "view (s\<lparr>sd_preimages := p\<rparr>) = view s"
  "view (s\<lparr>sd_accessList := al\<rparr>) = view s" "view (s\<lparr>sd_dirties := d\<rparr>) = view s"
  "view (s\<lparr>sd_entries := e\<rparr>) = view s" "view (s\<lparr>sd_validRevisions := v\<rparr>) = view s"
  "view (s\<lparr>sd_nextRevisionId := i\<rparr>) = view s"
  by (auto intro: view_cong)

lemma eqv_other_fields:
  assumes "eqv s t"
  shows "eqv (s\<lparr>sd_refund := r\<rparr>) (t\<lparr>sd_refund := r\<rparr>)"
    and "eqv (s\<lparr>sd_logs := l, sd_logSize := n\<rparr>) (t\<lparr>sd_logs := l, sd_logSize := n\<rparr>)"
    and "eqv (s\<lparr>sd_preimages := p\<rparr>) (t\<lparr>sd_preimages := p\<rparr>)"
    and "eqv (s\<lparr>sd_accessList := al\<rparr>) (t\<lparr>sd_accessList := al\<rparr>)"
    and "eqv (s\<lparr>sd_dirties := d\<rparr>) (t\<lparr>sd_dirties := d\<rparr>)"
  using assms by (simp_all add: eqv_def)

lemma eqv_journal_fields [simp]:
  "eqv (s\<lparr>sd_entries := e\<rparr>) t = eqv s t"
  "eqv s (t\<lparr>sd_entries := e\<rparr>) = eqv s t"
  "eqv (s\<lparr>sd_validRevisions := r\<rparr>) t = eqv s t"
  "eqv s (t\<lparr>sd_validRevisions := r\<rparr>) = eqv s t"
  "eqv (s\<lparr>sd_nextRevisionId := n\<rparr>) t = eqv s t"
  "eqv s (t\<lparr>sd_nextRevisionId := n\<rparr>) = eqv s t"
  by (simp_all add: eqv_def)

lemma revert_entry_eqv:
  assumes "eqv s t"
  shows "rel_sum (=) eqv (revert_entry e s) (revert_entry e t)"
proof -
  have same: "sd_logs s = sd_logs t" "sd_logSize s = sd_logSize t" "sd_preimages s = sd_preimages t"
    "sd_accessList s = sd_accessList t"
    using assms by (auto simp: eqv_def)
  note compat = modify_object_eqv [OF assms norm_compat_revert(1)]
    modify_object_eqv [OF assms norm_compat_revert(2)] modify_object_eqv [OF assms norm_compat_revert(3)]
    modify_object_eqv [OF assms norm_compat_revert(4)] modify_object_eqv [OF assms norm_compat_revert(5)]
    modify_object_eqv [OF assms norm_compat_revert(6)] modify_object_eqv [OF assms norm_compat_revert(7)]
    modify_object_eqv [OF assms norm_compat_revert(8)] modify_object_eqv [OF assms norm_compat_revert(9)]
    modify_object_eqv [OF assms norm_compat_revert(10)] modify_object_eqv [OF assms norm_compat_revert(11)]
  show ?thesis
  proof (cases e)
    case (accessListAddSlotChange a slot)
    then show ?thesis
      using same eqv_other_fields(4) [OF assms]
      by (cases "DeleteSlot (sd_accessList t) a slot") simp_all
  next
    case (addLogChange h)
    then show ?thesis using same eqv_other_fields(2) [OF assms] by (simp add: Let_def)
  next
    case (resetObjectChange prev)
    then show ?thesis
      using put_object_eqv [OF assms refl, of "so_address prev" prev] by (simp add: setStateObject_put)
  qed (use compat same eqv_no_live [OF assms] eqv_other_fields [OF assms] assms in simp_all)
qed

lemma undirty_eqv: "eqv s t \<Longrightarrow> eqv (undirty e s) (undirty e t)"
  using eqv_other_fields(5) [of s t] by (auto simp: undirty_def eqv_def Let_def split: option.splits)

lemma undo_Nil [simp]: "undo [] s = Inr s"
  by (simp add: undo_def)

lemma undo_append: "undo (xs @ ys) s = bindE (undo ys s) (undo xs)"
  by (cases "undo ys s") (simp_all add: undo_def foldE_append)

lemma undo_single: "undo [e] s = bindE (revert_entry e s) (\<lambda>s. Inr (undirty e s))"
  by (cases "revert_entry e s") (simp_all add: undo_def)

lemma undo_eqv:
  assumes "eqv s t" and "undo es s = Inr s'"
  shows "\<exists>t'. undo es t = Inr t' \<and> eqv s' t'"
  using assms
proof (induction es arbitrary: s t rule: rev_induct)
  case Nil
  then show ?case by simp
next
  case (snoc e es)
  from snoc.prems(2) obtain s1 where s1: "revert_entry e s = Inr s1" "undo es (undirty e s1) = Inr s'"
    by (auto simp: undo_append undo_single)
  with revert_entry_eqv [OF snoc.prems(1), of e] obtain t1
    where t1: "revert_entry e t = Inr t1" "eqv s1 t1"
    by (cases "revert_entry e t") auto
  from snoc.IH [OF undirty_eqv [OF t1(2), of e] s1(2)] show ?case
    using t1 by (simp add: undo_append undo_single)
qed

section \<open>The invariant of a state and the effect of a setter\<close>

definition al_ok :: "accessList \<Rightarrow> bool" where
  "al_ok al \<longleftrightarrow> (\<forall>a idx. al_addresses al a = Some idx \<longrightarrow> idx = -1 \<or> 0 \<le> idx \<and> idx < int (length (al_slots al))) \<and>
     {} \<notin> set (al_slots al)"

text \<open>The type byte of the account in use repeats the type of the object.\<close>

definition acc_ok :: "stateObject \<Rightarrow> bool" where
  "acc_ok ob \<longleftrightarrow>
     (so_accountType ob = ACC_TYPE_OF_REGULAR \<longrightarrow> ra_AccType (so_regularAccount ob) = so_accountType ob) \<and>
     (so_accountType ob = ACC_TYPE_OF_PNS \<longrightarrow> pa_AccType (so_pnsAccount ob) = so_accountType ob) \<and>
     (so_accountType ob = ACC_TYPE_OF_CONTRACT \<longrightarrow> ca_AccType (so_assetAccount ob) = so_accountType ob) \<and>
     (so_accountType ob = ACC_TYPE_OF_AUTHORIZE \<longrightarrow> aa_AccType (so_authorizeAccount ob) = so_accountType ob) \<and>
     (so_accountType ob = ACC_TYPE_OF_LOSS \<longrightarrow> la_AccType (so_lossAccount ob) = so_accountType ob)"

definition wf_state :: "StateDB \<Rightarrow> bool" where
  "wf_state s \<longleftrightarrow>
     (\<forall>a ob. view s a = Some ob \<longrightarrow> so_address ob = a \<and> so_fakeStorage ob = None \<and> acc_ok ob) \<and>
     sd_stateObjectsDirty s \<subseteq> {a. view s a \<noteq> None} \<and>
     al_ok (sd_accessList s) \<and>
     (\<forall>a n. sd_dirties s a = Some n \<longrightarrow> 0 < n) \<and>
     (\<forall>h. sd_logs s h \<noteq> Some [])"

lemma wf_state_eqv: "eqv s t \<Longrightarrow> wf_state s \<longleftrightarrow> wf_state t"
  by (simp add: wf_state_def eqv_def)

definition evolves :: "StateDB \<Rightarrow> StateDB \<Rightarrow> bool" where
  "evolves s t \<longleftrightarrow> (\<exists>es w. sd_entries t = sd_entries s @ es \<and> undo es t = Inr w \<and> eqv w s)"

lemma evolves_refl [simp]: "evolves s s"
  by (simp add: evolves_def)

lemma evolves_trans:
  assumes "evolves s t" and "evolves t u"
  shows "evolves s u"
proof -
  obtain es1 w1 where 1: "sd_entries t = sd_entries s @ es1" "undo es1 t = Inr w1" "eqv w1 s"
    using assms(1) by (auto simp: evolves_def)
  obtain es2 w2 where 2: "sd_entries u = sd_entries t @ es2" "undo es2 u = Inr w2" "eqv w2 t"
    using assms(2) by (auto simp: evolves_def)
  obtain w3 where "undo es1 w2 = Inr w3" "eqv w1 w3"
    using undo_eqv [OF eqv_sym [OF 2(3)] 1(2)] by auto
  then show ?thesis
    unfolding evolves_def using 1 2 eqv_trans [OF eqv_sym [of w1 w3] 1(3)]
    by (intro exI [of _ "es1 @ es2"] exI [of _ w3]) (simp add: undo_append)
qed

lemma evolves_eqv_right:
  assumes "evolves s t" and "eqv t u" and "sd_entries u = sd_entries t"
  shows "evolves s u"
proof -
  obtain es w where 1: "sd_entries t = sd_entries s @ es" "undo es t = Inr w" "eqv w s"
    using assms(1) by (auto simp: evolves_def)
  obtain w' where "undo es u = Inr w'" "eqv w w'" using undo_eqv [OF assms(2) 1(2)] by auto
  then show ?thesis
    unfolding evolves_def using 1 assms(3) eqv_trans [OF eqv_sym [of w w'] 1(3)] by auto
qed

definition step_ok :: "StateDB \<Rightarrow> StateDB \<Rightarrow> bool" where
  "step_ok s t \<longleftrightarrow> wf_state t \<and> evolves s t \<and>
     sd_validRevisions t = sd_validRevisions s \<and> sd_nextRevisionId t = sd_nextRevisionId s"

lemma step_ok_refl: "wf_state s \<Longrightarrow> step_ok s s"
  by (simp add: step_ok_def)

lemma step_ok_trans: "step_ok s t \<Longrightarrow> step_ok t u \<Longrightarrow> step_ok s u"
  by (auto simp: step_ok_def intro: evolves_trans)

lemma journal_append_fields [simp]:
  "sd_db (journal_append e s) = sd_db s" "sd_stateObjects (journal_append e s) = sd_stateObjects s"
  "sd_stateObjectsPending (journal_append e s) = sd_stateObjectsPending s"
  "sd_stateObjectsDirty (journal_append e s) = sd_stateObjectsDirty s"
  "sd_refund (journal_append e s) = sd_refund s" "sd_thash (journal_append e s) = sd_thash s"
  "sd_txIndex (journal_append e s) = sd_txIndex s" "sd_logs (journal_append e s) = sd_logs s"
  "sd_logSize (journal_append e s) = sd_logSize s" "sd_preimages (journal_append e s) = sd_preimages s"
  "sd_accessList (journal_append e s) = sd_accessList s"
  "sd_entries (journal_append e s) = sd_entries s @ [e]"
  "sd_validRevisions (journal_append e s) = sd_validRevisions s"
  "sd_nextRevisionId (journal_append e s) = sd_nextRevisionId s"
  "view (journal_append e s) = view s"
  by (auto simp: journal_append_def intro!: view_cong)

lemma getDeletedStateObject_append [simp]:
  "getDeletedStateObject (journal_append e s) = getDeletedStateObject s"
  "getStateObject (journal_append e s) = getStateObject s"
  by (rule ext, simp add: getStateObject_def getDeletedStateObject_def cong: option.case_cong)+

lemma dirties_append_pos:
  "\<forall>a n. sd_dirties s a = Some n \<longrightarrow> 0 < n \<Longrightarrow> \<forall>a n. sd_dirties (journal_append e s) a = Some n \<longrightarrow> 0 < n"
  by (auto simp: journal_append_def split: option.splits) (metis less_imp_le)

lemma undirty_append:
  assumes "\<forall>a n. sd_dirties s a = Some n \<longrightarrow> 0 < n" and "sd_dirties u = sd_dirties (journal_append e s)"
  shows "undirty e u = u\<lparr>sd_dirties := sd_dirties s\<rparr>"
proof (cases "dirtied e")
  case None
  then show ?thesis using assms(2) by (simp add: undirty_def journal_append_def)
next
  case (Some a)
  then show ?thesis
    using assms(1) [rule_format, of a] assms(2)
    by (cases "sd_dirties s a") (auto simp: undirty_def journal_append_def fun_upd_idem)
qed

text \<open>A journalled assignment to an object: undoing the entry gives back what the object showed.\<close>

lemma getStateObject_view:
  "getStateObject s a = Some ob \<Longrightarrow> view s a = Some (norm_obj (sd_db s) ob)"
  by (auto simp: getStateObject_def view_def split: option.splits if_splits)

lemma wf_state_object:
  assumes "wf_state s" and "getStateObject s a = Some ob"
  shows "so_address ob = a" "so_fakeStorage ob = None" "\<not> so_deleted ob" "acc_ok ob"
proof -
  have v: "view s a = Some (norm_obj (sd_db s) ob)" by (rule getStateObject_view [OF assms(2)])
  then have "so_address (norm_obj (sd_db s) ob) = a \<and> so_fakeStorage (norm_obj (sd_db s) ob) = None \<and>
      acc_ok (norm_obj (sd_db s) ob)"
    using assms(1) by (simp add: wf_state_def)
  then show "so_address ob = a" "so_fakeStorage ob = None" "acc_ok ob"
    by (simp_all add: norm_obj_def acc_ok_def)
  show "\<not> so_deleted ob"
    using assms(2) by (auto simp: getStateObject_def split: option.splits if_splits)
qed

lemma wf_state_put:
  assumes "wf_state s" and "so_address ob = a" and "so_fakeStorage ob = None" and "acc_ok ob"
  shows "wf_state (put_object a ob s)"
  using assms by (auto simp: wf_state_def put_object_view norm_obj_def acc_ok_def)

lemma wf_state_append: "wf_state s \<Longrightarrow> wf_state (journal_append e s)"
  using dirties_append_pos [of s e] by (simp add: wf_state_def)

lemma getStateObject_put: "\<not> so_deleted ob \<Longrightarrow> getStateObject (put_object a ob s) a = Some ob"
  by (simp add: getStateObject_def getDeletedStateObject_def put_object_def)

lemma put_object_twice: "put_object a x (put_object a y s) = put_object a x s"
  by (simp add: put_object_def)

lemma object_step:
  assumes wf: "wf_state s" and ob: "getStateObject s a = Some ob"
    and t: "t = put_object a ob' (journal_append e s)"
    and same: "so_address ob' = so_address ob" "so_fakeStorage ob' = so_fakeStorage ob"
      "so_deleted ob' = so_deleted ob" "acc_ok ob \<Longrightarrow> acc_ok ob'"
    and rev: "\<And>t. getStateObject t a = Some ob' \<Longrightarrow> revert_entry e t = Inr (put_object a (g ob') t)"
    and restored: "norm_obj (sd_db s) (g ob') = norm_obj (sd_db s) ob"
  shows "step_ok s t"
proof -
  note w = wf_state_object [OF wf ob]
  have "getStateObject t a = Some ob'" using t same w(3) by (simp add: getStateObject_put)
  then have r: "revert_entry e t = Inr (put_object a (g ob') (journal_append e s))"
    using rev t by (simp add: put_object_twice)
  have u: "undo [e] t = Inr ((put_object a (g ob') (journal_append e s))\<lparr>sd_dirties := sd_dirties s\<rparr>)"
    using r undirty_append [of s "put_object a (g ob') (journal_append e s)" e] wf
    by (simp add: undo_single wf_state_def)
  have "eqv ((put_object a (g ob') (journal_append e s))\<lparr>sd_dirties := sd_dirties s\<rparr>) s"
    using getStateObject_view [OF ob] restored
    by (auto simp: eqv_def put_object_view fun_upd_idem_iff)
  then have "evolves s t"
    using u t unfolding evolves_def by (intro exI [of _ "[e]"]) simp
  moreover have "wf_state t"
    unfolding t using wf same w by (intro wf_state_put wf_state_append) simp_all
  ultimately show ?thesis using t by (simp add: step_ok_def)
qed

text \<open>Creating or resetting an object.\<close>

lemma newAccount_fields:
  assumes "newAccountDataByAddr db addr enc t = Some ob"
  shows "so_address ob = addr" "so_fakeStorage ob = None" "so_deleted ob = False" "acc_ok ob"
  using assms
  by (auto simp: acc_ok_def newAccountDataByAddr_def newRegularAccount_def newPnsAccount_def newContractAccount_def
      newAuthorizeAccount_def newLossAccount_def newLossMarkAccount_def newValidatorListAccount_def
      emptyObject_def split: option.splits account_data.splits if_splits)

lemma create_step:
  assumes wf: "wf_state s" and new: "so_address ob = a" "so_fakeStorage ob = None" "acc_ok ob"
    and t: "t = put_object a ob (journal_append
              (case getDeletedStateObject s a of None \<Rightarrow> createObjectChange a | Some p \<Rightarrow> resetObjectChange p) s)"
  shows "step_ok s t"
proof -
  have pos: "\<forall>a n. sd_dirties s a = Some n \<longrightarrow> 0 < n" using wf by (simp add: wf_state_def)
  have "evolves s t"
  proof (cases "getDeletedStateObject s a")
    case None
    have noview: "view s a = None" using None by (simp add: view_def)
    then have nodirty: "a \<notin> sd_stateObjectsDirty s" using wf by (auto simp: wf_state_def)
    have live: "sd_stateObjects s a = None"
      using None by (simp add: getDeletedStateObject_def split: option.splits)
    let ?e = "createObjectChange a"
    let ?u = "t\<lparr>sd_stateObjects := (sd_stateObjects t)(a := None),
                 sd_stateObjectsDirty := sd_stateObjectsDirty t - {a}\<rparr>"
    have t': "t = put_object a ob (journal_append ?e s)" using t None by simp
    have objs: "sd_stateObjects ?u = sd_stateObjects s"
      using live by (simp add: t' put_object_def fun_upd_idem_iff)
    have u: "undo [?e] t = Inr (?u\<lparr>sd_dirties := sd_dirties s\<rparr>)"
      using undirty_append [OF pos, of ?u ?e] by (simp add: undo_single t')
    have "view (?u\<lparr>sd_dirties := sd_dirties s\<rparr>) = view s"
      using objs by (intro view_cong) (simp_all add: t')
    then have "eqv (?u\<lparr>sd_dirties := sd_dirties s\<rparr>) s"
      using nodirty by (simp add: eqv_def t')
    then show ?thesis using u t' unfolding evolves_def by (intro exI [of _ "[?e]"]) simp
  next
    case (Some p)
    have v: "view s a = Some (norm_obj (sd_db s) p)" using Some by (simp add: view_def)
    have "so_address (norm_obj (sd_db s) p) = a" using wf v by (simp add: wf_state_def)
    then have pa: "so_address p = a" by (simp add: norm_obj_def)
    let ?e = "resetObjectChange p"
    have t': "t = put_object a ob (journal_append ?e s)" using t Some by simp
    have u: "undo [?e] t = Inr ((put_object a p (journal_append ?e s))\<lparr>sd_dirties := sd_dirties s\<rparr>)"
      using undirty_append [OF pos, of "put_object a p (journal_append ?e s)" ?e] pa
      by (simp add: undo_single t' setStateObject_put put_object_twice)
    have "eqv ((put_object a p (journal_append ?e s))\<lparr>sd_dirties := sd_dirties s\<rparr>) s"
      using v by (simp add: eqv_def put_object_view fun_upd_idem_iff)
    then show ?thesis using u t' unfolding evolves_def by (intro exI [of _ "[?e]"]) simp
  qed
  moreover have "wf_state t"
    unfolding t using wf new by (intro wf_state_put wf_state_append)
  ultimately show ?thesis using t by (simp add: step_ok_def)
qed

lemma createObject_step:
  assumes "wf_state s" and "createObjectByAccType a t s = r"
  shows "step_ok s (snd r)"
    and "fst (fst r) = Some ob \<Longrightarrow> getStateObject (snd r) a = Some ob"
proof -
  have "step_ok s (snd r) \<and> (\<forall>ob. fst (fst r) = Some ob \<longrightarrow> getStateObject (snd r) a = Some ob)"
  proof (cases "newAccountDataByAddr (sd_db s) a None t")
    case None
    then show ?thesis using assms step_ok_refl by (auto simp: createObjectByAccType_def)
  next
    case (Some n)
    note f = newAccount_fields [OF Some]
    have r: "snd r = put_object a n (journal_append
        (case getDeletedStateObject s a of None \<Rightarrow> createObjectChange a | Some p \<Rightarrow> resetObjectChange p) s)"
      using Some assms(2) f(1) by (auto simp: createObjectByAccType_def setStateObject_put Let_def)
    then have "step_ok s (snd r)" using create_step [OF assms(1) f(1,2,4)] by simp
    moreover have "fst (fst r) = Some n"
      using Some assms(2) by (auto simp: createObjectByAccType_def Let_def)
    moreover have "getStateObject (snd r) a = Some n"
      using r f(3) by (simp add: getStateObject_put)
    ultimately show ?thesis by simp
  qed
  then show "step_ok s (snd r)" and "fst (fst r) = Some ob \<Longrightarrow> getStateObject (snd r) a = Some ob"
    by simp_all
qed

lemma GetOrNewStateObject_step:
  assumes "wf_state s"
  shows "step_ok s (snd (GetOrNewStateObject a s))"
    and "fst (GetOrNewStateObject a s) = Some ob \<Longrightarrow> getStateObject (snd (GetOrNewStateObject a s)) a = Some ob"
  using createObject_step [OF assms refl, of a ACC_TYPE_OF_REGULAR] step_ok_refl [OF assms]
  by (auto simp: GetOrNewStateObject_def createObject_def Let_def split: option.splits)

lemma on_object_step:
  assumes wf: "wf_state s" and r: "on_object f a s = Inr t"
    and f: "\<And>ob s t. wf_state s \<Longrightarrow> getStateObject s a = Some ob \<Longrightarrow> f a ob s = Inr t \<Longrightarrow> step_ok s t"
  shows "step_ok s t"
proof -
  let ?g = "GetOrNewStateObject a s"
  have 1: "step_ok s (snd ?g)" by (rule GetOrNewStateObject_step(1) [OF wf])
  show ?thesis
  proof (cases "fst ?g")
    case None
    then show ?thesis using r 1 by (simp add: on_object_def Let_def)
  next
    case (Some ob)
    then have "step_ok (snd ?g) t"
      using r f [OF _ GetOrNewStateObject_step(2) [OF wf Some]] 1
      by (simp add: on_object_def Let_def step_ok_def)
    then show ?thesis using 1 step_ok_trans by blast
  qed
qed

lemma setBalance_setBalance: "setBalance v (setBalance w ob) = setBalance v ob"
  by (simp add: setBalance_def)

lemma setBalance_same: "Balance ob = v \<Longrightarrow> setBalance v ob = ob"
  by (auto simp: setBalance_def Balance_def)

lemma setBalance_fields [simp]:
  "so_address (setBalance v ob) = so_address ob" "so_fakeStorage (setBalance v ob) = so_fakeStorage ob"
  "so_deleted (setBalance v ob) = so_deleted ob" "so_accountType (setBalance v ob) = so_accountType ob"
  "acc_ok (setBalance v ob) = acc_ok ob"
  by (simp_all add: setBalance_def acc_ok_def)

lemma setNonce_fields [simp]:
  "so_address (setNonce v ob) = so_address ob" "so_fakeStorage (setNonce v ob) = so_fakeStorage ob"
  "so_deleted (setNonce v ob) = so_deleted ob" "setNonce (Nonce ob) (setNonce v ob) = ob"
  "acc_ok (setNonce v ob) = acc_ok ob"
  by (simp_all add: setNonce_def Nonce_def acc_ok_def)

lemma obj_SetBalance_step:
  assumes "wf_state s" and "getStateObject s a = Some ob" and "obj_SetBalance a ob v s = Inr t"
  shows "step_ok s t"
proof (cases "so_accountType ob = ACC_TYPE_OF_REGULAR \<or> so_accountType ob = ACC_TYPE_OF_CONTRACT")
  case True
  then obtain prev where b: "Balance ob = Some prev"
    and t: "t = put_object a (setBalance (Some v) ob) (journal_append (balanceChange a prev) s)"
    using assms(3) by (auto simp: obj_SetBalance_def split: option.splits)
  show ?thesis
    by (rule object_step [OF assms(1,2) t, where g = "setBalance (Some prev)"])
      (simp_all add: modify_object_def setBalance_setBalance setBalance_same [OF b])
next
  case False
  then show ?thesis using assms step_ok_refl by (simp add: obj_SetBalance_def)
qed

lemma balance_steps:
  assumes "wf_state s"
  shows "AddBalance a v s = Inr t \<Longrightarrow> step_ok s t"
    and "SubBalance a v s = Inr t \<Longrightarrow> step_ok s t"
    and "SetBalance a v s = Inr t \<Longrightarrow> step_ok s t"
  unfolding AddBalance_def SubBalance_def SetBalance_def
  by (erule on_object_step [OF assms],
      auto simp: obj_AddBalance_def obj_SubBalance_def step_ok_refl
        split: if_splits option.splits intro: obj_SetBalance_step)+

lemma SetNonce_step:
  assumes "wf_state s" and "SetNonce a n s = Inr t"
  shows "step_ok s t"
proof (rule on_object_step [OF assms(1) assms(2) [unfolded SetNonce_def]])
  fix ob s t
  assume *: "wf_state s" "getStateObject s a = Some ob" and
    "(if so_accountType ob = ACC_TYPE_OF_REGULAR \<or> so_accountType ob = ACC_TYPE_OF_CONTRACT
      then Inr (put_object a (setNonce n ob) (journal_append (nonceChange a (Nonce ob)) s))
      else Inr s) = (Inr t :: panic + StateDB)"
  then consider "t = s" | "t = put_object a (setNonce n ob) (journal_append (nonceChange a (Nonce ob)) s)"
    by (auto split: if_splits)
  then show "step_ok s t"
  proof cases
    case 1
    then show ?thesis using * step_ok_refl by simp
  next
    case 2
    show ?thesis
      by (rule object_step [OF * 2, where g = "setNonce (Nonce ob)"]) (simp_all add: modify_object_def)
  qed
qed

lemma Code_setCode_back:
  "norm_obj db (setCode (BytesToHash_nil (CodeHash ob)) (Code db ob) (setCode h c ob)) = norm_obj db ob"
proof -
  have "(case Code db ob of Some c \<Rightarrow> Some c
        | None \<Rightarrow> if BytesToHash_nil (CodeHash ob) = db_emptyCodeHash db then None
                  else db_code db (BytesToHash_nil (CodeHash ob))) = Code db ob"
    by (auto simp: Code_def BytesToHash_nil_def split: option.splits if_splits)
  then show ?thesis
    unfolding norm_setCode by (simp add: norm_obj_def)
qed

lemma SetCode_step:
  assumes "wf_state s" and "SetCode keccak a c s = Inr t"
  shows "step_ok s t"
proof (rule on_object_step [OF assms(1) assms(2) [unfolded SetCode_def]])
  fix ob s t
  assume *: "wf_state s" "getStateObject s a = Some ob" and
    "Inr (put_object a (setCode (keccak c) (Some c) ob)
      (journal_append (codeChange a (Code (sd_db s) ob) (CodeHash ob)) s)) = (Inr t :: panic + StateDB)"
  then have t: "t = put_object a (setCode (keccak c) (Some c) ob)
      (journal_append (codeChange a (Code (sd_db s) ob) (CodeHash ob)) s)" by simp
  show "step_ok s t"
    by (rule object_step [OF * t, where g = "setCode (BytesToHash_nil (CodeHash ob)) (Code (sd_db s) ob)"])
      (simp_all add: modify_object_def Code_setCode_back, simp_all add: setCode_def acc_ok_def)
qed

lemma SetState_step:
  assumes "wf_state s" and "SetState a k v s = Inr t"
  shows "step_ok s t"
proof (rule on_object_step [OF assms(1) assms(2) [unfolded SetState_def]])
  fix ob s t
  assume *: "wf_state s" "getStateObject s a = Some ob" and
    e: "(case so_fakeStorage ob of
       Some f \<Rightarrow> Inr (put_object a (ob\<lparr>so_fakeStorage := Some (f(k \<mapsto> v))\<rparr>) s)
     | None \<Rightarrow>
         (let prev = obj_GetState (sd_db s) ob k
          in if prev = v then Inr s
             else Inr (put_object a (setState k v ob)
                         (journal_append (storageChange a k prev) s)))) = (Inr t :: panic + StateDB)"
  have nf: "so_fakeStorage ob = None" by (rule wf_state_object(2) [OF *])
  show "step_ok s t"
  proof (cases "obj_GetState (sd_db s) ob k = v")
    case True
    then show ?thesis using e nf * step_ok_refl by (simp add: Let_def)
  next
    case False
    then have t: "t = put_object a (setState k v ob)
        (journal_append (storageChange a k (obj_GetState (sd_db s) ob k)) s)"
      using e nf by (simp add: Let_def)
    have "norm_obj (sd_db s) (setState k (obj_GetState (sd_db s) ob k) (setState k v ob)) = norm_obj (sd_db s) ob"
      unfolding norm_setState using nf by (simp add: norm_obj_def fun_upd_idem)
    then show ?thesis
      by (intro object_step [OF * t, where g = "setState k (obj_GetState (sd_db s) ob k)"])
        (simp_all add: modify_object_def, simp_all add: setState_def acc_ok_def)
  qed
qed

lemma CreateAccountOfType_step:
  assumes "wf_state s"
  shows "step_ok s (CreateAccountOfType t a s)"
proof (cases "newAccountDataByAddr (sd_db s) a None t")
  case None
  then show ?thesis
    using step_ok_refl [OF assms] by (simp add: CreateAccountOfType_def createObjectByAccType_def)
next
  case (Some n)
  note f = newAccount_fields [OF Some]
  let ?s = "journal_append (case getDeletedStateObject s a of None \<Rightarrow> createObjectChange a
                            | Some p \<Rightarrow> resetObjectChange p) s"
  have "\<exists>n'. CreateAccountOfType t a s = put_object a n' ?s \<and> so_address n' = a \<and>
          so_fakeStorage n' = None \<and> acc_ok n'"
    using Some f
    by (auto simp: CreateAccountOfType_def createObjectByAccType_def Let_def setStateObject_put
        put_object_twice split: option.splits intro!: exI)
  then show ?thesis using create_step [OF assms] by metis
qed

lemma Suicide_step:
  assumes wf: "wf_state s" and r: "Suicide a s = Inr (b, t)"
    and journalled: "\<And>ob. getStateObject s a = Some ob \<Longrightarrow> suicide_entry a ob \<noteq> Inr None"
  shows "step_ok s t"
proof (cases "getStateObject s a")
  case None
  then show ?thesis using r step_ok_refl [OF wf] by (simp add: Suicide_def)
next
  case (Some ob)
  obtain e where e: "suicide_entry a ob = Inr (Some e)"
    and t: "t = put_object a (markSuicided ob) (journal_append e s)"
    using r journalled [OF Some] Some by (auto simp: Suicide_def split: option.splits)
  have ok: "acc_ok ob" by (rule wf_state_object(4) [OF wf Some])
  have "\<exists>g. (\<forall>t. getStateObject t a = Some (markSuicided ob) \<longrightarrow>
                revert_entry e t = Inr (put_object a (g (markSuicided ob)) t)) \<and> g (markSuicided ob) = ob"
    using e ok
    by (auto simp: suicide_entry_def acc_ok_def modify_if_present_def markSuicided_def
        split: if_splits option.splits intro!: exI)
  then obtain g where g: "\<And>t. getStateObject t a = Some (markSuicided ob) \<Longrightarrow>
      revert_entry e t = Inr (put_object a (g (markSuicided ob)) t)" "g (markSuicided ob) = ob"
    by blast
  show ?thesis
    by (rule object_step [OF wf Some t, where g = g])
      (use g in \<open>simp_all add: markSuicided_def acc_ok_def\<close>)
qed

text \<open>Changes outside the objects.\<close>

lemma field_step:
  assumes wf: "wf_state s" and "wf_state t"
    and t: "sd_entries t = sd_entries s @ [e]" "sd_dirties t = sd_dirties (journal_append e s)"
      "sd_validRevisions t = sd_validRevisions s" "sd_nextRevisionId t = sd_nextRevisionId s"
    and r: "revert_entry e t = Inr u" "sd_dirties u = sd_dirties t" "eqv (u\<lparr>sd_dirties := sd_dirties s\<rparr>) s"
  shows "step_ok s t"
proof -
  have "undirty e u = u\<lparr>sd_dirties := sd_dirties s\<rparr>"
    using wf r(2) t(2) by (intro undirty_append) (simp_all add: wf_state_def)
  then have "undo [e] t = Inr (u\<lparr>sd_dirties := sd_dirties s\<rparr>)"
    using r(1) by (simp add: undo_single)
  then have "evolves s t" using t(1) r(3) unfolding evolves_def by blast
  then show ?thesis using assms by (simp add: step_ok_def)
qed

lemma wf_state_fields [simp]:
  "wf_state (s\<lparr>sd_refund := r\<rparr>) = wf_state s"
  "wf_state (s\<lparr>sd_preimages := p\<rparr>) = wf_state s"
  "wf_state (s\<lparr>sd_logSize := n\<rparr>) = wf_state s"
  by (simp_all add: wf_state_def)

lemma refund_steps:
  assumes "wf_state s"
  shows "step_ok s (AddRefund g s)" and "SubRefund g s = Inr t \<Longrightarrow> step_ok s t"
proof -
  have "step_ok s ((journal_append (refundChange (sd_refund s)) s)\<lparr>sd_refund := r\<rparr>)" for r
    by (rule field_step [where e = "refundChange (sd_refund s)" and
          u = "(journal_append (refundChange (sd_refund s)) s)\<lparr>sd_refund := sd_refund s\<rparr>", OF assms])
      (simp_all add: wf_state_append assms, simp add: eqv_def)
  then show "step_ok s (AddRefund g s)" and "SubRefund g s = Inr t \<Longrightarrow> step_ok s t"
    by (auto simp: AddRefund_def SubRefund_def split: if_splits)
qed

lemma AddPreimage_step:
  assumes "wf_state s"
  shows "step_ok s (AddPreimage h p s)"
proof (cases "sd_preimages s h = None")
  case True
  have "step_ok s ((journal_append (addPreimageChange h) s)\<lparr>sd_preimages := (sd_preimages s)(h \<mapsto> p)\<rparr>)"
    by (rule field_step [where e = "addPreimageChange h" and
          u = "(journal_append (addPreimageChange h) s)\<lparr>sd_preimages := sd_preimages s\<rparr>", OF assms])
      (simp_all add: wf_state_append assms True fun_upd_idem, simp add: eqv_def)
  then show ?thesis using True by (simp add: AddPreimage_def)
next
  case False
  then show ?thesis using step_ok_refl [OF assms] by (simp add: AddPreimage_def)
qed

lemma AddLog_step:
  assumes "wf_state s"
  shows "step_ok s (AddLog l s)"
proof -
  let ?h = "sd_thash s"
  have ne: "sd_logs s ?h \<noteq> Some []" using assms by (simp add: wf_state_def)
  have wf: "wf_state (AddLog l s)"
    using wf_state_append [OF assms, of "addLogChange ?h"]
    by (auto simp: AddLog_def Let_def wf_state_def)
  obtain u where u: "revert_entry (addLogChange ?h) (AddLog l s) = Inr u" "sd_dirties u = sd_dirties (AddLog l s)"
    "eqv (u\<lparr>sd_dirties := sd_dirties s\<rparr>) s"
  proof (cases "sd_logs s ?h")
    case None
    then show ?thesis
      by (intro that [of "(AddLog l s)\<lparr>sd_logs := (sd_logs (AddLog l s))(?h := None),
            sd_logSize := sd_logSize (AddLog l s) - 1\<rparr>"])
        (simp_all add: AddLog_def Let_def eqv_def fun_upd_idem)
  next
    case (Some ls)
    with ne show ?thesis
      by (intro that [of "(AddLog l s)\<lparr>sd_logs := (sd_logs (AddLog l s))(?h \<mapsto> ls),
            sd_logSize := sd_logSize (AddLog l s) - 1\<rparr>"])
        (simp_all add: AddLog_def Let_def eqv_def fun_upd_idem)
  qed
  show ?thesis
    by (rule field_step [OF assms wf _ _ _ _ u]) (simp_all add: AddLog_def Let_def)
qed

lemma wf_state_accessList:
  "wf_state s \<Longrightarrow> al_ok al \<Longrightarrow> wf_state (s\<lparr>sd_accessList := al\<rparr>)"
  by (simp add: wf_state_def)

lemma al_okD:
  "al_ok al \<Longrightarrow> al_addresses al a = Some idx \<Longrightarrow> idx = -1 \<or> 0 \<le> idx \<and> idx < int (length (al_slots al))"
  by (simp add: al_ok_def)

lemma AddAddress_ok: "al_ok al \<Longrightarrow> al_ok (fst (AddAddress al a))"
  by (auto simp: al_ok_def AddAddress_def split: if_splits)

lemma AddAddressToAccessList_step:
  assumes "wf_state s"
  shows "step_ok s (AddAddressToAccessList a s)"
proof (cases "al_addresses (sd_accessList s) a")
  case None
  let ?al = "fst (AddAddress (sd_accessList s) a)"
  have t: "AddAddressToAccessList a s = journal_append (accessListAddAccountChange a) (s\<lparr>sd_accessList := ?al\<rparr>)"
    using None by (simp add: AddAddressToAccessList_def AddAddress_def)
  have wf: "wf_state (AddAddressToAccessList a s)"
    unfolding t using assms by (intro wf_state_append wf_state_accessList AddAddress_ok) (simp_all add: wf_state_def)
  have "DeleteAddress ?al a = sd_accessList s"
    using None by (simp add: DeleteAddress_def AddAddress_def fun_upd_idem)
  then show ?thesis
    by (intro field_step [where e = "accessListAddAccountChange a" and
          u = "(AddAddressToAccessList a s)\<lparr>sd_accessList := sd_accessList s\<rparr>", OF assms wf])
      (simp_all add: t eqv_def, simp add: journal_append_def)
next
  case (Some i)
  then show ?thesis
    using step_ok_refl [OF assms] by (simp add: AddAddressToAccessList_def AddAddress_def)
qed

text \<open>
  Adding a slot first adds the address when it is not in the list, which is the step above, and
  then the slot to an address that is present.
\<close>

lemma AddSlot_present_step:
  assumes wf: "wf_state s" and present: "al_addresses (sd_accessList s) a = Some idx"
    and add: "AddSlot (sd_accessList s) a slot = Inr (al, False, True)"
  shows "step_ok s (journal_append (accessListAddSlotChange a slot) (s\<lparr>sd_accessList := al\<rparr>))"
proof -
  let ?old = "sd_accessList s"
  have ok: "al_ok ?old" using wf by (simp add: wf_state_def)
  have *: "al_ok al \<and> DeleteSlot al a slot = Inr ?old"
  proof (cases "idx = -1")
    case True
    then have al: "al = ?old\<lparr>al_addresses := (al_addresses ?old)(a \<mapsto> int (length (al_slots ?old))),
        al_slots := al_slots ?old @ [{slot}]\<rparr>"
      using add present by (simp add: AddSlot_def)
    have "al_ok al"
      unfolding al_ok_def al
    proof (intro conjI allI impI)
      fix a' i
      assume "al_addresses (?old\<lparr>al_addresses := (al_addresses ?old)(a \<mapsto> int (length (al_slots ?old))),
        al_slots := al_slots ?old @ [{slot}]\<rparr>) a' = Some i"
      then show "i = -1 \<or> 0 \<le> i \<and> i < int (length (al_slots (?old\<lparr>al_addresses :=
          (al_addresses ?old)(a \<mapsto> int (length (al_slots ?old))), al_slots := al_slots ?old @ [{slot}]\<rparr>)))"
        using al_okD [OF ok, of a' i] by (auto split: if_splits)
    qed (use ok in \<open>simp add: al_ok_def\<close>)
    moreover have "DeleteSlot al a slot = Inr ?old"
      using present True by (simp add: al DeleteSlot_def fun_upd_idem)
    ultimately show ?thesis ..
  next
    case False
    then have i: "0 \<le> idx" "idx < int (length (al_slots ?old))" using al_okD [OF ok present] by auto
    then have n: "nat idx < length (al_slots ?old)" by simp
    have new: "slot \<notin> al_slots ?old ! nat idx"
      and al: "al = ?old\<lparr>al_slots := (al_slots ?old)[nat idx := insert slot (al_slots ?old ! nat idx)]\<rparr>"
      using add present False i by (auto simp: AddSlot_def split: if_splits)
    have ne: "al_slots ?old ! nat idx \<noteq> {}" using ok n unfolding al_ok_def by (metis nth_mem)
    have "al_ok al"
      using ok unfolding al al_ok_def by (auto dest!: set_update_subset_insert [THEN subsetD])
    moreover have "DeleteSlot al a slot = Inr ?old"
      using present i n new ne unfolding al by (simp add: DeleteSlot_def)
    ultimately show ?thesis ..
  qed
  have wf': "wf_state (journal_append (accessListAddSlotChange a slot) (s\<lparr>sd_accessList := al\<rparr>))"
    using wf * by (intro wf_state_append wf_state_accessList) simp_all
  show ?thesis
    using * by (intro field_step [where e = "accessListAddSlotChange a slot" and
        u = "(journal_append (accessListAddSlotChange a slot) s)\<lparr>sd_accessList := ?old\<rparr>", OF wf wf'])
      (simp_all add: eqv_def, simp_all add: journal_append_def)
qed

lemma AddSlot_absent:
  assumes "al_addresses (sd_accessList s) a = None"
  shows "AddSlotToAccessList a slot s = AddSlotToAccessList a slot (AddAddressToAccessList a s)"
  using assms
  by (simp add: AddSlotToAccessList_def AddAddressToAccessList_def AddAddress_def AddSlot_def journal_append_def)

lemma AddSlotToAccessList_step:
  assumes wf: "wf_state s" and r: "AddSlotToAccessList a slot s = Inr t"
  shows "step_ok s t"
proof -
  have present: "step_ok s t"
    if wf: "wf_state s" and p: "al_addresses (sd_accessList s) a = Some idx"
      and r: "AddSlotToAccessList a slot s = Inr t" for s idx
  proof -
    obtain al m where add: "AddSlot (sd_accessList s) a slot = Inr (al, False, m)"
      using r p by (auto simp: AddSlotToAccessList_def AddSlot_def split: if_splits)
    show ?thesis
    proof (cases m)
      case True
      have "t = journal_append (accessListAddSlotChange a slot) (s\<lparr>sd_accessList := al\<rparr>)"
        using add r True by (simp add: AddSlotToAccessList_def)
      then show ?thesis
        using AddSlot_present_step [OF wf p] add True by simp
    next
      case False
      then have "al = sd_accessList s" using add p by (auto simp: AddSlot_def split: if_splits)
      then show ?thesis
        using add r False step_ok_refl [OF wf] by (simp add: AddSlotToAccessList_def)
    qed
  qed
  show ?thesis
  proof (cases "al_addresses (sd_accessList s) a")
    case None
    let ?s = "AddAddressToAccessList a s"
    have 1: "step_ok s ?s" by (rule AddAddressToAccessList_step [OF wf])
    have "al_addresses (sd_accessList ?s) a = Some (-1)"
      using None by (simp add: AddAddressToAccessList_def AddAddress_def)
    then have "step_ok ?s t"
      using present [of ?s "-1"] 1 r AddSlot_absent [OF None] by (simp add: step_ok_def)
    with 1 show ?thesis by (rule step_ok_trans)
  next
    case (Some idx)
    then show ?thesis using present [OF wf Some r] by simp
  qed
qed

section \<open>Runs of a transaction\<close>

text \<open>
  What the interpreter does to the state between a snapshot \<open>id\<close> and the revert to it: journalled
  setters, further snapshots, and reverts to snapshots taken later than \<open>id\<close>. An account without a
  journal entry for its destruction (loss mark, validator list) is not destructed.
\<close>

inductive evolve :: "int \<Rightarrow> StateDB \<Rightarrow> StateDB \<Rightarrow> bool" for id s where
  evolve_refl: "evolve id s s"
| evolve_AddBalance: "evolve id s t \<Longrightarrow> AddBalance a v t = Inr u \<Longrightarrow> evolve id s u"
| evolve_SubBalance: "evolve id s t \<Longrightarrow> SubBalance a v t = Inr u \<Longrightarrow> evolve id s u"
| evolve_SetBalance: "evolve id s t \<Longrightarrow> SetBalance a v t = Inr u \<Longrightarrow> evolve id s u"
| evolve_SetNonce: "evolve id s t \<Longrightarrow> SetNonce a n t = Inr u \<Longrightarrow> evolve id s u"
| evolve_SetCode: "evolve id s t \<Longrightarrow> SetCode keccak a c t = Inr u \<Longrightarrow> evolve id s u"
| evolve_SetState: "evolve id s t \<Longrightarrow> SetState a k w t = Inr u \<Longrightarrow> evolve id s u"
| evolve_CreateAccount: "evolve id s t \<Longrightarrow> evolve id s (CreateAccount a t)"
| evolve_CreateContractAccount: "evolve id s t \<Longrightarrow> evolve id s (CreateContractAccount a t)"
| evolve_Suicide: "evolve id s t \<Longrightarrow> Suicide a t = Inr (b, u) \<Longrightarrow>
    (\<And>ob. getStateObject t a = Some ob \<Longrightarrow> suicide_entry a ob \<noteq> Inr None) \<Longrightarrow> evolve id s u"
| evolve_AddRefund: "evolve id s t \<Longrightarrow> evolve id s (AddRefund g t)"
| evolve_SubRefund: "evolve id s t \<Longrightarrow> SubRefund g t = Inr u \<Longrightarrow> evolve id s u"
| evolve_AddLog: "evolve id s t \<Longrightarrow> evolve id s (AddLog l t)"
| evolve_AddPreimage: "evolve id s t \<Longrightarrow> evolve id s (AddPreimage h p t)"
| evolve_AddAddress: "evolve id s t \<Longrightarrow> evolve id s (AddAddressToAccessList a t)"
| evolve_AddSlot: "evolve id s t \<Longrightarrow> AddSlotToAccessList a k t = Inr u \<Longrightarrow> evolve id s u"
| evolve_Snapshot: "evolve id s t \<Longrightarrow> evolve id s (snd (Snapshot t))"
| evolve_Revert: "evolve id s t \<Longrightarrow> id < i \<Longrightarrow> RevertToSnapshot i t = Inr u \<Longrightarrow> evolve id s u"

text \<open>
  The invariant of a run: the revisions after the first ones belong to states seen before, each
  state leads to the next and to the present one, and the ids increase.
\<close>

definition history :: "(int \<times> nat) list \<Rightarrow> StateDB list \<Rightarrow> StateDB \<Rightarrow> bool" where
  "history base H t \<longleftrightarrow> wf_state t \<and>
     (\<exists>ids. sd_validRevisions t = base @ zip ids (map (\<lambda>h. length (sd_entries h)) H) \<and>
        length ids = length H \<and> sorted_wrt (<) ids \<and>
        (\<forall>i \<in> set ids. (\<forall>r \<in> set base. fst r < i) \<and> i < sd_nextRevisionId t)) \<and>
     (\<forall>r \<in> set base. fst r < sd_nextRevisionId t) \<and>
     (\<forall>h \<in> set H. wf_state h \<and> evolves h t) \<and> sorted_wrt evolves H"

lemma history_step:
  assumes "history base H s" and "step_ok s t"
  shows "history base H t"
proof -
  have t: "wf_state t" "evolves s t" "sd_validRevisions t = sd_validRevisions s" "sd_nextRevisionId t = sd_nextRevisionId s"
    using assms by (auto simp: history_def step_ok_def)
  have "\<forall>h \<in> set H. wf_state h \<and> evolves h t" using assms(1) evolves_trans [OF _ t(2)] by (auto simp: history_def)
  then show ?thesis using assms(1) t unfolding history_def by simp
qed

lemma history_Snapshot:
  assumes "history base H s"
  shows "history base (H @ [s]) (snd (Snapshot s))"
proof -
  let ?t = "snd (Snapshot s)"
  obtain ids where ids: "sd_validRevisions s = base @ zip ids (map (\<lambda>h. length (sd_entries h)) H)"
    "length ids = length H" "sorted_wrt (<) ids"
    "\<forall>i \<in> set ids. (\<forall>r \<in> set base. fst r < i) \<and> i < sd_nextRevisionId s"
    using assms by (auto simp: history_def)
  have base: "\<forall>r \<in> set base. fst r < sd_nextRevisionId s" and wf: "wf_state s"
    and H: "\<forall>h \<in> set H. wf_state h \<and> evolves h s" "sorted_wrt evolves H"
    using assms by (auto simp: history_def)
  have e: "eqv s ?t" by (simp add: Snapshot_def Let_def)
  have ent: "sd_entries ?t = sd_entries s" by (simp add: Snapshot_def Let_def)
  have ev: "evolves h ?t" if "evolves h s" for h using evolves_eqv_right [OF that e ent] .
  have "\<exists>ids'. sd_validRevisions ?t = base @ zip ids' (map (\<lambda>h. length (sd_entries h)) (H @ [s])) \<and>
      length ids' = length (H @ [s]) \<and> sorted_wrt (<) ids' \<and>
      (\<forall>i \<in> set ids'. (\<forall>r \<in> set base. fst r < i) \<and> i < sd_nextRevisionId ?t)"
    using ids base
    by (intro exI [of _ "ids @ [sd_nextRevisionId s]"]) (auto simp: Snapshot_def Let_def sorted_wrt_append)
  moreover have "wf_state ?t" using wf wf_state_eqv [OF e] by simp
  moreover have "\<forall>r \<in> set base. fst r < sd_nextRevisionId ?t" using base by (auto simp: Snapshot_def Let_def)
  ultimately show ?thesis
    using H ev evolves_refl [of s] wf by (auto simp: history_def sorted_wrt_append)
qed

lemma revert_entry_journal:
  assumes "revert_entry e s = Inr t"
  shows "sd_entries t = sd_entries s \<and> sd_validRevisions t = sd_validRevisions s \<and>
         sd_nextRevisionId t = sd_nextRevisionId s"
  using assms
  by (cases e) (auto simp: modify_object_def modify_if_present_def touch_copy_def setStateObject_put
      Let_def split: option.splits if_splits)

lemma undirty_journal [simp]:
  "sd_entries (undirty e s) = sd_entries s" "sd_validRevisions (undirty e s) = sd_validRevisions s"
  "sd_nextRevisionId (undirty e s) = sd_nextRevisionId s"
  by (simp_all add: undirty_def Let_def split: option.splits)

lemma undo_journal:
  assumes "undo es s = Inr t"
  shows "sd_entries t = sd_entries s \<and> sd_validRevisions t = sd_validRevisions s \<and>
         sd_nextRevisionId t = sd_nextRevisionId s"
proof (rule foldE_invariant [OF assms [unfolded undo_def]])
  fix e s1 s2
  assume "bindE (revert_entry e s1) (\<lambda>s. Inr (undirty e s)) = Inr s2"
    and "sd_entries s1 = sd_entries s \<and> sd_validRevisions s1 = sd_validRevisions s \<and>
         sd_nextRevisionId s1 = sd_nextRevisionId s"
  then show "sd_entries s2 = sd_entries s \<and> sd_validRevisions s2 = sd_validRevisions s \<and>
      sd_nextRevisionId s2 = sd_nextRevisionId s"
    by (auto dest: revert_entry_journal)
qed simp

lemma takeWhile_split:
  assumes "\<forall>x \<in> set xs. P x" and "\<not> P y"
  shows "takeWhile P (xs @ y # ys) = xs"
  using assms by (simp add: takeWhile_append2)

lemma history_Revert:
  assumes hist: "history base H t" and k: "k < length H"
    and i: "fst (sd_validRevisions t ! (length base + k)) = i"
  obtains u where "RevertToSnapshot i t = Inr u" "eqv u (H ! k)" "sd_entries u = sd_entries (H ! k)"
    "sd_validRevisions u = take (length base + k) (sd_validRevisions t)" "history base (take k H) u"
proof -
  obtain ids where ids: "sd_validRevisions t = base @ zip ids (map (\<lambda>h. length (sd_entries h)) H)"
    "length ids = length H" "sorted_wrt (<) ids"
    "\<forall>i \<in> set ids. (\<forall>r \<in> set base. fst r < i) \<and> i < sd_nextRevisionId t"
    using hist by (auto simp: history_def)
  have base: "\<forall>r \<in> set base. fst r < sd_nextRevisionId t"
    and H: "\<forall>h \<in> set H. wf_state h \<and> evolves h t" "sorted_wrt evolves H"
    using hist by (auto simp: history_def)
  let ?Z = "zip ids (map (\<lambda>h. length (sd_entries h)) H)"
  have zk: "?Z ! k = (i, length (sd_entries (H ! k)))" and idk: "ids ! k = i"
    using i ids(1,2) k by (simp_all add: nth_append)
  have "?Z = take k ?Z @ ?Z ! k # drop (Suc k) ?Z"
    using k ids(2) by (intro id_take_nth_drop) simp
  then have split: "sd_validRevisions t = (base @ take k ?Z) @ (i, length (sd_entries (H ! k))) # drop (Suc k) ?Z"
    using ids(1) zk by simp
  have less: "\<forall>r \<in> set (base @ take k ?Z). fst r < i"
  proof
    fix r
    assume "r \<in> set (base @ take k ?Z)"
    then consider "r \<in> set base" | "r \<in> set (take k ?Z)" by auto
    then show "fst r < i"
    proof cases
      case 1
      then show ?thesis using ids(2,4) k idk nth_mem [of k ids] by auto
    next
      case 2
      then have "fst r \<in> set (take k ids)"
        by (metis take_zip fst_conv in_set_zip nth_mem prod.collapse in_set_conv_nth set_zip_leftD)
      then obtain j where "j < k" "fst r = ids ! j" using k ids(2) by (auto simp: in_set_conv_nth)
      then show ?thesis using sorted_wrt_nth_less [OF ids(3), of j k] k ids(2) idk by simp
    qed
  qed
  have tw: "takeWhile (\<lambda>r. fst r < i) (sd_validRevisions t) = base @ take k ?Z"
    unfolding split using less by (intro takeWhile_split) simp_all
  have len: "length (base @ take k ?Z) = length base + k" using k ids(2) by simp
  let ?h = "H ! k"
  have hk: "?h \<in> set H" using k by simp
  then obtain es w where es: "sd_entries t = sd_entries ?h @ es" "undo es t = Inr w" "eqv w ?h"
    using H(1) by (auto simp: evolves_def)
  let ?u = "w\<lparr>sd_entries := sd_entries ?h, sd_validRevisions := take (length base + k) (sd_validRevisions t)\<rparr>"
  note uj = undo_journal [OF es(2)]
  have r: "RevertToSnapshot i t = Inr ?u"
  proof -
    have at: "sd_validRevisions t ! (length base + k) = (i, length (sd_entries ?h))"
      and lt: "length base + k < length (sd_validRevisions t)"
      using ids(1,2) k zk by (simp_all add: nth_append)
    have jr: "journal_revert (length (sd_entries ?h)) t = Inr (w\<lparr>sd_entries := sd_entries ?h\<rparr>)"
      using es uj by (simp add: journal_revert_def)
    show ?thesis
      using at lt uj jr unfolding RevertToSnapshot_def Let_def tw len by simp
  qed
  have e: "eqv ?u ?h" using es(3) by simp
  have ev: "evolves h ?u" if mem: "h \<in> set (take k H)" for h
  proof -
    obtain j where "j < k" "h = H ! j" using mem k by (auto simp: in_set_conv_nth)
    then have "evolves h ?h" using sorted_wrt_nth_less [OF H(2)] k by simp
    then show ?thesis by (rule evolves_eqv_right) (use eqv_sym [OF e] in simp_all)
  qed
  have "history base (take k H) ?u"
    unfolding history_def
  proof (intro conjI)
    show "wf_state ?u" using wf_state_eqv [OF e] H(1) hk by simp
    show "\<exists>ids'. sd_validRevisions ?u = base @ zip ids' (map (\<lambda>h. length (sd_entries h)) (take k H)) \<and>
        length ids' = length (take k H) \<and> sorted_wrt (<) ids' \<and>
        (\<forall>i \<in> set ids'. (\<forall>r \<in> set base. fst r < i) \<and> i < sd_nextRevisionId ?u)"
      using ids k uj
      by (intro exI [of _ "take k ids"])
        (auto simp: take_zip take_map sorted_wrt_take dest: in_set_takeD)
    show "\<forall>r \<in> set base. fst r < sd_nextRevisionId ?u" using base uj by simp
    show "\<forall>h \<in> set (take k H). wf_state h \<and> evolves h ?u" using H(1) ev by (auto dest: in_set_takeD)
    show "sorted_wrt evolves (take k H)" using H(2) by (rule sorted_wrt_take)
  qed
  then show thesis using that [of ?u] r e by simp
qed

lemma history_Revert_later:
  assumes H: "history base (s # H) t" "fst (sd_validRevisions t ! length base) = rid"
    and base: "\<forall>r \<in> set base. fst r < rid" and "rid < i" and r: "RevertToSnapshot i t = Inr u"
  shows "\<exists>H. history base (s # H) u \<and> fst (sd_validRevisions u ! length base) = rid"
proof -
  let ?idx = "length (takeWhile (\<lambda>r. fst r < i) (sd_validRevisions t))"
  have "?idx \<noteq> length (sd_validRevisions t)" and at: "fst (sd_validRevisions t ! ?idx) = i"
    using r by (auto simp: RevertToSnapshot_def Let_def split: if_splits)
  then have idx: "?idx < length (sd_validRevisions t)"
    using length_takeWhile_le [of "\<lambda>r. fst r < i" "sd_validRevisions t"] by linarith
  obtain ids where ids: "sd_validRevisions t = base @ zip ids (map (\<lambda>h. length (sd_entries h)) (s # H))"
    "length ids = length (s # H)"
    using H(1) unfolding history_def by blast
  have "length base \<le> ?idx"
  proof (rule ccontr)
    assume "\<not> length base \<le> ?idx"
    then have "fst (sd_validRevisions t ! ?idx) < rid"
      using ids(1) base by (simp add: nth_append)
    then show False using at assms(4) by simp
  qed
  moreover have "?idx \<noteq> length base" using at H(2) assms(4) by auto
  ultimately obtain k where k: "?idx = length base + Suc k"
    by (metis add_Suc_right less_imp_Suc_add nat_less_le)
  then have kl: "Suc k < length (s # H)" using idx ids(1,2) by simp
  obtain u' where u': "RevertToSnapshot i t = Inr u'" "history base (take (Suc k) (s # H)) u'"
      "sd_validRevisions u' = take (length base + Suc k) (sd_validRevisions t)"
    using history_Revert [OF H(1) kl] at k by metis
  then show ?thesis using r H(2) by (intro exI [of _ "take k H"]) simp
qed

lemma evolve_history:
  assumes "evolve rid s1 t" and s1: "history base (s # H0) s1"
    "fst (sd_validRevisions s1 ! length base) = rid" and base: "\<forall>r \<in> set base. fst r < rid"
  shows "\<exists>H. history base (s # H) t \<and> fst (sd_validRevisions t ! length base) = rid"
  using assms(1)
proof (induction rule: evolve.induct)
  let ?Q = "\<lambda>t. \<exists>H. history base (s # H) t \<and> fst (sd_validRevisions t ! length base) = rid"
  have keep: "?Q u" if Q: "?Q t" and step: "wf_state t \<Longrightarrow> step_ok t u" for t u
  proof -
    obtain H where H: "history base (s # H) t" "fst (sd_validRevisions t ! length base) = rid"
      using Q by blast
    have st: "step_ok t u" using step H(1) by (simp add: history_def)
    show ?thesis
      using history_step [OF H(1) st] H(2) st by (auto simp: step_ok_def)
  qed
  {
    case evolve_refl
    show ?case using s1 by blast
  next
    case (evolve_Snapshot t)
    then obtain H where H: "history base (s # H) t" "fst (sd_validRevisions t ! length base) = rid" by blast
    have "length base < length (sd_validRevisions t)" using H(1) by (auto simp: history_def)
    then show ?case
      using history_Snapshot [OF H(1)] H(2) by (auto simp: Snapshot_def Let_def nth_append)
  next
    case (evolve_Revert t i u)
    then obtain H where H: "history base (s # H) t" "fst (sd_validRevisions t ! length base) = rid" by blast
    then show ?case using history_Revert_later [OF H base evolve_Revert.hyps(2,3)] by blast
  next
    case (evolve_AddBalance t a v u)
    then show ?case using keep balance_steps(1) by blast
  next
    case (evolve_SubBalance t a v u)
    then show ?case using keep balance_steps(2) by blast
  next
    case (evolve_SetBalance t a v u)
    then show ?case using keep balance_steps(3) by blast
  next
    case (evolve_SetNonce t a n u)
    then show ?case using keep SetNonce_step by blast
  next
    case (evolve_SetCode t keccak a c u)
    then show ?case using keep SetCode_step by blast
  next
    case (evolve_SetState t a k w u)
    then show ?case using keep SetState_step by blast
  next
    case (evolve_CreateAccount t a)
    then show ?case using keep CreateAccountOfType_step unfolding CreateAccount_def by blast
  next
    case (evolve_CreateContractAccount t a)
    then show ?case using keep CreateAccountOfType_step unfolding CreateContractAccount_def by blast
  next
    case (evolve_Suicide t a b u)
    show ?case by (rule keep [OF evolve_Suicide.IH]) (rule Suicide_step [OF _ evolve_Suicide.hyps(2,3)])
  next
    case (evolve_AddRefund t g)
    then show ?case using keep refund_steps(1) by blast
  next
    case (evolve_SubRefund t g u)
    then show ?case using keep refund_steps(2) by blast
  next
    case (evolve_AddLog t l)
    then show ?case using keep AddLog_step by blast
  next
    case (evolve_AddPreimage t h p)
    then show ?case using keep AddPreimage_step by blast
  next
    case (evolve_AddAddress t a)
    then show ?case using keep AddAddressToAccessList_step by blast
  next
    case (evolve_AddSlot t a k u)
    then show ?case using keep AddSlotToAccessList_step by blast
  }
qed

lemma wf_NewStateDB: "wf_state (NewStateDB db)"
  by (auto simp: wf_state_def view_def getDeletedStateObject_def NewStateDB_def al_ok_def
      newAccessList_def norm_obj_def acc_ok_def dest: newAccount_fields split: option.splits)

definition emptyDatabase :: Database where
  "emptyDatabase = \<lparr>db_account = (\<lambda>_. None), db_slot = (\<lambda>_ _. 0), db_code = (\<lambda>_. None),
     db_emptyCodeHash = 1, db_emptyRoot = 2\<rparr>"

section \<open>Properties\<close>

text \<open>
  C14. \<open>RevertToSnapshot\<close> undoes: take a snapshot, run any sequence of journalled setters with nested
  snapshots and reverts to them, and revert to the snapshot. The revert does not panic, and every
  getter then reads what it read before the snapshot: balance, nonce, code, storage, existence and
  destruction of every account, refund, logs, preimages and access list; the journal, its dirty
  counters and the revision stack are back as well.
\<close>

theorem RevertToSnapshot_undoes:
  assumes "wf_state s" and "\<forall>r \<in> set (sd_validRevisions s). fst r < sd_nextRevisionId s"
    and "Snapshot s = (rid, s1)" and "evolve rid s1 t"
  shows "\<exists>u. RevertToSnapshot rid t = Inr u \<and>
     (\<forall>a. GetBalance u a = GetBalance s a \<and> GetNonce u a = GetNonce s a \<and> GetCode u a = GetCode s a \<and>
          GetCodeHash u a = GetCodeHash s a \<and> Exist u a = Exist s a \<and> HasSuicided u a = HasSuicided s a \<and>
          (\<forall>k. GetState u a k = GetState s a k \<and> GetCommittedState u a k = GetCommittedState s a k)) \<and>
     sd_refund u = sd_refund s \<and> sd_logs u = sd_logs s \<and> sd_logSize u = sd_logSize s \<and>
     sd_preimages u = sd_preimages s \<and> sd_accessList u = sd_accessList s \<and>
     sd_entries u = sd_entries s \<and> sd_dirties u = sd_dirties s \<and>
     sd_validRevisions u = sd_validRevisions s"
proof -
  let ?base = "sd_validRevisions s"
  have h0: "history ?base [] s" using assms(1,2) by (simp add: history_def)
  have s1: "s1 = snd (Snapshot s)" and rid: "rid = sd_nextRevisionId s"
    using assms(3) by (auto simp: Snapshot_def Let_def)
  have h1: "history ?base [s] s1" using history_Snapshot [OF h0] s1 by simp
  have at1: "fst (sd_validRevisions s1 ! length ?base) = rid"
    by (simp add: s1 rid Snapshot_def Let_def)
  obtain H where H: "history ?base (s # H) t" "fst (sd_validRevisions t ! length ?base) = rid"
    using evolve_history [OF assms(4) h1 at1] assms(2) rid by blast
  obtain u where u: "RevertToSnapshot rid t = Inr u" "eqv u s" "sd_entries u = sd_entries s"
    "sd_validRevisions u = take (length ?base) (sd_validRevisions t)"
    using history_Revert [OF H(1), of 0] H(2) by auto
  have "sd_validRevisions u = ?base"
    using u(4) H(1) unfolding history_def by auto
  then show ?thesis
    using u eqv_getters [OF u(2)] u(2) [unfolded eqv_def] by auto
qed

theorem RevertToSnapshot_undoes_witness:
  "\<exists>t u. AddBalance 7 5 (snd (Snapshot (NewStateDB emptyDatabase))) = Inr t \<and> GetBalance t 7 = Some 5 \<and>
     RevertToSnapshot 0 (AddRefund 3 t) = Inr u \<and> GetBalance u 7 = Some 0 \<and> sd_refund u = 0 \<and> \<not> Exist u 7"
proof -
  let ?s = "NewStateDB emptyDatabase"
  let ?s1 = "snd (Snapshot ?s)"
  have snap: "Snapshot ?s = (0, ?s1)" by (simp add: Snapshot_def NewStateDB_def)
  have no: "getStateObject ?s1 7 = None" "getDeletedStateObject ?s1 7 = None" "getStateObject ?s 7 = None"
    by (simp_all add: getStateObject_def getDeletedStateObject_def Snapshot_def NewStateDB_def emptyDatabase_def)
  obtain t where t: "AddBalance 7 5 ?s1 = Inr t" "GetBalance t 7 = Some 5"
    using no
    by (simp add: AddBalance_def on_object_def GetOrNewStateObject_def createObject_def
        createObjectByAccType_def newAccountDataByAddr_def newRegularAccount_def emptyObject_def
        nil_to_zero_def zeroRegular_def obj_AddBalance_def obj_SetBalance_def Balance_def setBalance_def
        GetBalance_def getStateObject_put Let_def)
  have "evolve 0 ?s1 (AddRefund 3 t)"
    by (rule evolve_AddRefund, rule evolve_AddBalance [OF evolve_refl t(1)])
  from RevertToSnapshot_undoes [OF wf_NewStateDB _ snap this]
  obtain u where "RevertToSnapshot 0 (AddRefund 3 t) = Inr u" "GetBalance u 7 = GetBalance ?s 7"
    "Exist u 7 = Exist ?s 7" "sd_refund u = sd_refund ?s"
    by (auto simp: NewStateDB_def)
  then show ?thesis
    using t no by (auto simp: GetBalance_def Exist_def NewStateDB_def)
qed

end
