(* ===== verification/AccountOps.thy ===== *)
theory AccountOps
  imports StateRevert
begin

text \<open>
  The account operations that a transaction to a reserved address performs
  (\<open>src/core/state/statedb.go\<close>: \<open>Vote\<close>, \<open>Register\<close>, \<open>Cancellation\<close>, \<open>Transfer\<close>, the loss reports,
  \<open>Redemption\<close>, \<open>ApplyToBeDPoSNode\<close>) and their dispatcher \<open>CallDB\<close> (\<open>src/core/evm.go\<close>).

  Decoding the call data and deriving addresses are functions of the record \<open>Codec\<close>: they stand for
  \<open>rlp.DecodeBytes\<close> into the decode types of \<open>src/common/types.go\<close> (\<open>None\<close> for an error; the two
  decoders whose error the code ignores give the value that is left) and for
  \<open>crypto.CreateAddress\<close> and \<open>crypto.CreatePNSAddress\<close>.
\<close>

section \<open>Transaction context\<close>

record Codec =
  dec_Byte :: "bytes \<Rightarrow> u8 option"
  dec_Address :: "bytes \<Rightarrow> address option"
  dec_Int_lenient :: "bytes \<Rightarrow> int"
  dec_RegisterLoss_lenient :: "bytes \<Rightarrow> u32 \<times> hash"
  dec_Cancellation :: "bytes \<Rightarrow> (address \<times> address) option"
  dec_ApplyDPos :: "bytes \<Rightarrow> (address \<times> bytes) option"
  dec_PnsOwner :: "bytes \<Rightarrow> (address \<times> address) option"
  dec_PnsContent :: "bytes \<Rightarrow> (address \<times> u8 \<times> bytes) option"
  dec_RevealLoss :: "bytes \<Rightarrow> (address \<times> address \<times> address) option"
  dec_Associated :: "bytes \<Rightarrow> (address \<times> address) option"
  cr_CreateAddress :: "address \<Rightarrow> u64 \<Rightarrow> address"
  cr_CreatePNSAddress :: "address \<Rightarrow> bytes \<Rightarrow> address"

record TxContext =
  tc_From :: address
  tc_To :: "address option"
  tc_Nonce :: u64
  tc_Value :: int
  tc_Data :: bytes
  tc_PobEpoch :: u64
  tc_BlockNumber :: int

section \<open>Helpers on objects\<close>

definition set_regular :: "(RegularAccount \<Rightarrow> RegularAccount) \<Rightarrow> stateObject \<Rightarrow> stateObject" where
  "set_regular f ob = ob\<lparr>so_regularAccount := f (so_regularAccount ob)\<rparr>"
definition set_pns :: "(PnsAccount \<Rightarrow> PnsAccount) \<Rightarrow> stateObject \<Rightarrow> stateObject" where
  "set_pns f ob = ob\<lparr>so_pnsAccount := f (so_pnsAccount ob)\<rparr>"
definition set_authorize :: "(AuthorizeAccount \<Rightarrow> AuthorizeAccount) \<Rightarrow> stateObject \<Rightarrow> stateObject" where
  "set_authorize f ob = ob\<lparr>so_authorizeAccount := f (so_authorizeAccount ob)\<rparr>"
definition set_loss :: "(LossAccount \<Rightarrow> LossAccount) \<Rightarrow> stateObject \<Rightarrow> stateObject" where
  "set_loss f ob = ob\<lparr>so_lossAccount := f (so_lossAccount ob)\<rparr>"

text \<open>Append a journal entry and assign to the object: the shape of every change below.\<close>

definition journalled :: "address \<Rightarrow> journalEntry \<Rightarrow> stateObject \<Rightarrow> StateDB \<Rightarrow> StateDB" where
  "journalled addr e ob s = put_object addr ob (journal_append e s)"

definition do_Suicide :: "address \<Rightarrow> StateDB \<Rightarrow> panic + StateDB" where
  "do_Suicide addr s = bindE (Suicide addr s) (\<lambda>r. Inr (snd r))"

section \<open>Loss marks and loss types of accounts\<close>

definition setRegularLossType :: "address \<Rightarrow> u8 \<Rightarrow> StateDB \<Rightarrow> StateDB" where
  "setRegularLossType addr lossType s =
     (case getStateObject s addr of
        None \<Rightarrow> s
      | Some ob \<Rightarrow>
          let lt = ra_LossType (so_regularAccount ob)
          in journalled addr (lossTypeChange addr lt)
               (set_regular (\<lambda>r. r\<lparr>ra_LossType := LossType_SetType lt lossType\<rparr>) ob) s)"

definition setRegularLossState :: "address \<Rightarrow> bool \<Rightarrow> StateDB \<Rightarrow> StateDB" where
  "setRegularLossState addr lossState s =
     (case getStateObject s addr of
        None \<Rightarrow> s
      | Some ob \<Rightarrow>
          let lt = ra_LossType (so_regularAccount ob)
          in journalled addr (lossTypeChange addr lt)
               (set_regular (\<lambda>r. r\<lparr>ra_LossType := LossType_SetState lt lossState\<rparr>) ob) s)"

text \<open>The object at an address, created with a type when there is none.\<close>

definition get_or_create :: "address \<Rightarrow> u8 \<Rightarrow> StateDB \<Rightarrow> panic + stateObject \<times> StateDB" where
  "get_or_create addr t s =
     (case getStateObject s addr of
        Some ob \<Rightarrow> Inr (ob, s)
      | None \<Rightarrow>
          let r = createObjectByAccType addr t s
          in case fst (fst r) of None \<Rightarrow> Inl PanicNilPointer | Some ob \<Rightarrow> Inr (ob, snd r))"

definition updateLossMark :: "u32 \<Rightarrow> bool \<Rightarrow> StateDB \<Rightarrow> panic + StateDB" where
  "updateLossMark lastBits flag s =
     bindE (get_or_create SPECIAL_REGISTER_LOSE ACC_TYPE_OF_LOSS_MARK s) (\<lambda>(ob, s).
       let mark = lm_LossMark (so_lossMarkAccount ob);
           mark' = (case SetMark mark (unat lastBits mod LossMarkBitLength) flag of None \<Rightarrow> mark | Some m \<Rightarrow> m)
       in Inr (journalled SPECIAL_REGISTER_LOSE (lossMarkAccountChange SPECIAL_REGISTER_LOSE mark)
                 (ob\<lparr>so_lossMarkAccount := (so_lossMarkAccount ob)\<lparr>lm_LossMark := mark'\<rparr>\<rparr>) s))"

datatype loss_mark_error = InvalidLossMarkAddress | LossReportingConflict

definition CanLossMark :: "u32 \<Rightarrow> StateDB \<Rightarrow> panic + loss_mark_error option \<times> StateDB" where
  "CanLossMark lastBitsMark s =
     bindE (get_or_create SPECIAL_REGISTER_LOSE ACC_TYPE_OF_LOSS_MARK s) (\<lambda>(ob, s).
       Inr (if so_accountType ob \<noteq> ACC_TYPE_OF_LOSS_MARK then Some InvalidLossMarkAddress
            else if GetMark (lm_LossMark (so_lossMarkAccount ob)) (unat lastBitsMark mod LossMarkBitLength)
            then Some LossReportingConflict else None, s))"

definition ModifyLossType :: "Codec \<Rightarrow> TxContext \<Rightarrow> StateDB \<Rightarrow> panic + StateDB" where
  "ModifyLossType cd ctx s =
     (case dec_Byte cd (tc_Data ctx) of
        None \<Rightarrow> Inr s
      | Some n \<Rightarrow> Inr (setRegularLossType (tc_From ctx) n s))"

section \<open>Votes\<close>

definition vote_from :: "address \<Rightarrow> address \<Rightarrow> int \<Rightarrow> StateDB \<Rightarrow> StateDB" where
  "vote_from from to v s =
     (case getStateObject s from of
        None \<Rightarrow> s
      | Some ob \<Rightarrow>
          let lastVoteValue = (case ra_VoteValue (so_regularAccount ob) of None \<Rightarrow> 0 | Some x \<Rightarrow> x)
          in journalled from
               (voteForRegularChange from (ra_VoteAccount (so_regularAccount ob)) lastVoteValue)
               (set_regular (\<lambda>r. r\<lparr>ra_VoteAccount := to, ra_VoteValue := Some (v + lastVoteValue)\<rparr>) ob) s)"

definition vote_to :: "address \<Rightarrow> int \<Rightarrow> StateDB \<Rightarrow> panic + StateDB" where
  "vote_to to v s =
     (case getStateObject s to of
        None \<Rightarrow> Inr s
      | Some ob \<Rightarrow>
          (case aa_VoteValue (so_authorizeAccount ob) of
             None \<Rightarrow> Inl PanicNilPointer
           | Some prev \<Rightarrow>
               Inr (journalled to (voteValueForAuthorizeChange to prev)
                      (set_authorize (\<lambda>a. a\<lparr>aa_VoteValue := Some (prev + v)\<rparr>) ob) s)))"

definition Vote :: "Codec \<Rightarrow> TxContext \<Rightarrow> StateDB \<Rightarrow> panic + StateDB" where
  "Vote cd ctx s =
     (case dec_Address cd (tc_Data ctx) of
        None \<Rightarrow> Inr s
      | Some addr \<Rightarrow>
          bindE (SubBalance (tc_From ctx) (tc_Value ctx) s) (\<lambda>s.
            vote_to addr (tc_Value ctx) (vote_from (tc_From ctx) addr (tc_Value ctx) s)))"

definition RedemptionForAuthorize :: "address \<Rightarrow> int option \<Rightarrow> StateDB \<Rightarrow> panic + StateDB" where
  "RedemptionForAuthorize voteAddr voteValue s =
     (case getStateObject s voteAddr of
        None \<Rightarrow> Inr s
      | Some ob \<Rightarrow>
          (case (aa_PledgeValue (so_authorizeAccount ob), aa_VoteValue (so_authorizeAccount ob)) of
             (Some pv, Some vv) \<Rightarrow>
               Inr (journalled voteAddr (redemptionForAuthorizeChange voteAddr pv vv)
                      (set_authorize (\<lambda>a. case voteValue of
                           None \<Rightarrow> a\<lparr>aa_VoteValue := Some (vv - pv), aa_PledgeValue := Some 0\<rparr>
                         | Some v \<Rightarrow> a\<lparr>aa_VoteValue := Some (vv - v)\<rparr>) ob) s)
           | _ \<Rightarrow> Inl PanicNilPointer))"

definition redeem_from :: "address \<Rightarrow> address \<Rightarrow> StateDB \<Rightarrow> panic + StateDB" where
  "redeem_from from addr s =
     (case getStateObject s from of
        None \<Rightarrow> Inr s
      | Some ob \<Rightarrow>
          if addr = ra_VoteAccount (so_regularAccount ob) then
            (case (ra_VoteValue (so_regularAccount ob), ra_Value (so_regularAccount ob)) of
               (Some vv, Some v) \<Rightarrow>
                 RedemptionForAuthorize addr (Some vv)
                   (journalled from
                      (redemptionForRegularChange from (ra_VoteAccount (so_regularAccount ob)) vv v)
                      (set_regular (\<lambda>r. r\<lparr>ra_Value := Some (v + vv), ra_VoteAccount := 0,
                                          ra_VoteValue := Some 0\<rparr>) ob) s)
             | _ \<Rightarrow> Inl PanicNilPointer)
          else Inr s)"

definition Redemption :: "Codec \<Rightarrow> TxContext \<Rightarrow> StateDB \<Rightarrow> panic + StateDB" where
  "Redemption cd ctx s =
     (case dec_Address cd (tc_Data ctx) of
        None \<Rightarrow> Inr s
      | Some addr \<Rightarrow>
          (case (getStateObject s (tc_From ctx), getStateObject s addr) of
             (Some fromObj, Some authorizeObj) \<Rightarrow>
               bindE (if tc_From ctx = aa_Owner (so_authorizeAccount authorizeObj)
                      then RedemptionForAuthorize addr None s else Inr s)
                 (redeem_from (tc_From ctx) addr)
           | _ \<Rightarrow> Inr s))"

section \<open>Registration, cancellation, transfer\<close>

definition register_pns :: "Codec \<Rightarrow> TxContext \<Rightarrow> StateDB \<Rightarrow> panic + StateDB" where
  "register_pns cd ctx s =
     (let newAddress = cr_CreatePNSAddress cd (tc_From ctx) (tc_Data ctx);
          r = createObjectByAccType newAddress ACC_TYPE_OF_PNS s
      in case fst (fst r) of
           None \<Rightarrow> Inl PanicNilPointer
         | Some ob \<Rightarrow>
             Inr (put_object newAddress
                    (set_pns (\<lambda>p. p\<lparr>pa_Owner := tc_From ctx, pa_Data := tc_Data ctx, pa_Type := 0\<rparr>) ob)
                    (snd r)))"

definition register_authorize :: "Codec \<Rightarrow> TxContext \<Rightarrow> StateDB \<Rightarrow> panic + StateDB" where
  "register_authorize cd ctx s =
     (let newAddress = cr_CreateAddress cd (tc_From ctx) (tc_Nonce ctx);
          r = createObjectByAccType newAddress ACC_TYPE_OF_AUTHORIZE s
      in case fst (fst r) of
           None \<Rightarrow> Inl PanicNilPointer
         | Some ob \<Rightarrow>
             Inr (put_object newAddress
                    (set_authorize (\<lambda>a. a\<lparr>aa_PledgeValue := Some (tc_Value ctx),
                         aa_VoteValue := Some (tc_Value ctx), aa_Owner := tc_From ctx,
                         aa_ValidPeriod := Some (dec_Int_lenient cd (tc_Data ctx))\<rparr>) ob)
                    (snd r)))"

definition register_loss :: "Codec \<Rightarrow> TxContext \<Rightarrow> StateDB \<Rightarrow> panic + StateDB" where
  "register_loss cd ctx s =
     (let newAddress = cr_CreateAddress cd (tc_From ctx) (tc_Nonce ctx);
          decode = dec_RegisterLoss_lenient cd (tc_Data ctx);
          r = createObjectByAccType newAddress ACC_TYPE_OF_LOSS s
      in case fst (fst r) of
           None \<Rightarrow> Inl PanicNilPointer
         | Some ob \<Rightarrow>
             updateLossMark (fst decode) True
               (put_object newAddress
                  (set_loss (\<lambda>l. l\<lparr>la_State := LOSS_STATE_OF_APPLY, la_Height := Some (tc_BlockNumber ctx),
                       la_InfoDigest := snd decode, la_LastBits := fst decode\<rparr>) ob)
                  (snd r)))"

definition Register :: "Codec \<Rightarrow> TxContext \<Rightarrow> StateDB \<Rightarrow> panic + StateDB" where
  "Register cd ctx s =
     (case tc_To ctx of
        None \<Rightarrow> Inl PanicNilPointer
      | Some to \<Rightarrow>
          bindE (if to = SPECIAL_REGISTER_PNS then
                   bindE (register_pns cd ctx s) (\<lambda>s. Inr (PLEDGE_OF_PNS, s))
                 else if to = SPECIAL_REGISTER_AUTHORIZE then
                   bindE (register_authorize cd ctx s) (\<lambda>s. Inr (PLEDGE_OF_AUTHORIZE, s))
                 else if to = SPECIAL_REGISTER_LOSE then
                   bindE (register_loss cd ctx s) (\<lambda>s. Inr (PLEDGE_OF_LOSS, s))
                 else Inr (0, s))
            (\<lambda>(pledgeAmount, s). SubBalance (tc_From ctx) (tc_Value ctx + uint pledgeAmount) s))"

definition Cancellation :: "Codec \<Rightarrow> TxContext \<Rightarrow> StateDB \<Rightarrow> panic + StateDB" where
  "Cancellation cd ctx s =
     (case dec_Cancellation cd (tc_Data ctx) of
        None \<Rightarrow> Inr s
      | Some (cancelAddress, beneficiary) \<Rightarrow>
          (case getStateObject s cancelAddress of
             None \<Rightarrow> Inr s
           | Some ob \<Rightarrow>
               let pledgeAmount =
                     (if so_accountType ob = ACC_TYPE_OF_REGULAR then PLEDGE_OF_REGULAR
                      else if so_accountType ob = ACC_TYPE_OF_PNS then PLEDGE_OF_PNS
                      else if so_accountType ob = ACC_TYPE_OF_AUTHORIZE then PLEDGE_OF_AUTHORIZE
                      else 0)
               in bindE (AddBalance beneficiary (uint pledgeAmount) s) (do_Suicide cancelAddress)))"

definition Transfer :: "TxContext \<Rightarrow> StateDB \<Rightarrow> panic + StateDB" where
  "Transfer ctx s =
     (case tc_To ctx of
        None \<Rightarrow> Inl PanicNilPointer
      | Some to \<Rightarrow>
          let isNew = (getStateObject s to = None)
          in if tc_Value ctx = 0 then Inr s
             else let actualValue = (if isNew then tc_Value ctx - uint PLEDGE_OF_REGULAR else tc_Value ctx)
                  in bindE (SubBalance (tc_From ctx) (tc_Value ctx) s) (AddBalance to actualValue))"

section \<open>Loss reports\<close>

definition RevealLossReport :: "Codec \<Rightarrow> TxContext \<Rightarrow> StateDB \<Rightarrow> panic + StateDB" where
  "RevealLossReport cd ctx s =
     (case dec_RevealLoss cd (tc_Data ctx) of
        None \<Rightarrow> Inr s
      | Some (lossAccount, oldAccount, newAccount) \<Rightarrow>
          (case getStateObject s lossAccount of
             None \<Rightarrow> Inl PanicNilPointer
           | Some ob \<Rightarrow>
               (case la_Height (so_lossAccount ob) of
                  None \<Rightarrow> Inl PanicNilPointer
                | Some h \<Rightarrow>
                    let l = so_lossAccount ob;
                        s = journalled lossAccount
                              (revealLossReportChange lossAccount (la_LostAccount l) (la_NewAccount l) h (la_State l))
                              (set_loss (\<lambda>l. l\<lparr>la_LostAccount := oldAccount, la_NewAccount := newAccount,
                                 la_State := LOSS_STATE_OF_REVEAL, la_Height := Some (tc_BlockNumber ctx)\<rparr>) ob) s
                    in bindE (updateLossMark (la_LastBits l) False s) (\<lambda>s.
                         bindE (SubBalance (tc_From ctx) (tc_Value ctx) (setRegularLossState oldAccount True s))
                           (AddBalance oldAccount (tc_Value ctx))))))"

text \<open>The balance of the lost account moves to the beneficiary when it is positive.\<close>

definition move_balance :: "address \<Rightarrow> address \<Rightarrow> StateDB \<Rightarrow> panic + StateDB" where
  "move_balance lost benefit s =
     (case getStateObject s lost of
        None \<Rightarrow> Inr s
      | Some ob \<Rightarrow>
          (case Balance ob of
             None \<Rightarrow> Inl PanicNilPointer
           | Some b \<Rightarrow>
               if b > 0 then bindE (AddBalance benefit b s) (SetBalance lost 0) else Inr s))"

text \<open>The votes move when the lost account has votes and the beneficiary has none.\<close>

definition move_votes :: "address \<Rightarrow> address \<Rightarrow> StateDB \<Rightarrow> panic + StateDB" where
  "move_votes lost benefit s =
     (case (getStateObject s lost, getStateObject s benefit) of
        (Some lo, Some bo) \<Rightarrow>
          (case ra_VoteValue (so_regularAccount lo) of
             None \<Rightarrow> Inl PanicNilPointer
           | Some lv \<Rightarrow>
               if lv > 0 \<and> ra_VoteAccount (so_regularAccount lo) \<noteq> 0 then
                 (case ra_VoteValue (so_regularAccount bo) of
                    None \<Rightarrow> Inl PanicNilPointer
                  | Some bv \<Rightarrow>
                      if bv < 1 then
                        let s1 = journalled benefit
                                   (lostAccountVoteChange benefit (ra_VoteAccount (so_regularAccount bo)) bv)
                                   (set_regular (\<lambda>r. r\<lparr>ra_VoteAccount := ra_VoteAccount (so_regularAccount lo),
                                                       ra_VoteValue := Some lv\<rparr>) bo) s
                        in (case getStateObject s1 lost of
                              None \<Rightarrow> Inl PanicNilPointer
                            | Some lo1 \<Rightarrow>
                                (case ra_VoteValue (so_regularAccount lo1) of
                                   None \<Rightarrow> Inl PanicNilPointer
                                 | Some lv1 \<Rightarrow>
                                     Inr (journalled lost
                                            (lostAccountVoteChange lost (ra_VoteAccount (so_regularAccount lo1)) lv1)
                                            (set_regular (\<lambda>r. r\<lparr>ra_VoteAccount := 0, ra_VoteValue := Some 0\<rparr>) lo1) s1)))
                      else Inr s)
               else Inr s)
      | _ \<Rightarrow> Inr s)"

definition TransferLostAccount :: "Codec \<Rightarrow> TxContext \<Rightarrow> StateDB \<Rightarrow> panic + StateDB" where
  "TransferLostAccount cd ctx s =
     (case dec_Address cd (tc_Data ctx) of
        None \<Rightarrow> Inr s
      | Some addr \<Rightarrow>
          (case getStateObject s addr of
             None \<Rightarrow> Inr s
           | Some ob \<Rightarrow>
               let lost = la_LostAccount (so_lossAccount ob);
                   benefit = la_NewAccount (so_lossAccount ob)
               in bindE (if getStateObject s lost \<noteq> None \<and> getStateObject s benefit \<noteq> None
                         then bindE (move_balance lost benefit s) (move_votes lost benefit)
                         else Inr s) (\<lambda>s.
                    case getStateObject s addr of
                      None \<Rightarrow> Inl PanicNilPointer
                    | Some ob \<Rightarrow>
                        Inr (journalled addr (lossStateChange addr (la_State (so_lossAccount ob)))
                               (set_loss (\<lambda>l. l\<lparr>la_State := LOSS_STATE_OF_SUCCESS\<rparr>) ob) s))))"

definition TransferLostAssociatedAccount :: "Codec \<Rightarrow> TxContext \<Rightarrow> StateDB \<Rightarrow> panic + StateDB" where
  "TransferLostAssociatedAccount cd ctx s =
     (case dec_Associated cd (tc_Data ctx) of
        None \<Rightarrow> Inr s
      | Some (lossAccount, associated) \<Rightarrow>
          (case getStateObject s lossAccount of
             None \<Rightarrow> Inr s
           | Some ob \<Rightarrow>
               (case (getStateObject s (la_LostAccount (so_lossAccount ob)),
                      getStateObject s (la_NewAccount (so_lossAccount ob))) of
                  (Some lostObj, Some benefitObj) \<Rightarrow>
                    (case tc_To ctx of
                       None \<Rightarrow> Inl PanicNilPointer
                     | Some to \<Rightarrow>
                         (case getStateObject s associated of
                            None \<Rightarrow> Inr s
                          | Some ao \<Rightarrow>
                              Inr (if to = SPECIAL_TRANSFER_LOST_PNS then
                                     journalled associated
                                       (modifyPnsOwnerChange associated (pa_Owner (so_pnsAccount ao)))
                                       (set_pns (\<lambda>p. p\<lparr>pa_Owner := so_address benefitObj\<rparr>) ao) s
                                   else if to = SPECIAL_TRANSFER_LOST_AUTHORIZE then
                                     journalled associated
                                       (modifyAuthorizeOwnerChange associated (aa_Owner (so_authorizeAccount ao)))
                                       (set_authorize (\<lambda>a. a\<lparr>aa_Owner := so_address benefitObj\<rparr>) ao) s
                                   else s)))
                | _ \<Rightarrow> Inr s)))"

definition RemoveLossReport :: "Codec \<Rightarrow> TxContext \<Rightarrow> StateDB \<Rightarrow> panic + StateDB" where
  "RemoveLossReport cd ctx s =
     (case dec_Address cd (tc_Data ctx) of
        None \<Rightarrow> Inr s
      | Some addr \<Rightarrow>
          (case getStateObject s addr of
             None \<Rightarrow> Inl PanicNilPointer
           | Some ob \<Rightarrow>
               bindE (updateLossMark (la_LastBits (so_lossAccount ob)) False s) (\<lambda>s.
                 bindE (AddBalance (tc_From ctx) (uint PLEDGE_OF_LOSS) s) (do_Suicide addr))))"

definition RejectLossReport :: "Codec \<Rightarrow> TxContext \<Rightarrow> StateDB \<Rightarrow> panic + StateDB" where
  "RejectLossReport cd ctx s =
     (case dec_Address cd (tc_Data ctx) of
        None \<Rightarrow> Inr s
      | Some addr \<Rightarrow>
          (case getStateObject s addr of
             None \<Rightarrow> Inl PanicNilPointer
           | Some ob \<Rightarrow>
               bindE (updateLossMark (la_LastBits (so_lossAccount ob)) False s) (\<lambda>s.
                 bindE (AddBalance (tc_From ctx) (uint PLEDGE_OF_LOSS)
                          (setRegularLossState (tc_From ctx) False s)) (do_Suicide addr))))"

definition CancellationLoss :: "Codec \<Rightarrow> TxContext \<Rightarrow> StateDB \<Rightarrow> panic + StateDB" where
  "CancellationLoss cd ctx s =
     (case dec_Address cd (tc_Data ctx) of
        None \<Rightarrow> Inr s
      | Some addr \<Rightarrow>
          (case getStateObject s addr of
             None \<Rightarrow> Inl PanicNilPointer
           | Some ob \<Rightarrow>
               (case getStateObject s (la_NewAccount (so_lossAccount ob)) of
                  None \<Rightarrow> Inr s
                | Some benefitObj \<Rightarrow>
                    bindE (AddBalance (la_NewAccount (so_lossAccount ob)) (uint (PLEDGE_OF_LOSS + PLEDGE_OF_REGULAR)) s) (\<lambda>s.
                      bindE (do_Suicide addr s) (do_Suicide (la_LostAccount (so_lossAccount ob)))))))"

section \<open>Name service and candidates\<close>

definition ModifyPnsOwner :: "Codec \<Rightarrow> TxContext \<Rightarrow> StateDB \<Rightarrow> panic + StateDB" where
  "ModifyPnsOwner cd ctx s =
     (case dec_PnsOwner cd (tc_Data ctx) of
        None \<Rightarrow> Inr s
      | Some (pnsAddress, ownerAddress) \<Rightarrow>
          (case getStateObject s pnsAddress of
             None \<Rightarrow> Inr s
           | Some ob \<Rightarrow>
               Inr (journalled pnsAddress (modifyPnsOwnerChange pnsAddress (pa_Owner (so_pnsAccount ob)))
                      (set_pns (\<lambda>p. p\<lparr>pa_Owner := ownerAddress\<rparr>) ob) s)))"

definition ModifyPnsContent :: "Codec \<Rightarrow> TxContext \<Rightarrow> StateDB \<Rightarrow> panic + StateDB" where
  "ModifyPnsContent cd ctx s =
     (case dec_PnsContent cd (tc_Data ctx) of
        None \<Rightarrow> Inr s
      | Some (pnsAddress, pnsType, pnsData) \<Rightarrow>
          (case getStateObject s pnsAddress of
             None \<Rightarrow> Inr s
           | Some ob \<Rightarrow>
               Inr (journalled pnsAddress
                      (modifyPnsContentChange pnsAddress (pa_Type (so_pnsAccount ob)) (pa_Data (so_pnsAccount ob)))
                      (set_pns (\<lambda>p. p\<lparr>pa_Type := pnsType, pa_Data := pnsData\<rparr>) ob) s)))"

definition BytesToValidatorEnode :: "bytes \<Rightarrow> bytes" where
  "BytesToValidatorEnode b =
     (let b = drop (length b - 256) b in replicate (256 - length b) 0 @ b)"

definition ApplyToBeDPoSNode :: "Codec \<Rightarrow> TxContext \<Rightarrow> StateDB \<Rightarrow> panic + StateDB" where
  "ApplyToBeDPoSNode cd ctx s =
     (case dec_ApplyDPos cd (tc_Data ctx) of
        None \<Rightarrow> Inr s
      | Some (voteAddress, nodeInfo) \<Rightarrow>
          (case getStateObject s voteAddress of
             None \<Rightarrow> Inr s
           | Some ob \<Rightarrow>
               let aa = so_authorizeAccount ob
               in case aa_VoteValue aa of
                    None \<Rightarrow> Inl PanicNilPointer
                  | Some vv \<Rightarrow>
                      let s = journal_append (dPosCandidateForAuthorizeChange voteAddress (aa_Info aa) vv) s;
                          candidate = \<lparr>dc_Enode = BytesToValidatorEnode nodeInfo, dc_Owner = aa_Owner aa,
                                       dc_VoteAccount = voteAddress, dc_VoteValue = Some vv\<rparr>
                      in bindE (get_or_create SPECIAL_DPOS ACC_TYPE_OF_DPOS s) (\<lambda>(vo, s).
                           let vl = so_validatorListAccount vo;
                               s = journal_append
                                     (dPosCandidateChange SPECIAL_DPOS (vl_ValidatorCandidates vl) (vl_RoundId vl)) s
                           in bindE (CalcValidatorRoundId (of_int (tc_BlockNumber ctx)) (tc_PobEpoch ctx)) (\<lambda>roundId.
                                let vl = (if roundId \<noteq> vl_RoundId vl
                                          then vl\<lparr>vl_ValidatorCandidates := [], vl_RoundId := roundId\<rparr> else vl)
                                in bindE (AddValidatorCandidate (vl_ValidatorCandidates vl) candidate) (\<lambda>cs.
                                     Inr (put_object SPECIAL_DPOS
                                            (vo\<lparr>so_validatorListAccount := vl\<lparr>vl_ValidatorCandidates := cs\<rparr>\<rparr>) s))))))"

definition GetValidatorCandidates :: "u64 \<Rightarrow> StateDB \<Rightarrow> panic + DPoSCandidateAccount list \<times> StateDB" where
  "GetValidatorCandidates roundId s =
     bindE (get_or_create SPECIAL_DPOS ACC_TYPE_OF_DPOS s) (\<lambda>(vo, s).
       Inr (if roundId = vl_RoundId (so_validatorListAccount vo)
            then vl_ValidatorCandidates (so_validatorListAccount vo) else [], s))"

section \<open>The dispatcher\<close>

definition CanTransfer :: "StateDB \<Rightarrow> address \<Rightarrow> int \<Rightarrow> panic + bool" where
  "CanTransfer s addr amount =
     (case GetBalance s addr of None \<Rightarrow> Inl PanicNilPointer | Some b \<Rightarrow> Inr (b \<ge> amount))"

text \<open>\<open>False\<close> is the error that the deposit is not enough.\<close>

definition ContractDeploy :: "address \<Rightarrow> StateDB \<Rightarrow> panic + bool \<times> StateDB" where
  "ContractDeploy sender s =
     (case GetBalance s sender of
        None \<Rightarrow> Inl PanicNilPointer
      | Some balance \<Rightarrow>
          if balance < 1 \<or> balance < uint PLEDGE_OF_CONTRACT then Inr (False, s)
          else bindE (SubBalance sender (uint PLEDGE_OF_CONTRACT) s) (\<lambda>s. Inr (True, s)))"

definition CallDB :: "Codec \<Rightarrow> TxContext \<Rightarrow> StateDB \<Rightarrow> panic + StateDB" where
  "CallDB cd ctx s =
     (case tc_To ctx of
        None \<Rightarrow> Inr s
      | Some to \<Rightarrow>
          if to \<in> {SPECIAL_REGISTER_PNS, SPECIAL_REGISTER_AUTHORIZE, SPECIAL_REGISTER_LOSE} then Register cd ctx s
          else if to = SPECIAL_CANCELLATION then Cancellation cd ctx s
          else if to = SPECIAL_CANCELLATION_LOST_ACCOUNT then CancellationLoss cd ctx s
          else if to = SPECIAL_REVEAL_LOSS_REPORT then RevealLossReport cd ctx s
          else if to = SPECIAL_TRANSFER_LOST_BALANCE then TransferLostAccount cd ctx s
          else if to = SPECIAL_REMOVE_LOSS_REPORT then RemoveLossReport cd ctx s
          else if to = SPECIAL_REJECT_LOSS_REPORT then RejectLossReport cd ctx s
          else if to = SPECIAL_VOTE then Vote cd ctx s
          else if to = SPECIAL_APPLY_TO_BE_DPOS_NODE then ApplyToBeDPoSNode cd ctx s
          else if to = SPECIAL_REDEMPTION then Redemption cd ctx s
          else if to = SPECIAL_MODIFY_PNS_OWNER then ModifyPnsOwner cd ctx s
          else if to = SPECIAL_MODIFY_PNS_CONTENT then ModifyPnsContent cd ctx s
          else if to = SPECIAL_MODIFY_LOSS_TYPE then ModifyLossType cd ctx s
          else if to \<in> {SPECIAL_TRANSFER_LOST_PNS, SPECIAL_TRANSFER_LOST_AUTHORIZE}
          then TransferLostAssociatedAccount cd ctx s
          else Transfer ctx s)"

section \<open>Balances\<close>

lemma getStateObject_put_if [simp]:
  "getStateObject (put_object a ob s) x =
     (if x = a then (if so_deleted ob then None else Some ob) else getStateObject s x)"
  by (simp add: getStateObject_def getDeletedStateObject_def put_object_def cong: option.case_cong)

definition bal :: "StateDB \<Rightarrow> address \<Rightarrow> int" where
  "bal s a = (case GetBalance s a of Some b \<Rightarrow> b | None \<Rightarrow> 0)"

text \<open>The sum of all balances; there are finitely many addresses.\<close>

definition total_balance :: "StateDB \<Rightarrow> int" where
  "total_balance s = (\<Sum>a \<in> UNIV. bal s a)"

text \<open>An account that can hold a balance: absent, or regular or contract with a value.\<close>

definition payable_object :: "stateObject \<Rightarrow> bool" where
  "payable_object ob \<longleftrightarrow> so_accountType ob \<in> {ACC_TYPE_OF_REGULAR, ACC_TYPE_OF_CONTRACT} \<and> Balance ob \<noteq> None"

definition payable :: "StateDB \<Rightarrow> address \<Rightarrow> bool" where
  "payable s a \<longleftrightarrow> (case getStateObject s a of None \<Rightarrow> True | Some ob \<Rightarrow> payable_object ob)"

lemma Balance_setBalance:
  "so_accountType ob \<in> {ACC_TYPE_OF_REGULAR, ACC_TYPE_OF_CONTRACT} \<Longrightarrow> Balance (setBalance v ob) = v"
  by (auto simp: Balance_def setBalance_def)

lemma newRegular_balance:
  "Balance (newRegularAccount a zeroRegular) = Some 0" "payable_object (newRegularAccount a zeroRegular)"
  "\<not> so_deleted (newRegularAccount a zeroRegular)" "so_address (newRegularAccount a zeroRegular) = a"
  by (simp_all add: newRegularAccount_def emptyObject_def zeroRegular_def nil_to_zero_def Balance_def
      payable_object_def)

lemma GetOrNew_payable:
  assumes "payable s a"
  obtains ob where "fst (GetOrNewStateObject a s) = Some ob" "payable_object ob" "\<not> so_deleted ob"
    "Balance ob = GetBalance s a" "\<And>x. x \<noteq> a \<Longrightarrow> getStateObject (snd (GetOrNewStateObject a s)) x = getStateObject s x"
    "getStateObject (snd (GetOrNewStateObject a s)) a = Some ob"
proof (cases "getStateObject s a")
  case None
  have g: "GetOrNewStateObject a s =
      (Some (newRegularAccount a zeroRegular), put_object a (newRegularAccount a zeroRegular)
         (journal_append (case getDeletedStateObject s a of None \<Rightarrow> createObjectChange a
                          | Some p \<Rightarrow> resetObjectChange p) s))"
    using None newRegular_balance(4) [of a]
    by (simp add: GetOrNewStateObject_def createObject_def createObjectByAccType_def newAccountDataByAddr_def
        Let_def setStateObject_put)
  show ?thesis
    using None newRegular_balance
    by (intro that [of "newRegularAccount a zeroRegular"]) (auto simp: g GetBalance_def)
next
  case (Some ob)
  then have "\<not> so_deleted ob" by (auto simp: getStateObject_def split: option.splits if_splits)
  then show ?thesis
    using Some assms
    by (intro that [of ob]) (auto simp: GetOrNewStateObject_def payable_def GetBalance_def)
qed

text \<open>The effect of setting the balance of a payable account.\<close>

definition sets_balance :: "address \<Rightarrow> int \<Rightarrow> StateDB \<Rightarrow> StateDB \<Rightarrow> bool" where
  "sets_balance a v s t \<longleftrightarrow> GetBalance t a = Some v \<and> payable t a \<and> getStateObject t a \<noteq> None \<and>
     (\<forall>x. x \<noteq> a \<longrightarrow> getStateObject t x = getStateObject s x)"

lemma change_balance:
  assumes "payable s a"
    and f: "\<And>ob s. payable_object ob \<Longrightarrow> \<not> so_deleted ob \<Longrightarrow> getStateObject s a = Some ob \<Longrightarrow>
      \<exists>t. f a ob s = Inr t \<and> sets_balance a (g (the (Balance ob))) s t"
  shows "\<exists>t. on_object f a s = Inr t \<and> sets_balance a (g (bal s a)) s t"
proof -
  obtain ob where ob: "fst (GetOrNewStateObject a s) = Some ob" "payable_object ob" "\<not> so_deleted ob"
    "Balance ob = GetBalance s a" "\<And>x. x \<noteq> a \<Longrightarrow> getStateObject (snd (GetOrNewStateObject a s)) x = getStateObject s x"
    "getStateObject (snd (GetOrNewStateObject a s)) a = Some ob"
    using GetOrNew_payable [OF assms(1)] by blast
  have "the (Balance ob) = bal s a"
    using ob(2,4) by (auto simp: bal_def payable_object_def split: option.splits)
  then show ?thesis
    using f [OF ob(2,3,6)] ob(1,5) by (auto simp: on_object_def Let_def sets_balance_def)
qed

lemma obj_SetBalance_effect:
  assumes "payable_object ob" and "\<not> so_deleted ob"
  shows "\<exists>t. obj_SetBalance a ob v s = Inr t \<and> sets_balance a v s t"
proof -
  obtain b where b: "Balance ob = Some b" using assms(1) by (auto simp: payable_object_def)
  have "payable_object (setBalance (Some v) ob)"
    using assms(1) Balance_setBalance [of ob "Some v"] by (simp add: payable_object_def)
  then show ?thesis
    using assms b Balance_setBalance [of ob "Some v"]
    by (auto simp: obj_SetBalance_def sets_balance_def GetBalance_def payable_def payable_object_def)
qed

lemma sets_balance_same:
  "payable_object ob \<Longrightarrow> getStateObject s a = Some ob \<Longrightarrow> sets_balance a (the (Balance ob)) s s"
  by (auto simp: sets_balance_def GetBalance_def payable_def payable_object_def)

lemma balance_effects:
  assumes "payable s a"
  shows "\<exists>t. AddBalance a v s = Inr t \<and> sets_balance a (bal s a + v) s t"
    and "\<exists>t. SubBalance a v s = Inr t \<and> sets_balance a (bal s a - v) s t"
    and "\<exists>t. SetBalance a v s = Inr t \<and> sets_balance a v s t"
proof -
  show "\<exists>t. AddBalance a v s = Inr t \<and> sets_balance a (bal s a + v) s t"
    unfolding AddBalance_def
  proof (rule change_balance [OF assms])
    fix ob s
    assume *: "payable_object ob" "\<not> so_deleted ob" "getStateObject s a = Some ob"
    show "\<exists>t. obj_AddBalance a ob v s = Inr t \<and> sets_balance a (the (Balance ob) + v) s t"
      using sets_balance_same [OF *(1,3)] obj_SetBalance_effect [OF *(1,2)] *(1)
      by (auto simp: obj_AddBalance_def payable_object_def)
  qed
  show "\<exists>t. SubBalance a v s = Inr t \<and> sets_balance a (bal s a - v) s t"
    unfolding SubBalance_def
  proof (rule change_balance [OF assms])
    fix ob s
    assume *: "payable_object ob" "\<not> so_deleted ob" "getStateObject s a = Some ob"
    show "\<exists>t. obj_SubBalance a ob v s = Inr t \<and> sets_balance a (the (Balance ob) - v) s t"
      using sets_balance_same [OF *(1,3)] obj_SetBalance_effect [OF *(1,2)] *(1)
      by (auto simp: obj_SubBalance_def payable_object_def)
  qed
  show "\<exists>t. SetBalance a v s = Inr t \<and> sets_balance a v s t"
    unfolding SetBalance_def
    using change_balance [OF assms, of "\<lambda>a ob. obj_SetBalance a ob v" "\<lambda>_. v"] obj_SetBalance_effect
    by blast
qed

lemma sets_balance_bal:
  assumes "sets_balance a v s t"
  shows "bal t x = (if x = a then v else bal s x)" "payable s x \<Longrightarrow> payable t x"
  using assms by (auto simp: sets_balance_def bal_def GetBalance_def payable_def)

lemma sets_balance_total:
  assumes "sets_balance a v s t"
  shows "total_balance t = total_balance s - bal s a + v"
proof -
  have "(\<Sum>x \<in> UNIV. bal t x) = bal t a + (\<Sum>x \<in> UNIV - {a}. bal t x)"
    by (rule sum.remove) simp_all
  moreover have "(\<Sum>x \<in> UNIV. bal s x) = bal s a + (\<Sum>x \<in> UNIV - {a}. bal s x)"
    by (rule sum.remove) simp_all
  moreover have "(\<Sum>x \<in> UNIV - {a}. bal t x) = (\<Sum>x \<in> UNIV - {a}. bal s x)"
    using sets_balance_bal(1) [OF assms] by (intro sum.cong) auto
  ultimately show ?thesis
    using sets_balance_bal(1) [OF assms, of a] by (simp add: total_balance_def)
qed

section \<open>Votes\<close>

definition votes :: "StateDB \<Rightarrow> address \<Rightarrow> int" where
  "votes s a = (case getStateObject s a of
     None \<Rightarrow> 0
   | Some ob \<Rightarrow> (case ra_VoteValue (so_regularAccount ob) of None \<Rightarrow> 0 | Some v \<Rightarrow> v))"

definition received_votes :: "StateDB \<Rightarrow> address \<Rightarrow> int option" where
  "received_votes s a = Option.bind (getStateObject s a) (\<lambda>ob. aa_VoteValue (so_authorizeAccount ob))"

definition vote_account :: "StateDB \<Rightarrow> address \<Rightarrow> address option" where
  "vote_account s a = map_option (\<lambda>ob. ra_VoteAccount (so_regularAccount ob)) (getStateObject s a)"

lemma SubBalance_existing:
  assumes "getStateObject s a = Some ob" and "payable_object ob" and "Balance ob = Some b" and "v \<noteq> 0"
  shows "SubBalance a v s = Inr (journalled a (balanceChange a b) (setBalance (Some (b - v)) ob) s)"
  using assms
  by (auto simp: SubBalance_def on_object_def GetOrNewStateObject_def obj_SubBalance_def obj_SetBalance_def
      payable_object_def journalled_def)

text \<open>The three changes of a vote, with the journal entry of each.\<close>

lemma Vote_existing:
  assumes "dec_Address cd (tc_Data ctx) = Some addr" and "tc_From ctx = from" and "from \<noteq> addr"
    and fo: "getStateObject s from = Some fo" "payable_object fo" "Balance fo = Some b"
    and ao: "getStateObject s addr = Some ao" "aa_VoteValue (so_authorizeAccount ao) = Some x"
    and v: "tc_Value ctx = v" "v \<noteq> 0"
  shows "Vote cd ctx s = Inr (
     journalled addr (voteValueForAuthorizeChange addr x)
       (set_authorize (\<lambda>a. a\<lparr>aa_VoteValue := Some (x + v)\<rparr>) ao)
       (journalled from (voteForRegularChange from (ra_VoteAccount (so_regularAccount fo)) (votes s from))
         (set_regular (\<lambda>r. r\<lparr>ra_VoteAccount := addr, ra_VoteValue := Some (v + votes s from)\<rparr>)
            (setBalance (Some (b - v)) fo))
         (journalled from (balanceChange from b) (setBalance (Some (b - v)) fo) s)))"
proof -
  have nd: "\<not> so_deleted fo" using fo(1) by (auto simp: getStateObject_def split: option.splits if_splits)
  have same: "ra_VoteValue (so_regularAccount (setBalance v' fo)) = ra_VoteValue (so_regularAccount fo)"
    "ra_VoteAccount (so_regularAccount (setBalance v' fo)) = ra_VoteAccount (so_regularAccount fo)" for v'
    by (simp_all add: setBalance_def)
  show ?thesis
    using assms(1-3) ao v nd fo SubBalance_existing [OF fo v(2)]
    by (simp add: Vote_def vote_from_def vote_to_def journalled_def votes_def same Let_def)
qed

lemma getStateObject_cong:
  "sd_db s = sd_db t \<Longrightarrow> sd_stateObjects s = sd_stateObjects t \<Longrightarrow> getStateObject s = getStateObject t"
  by (rule ext) (simp add: getStateObject_def getDeletedStateObject_def cong: option.case_cong)

lemma undirty_objects [simp]:
  "sd_db (undirty e s) = sd_db s" "sd_stateObjects (undirty e s) = sd_stateObjects s"
  by (simp_all add: undirty_def Let_def split: option.splits)

lemma getStateObject_journal_only [simp]:
  "getStateObject (undirty e s) = getStateObject s"
  "getStateObject (s\<lparr>sd_entries := es\<rparr>) = getStateObject s"
  "getStateObject (s\<lparr>sd_validRevisions := rs\<rparr>) = getStateObject s"
  "getStateObject (s\<lparr>sd_nextRevisionId := n\<rparr>) = getStateObject s"
  by (auto intro: getStateObject_cong)

section \<open>Properties\<close>

text \<open>
  C17. A transfer between accounts that can hold a balance succeeds and moves exactly the value: the
  sender pays it, an existing receiver gets all of it, a receiver that does not exist yet is created
  and gets the value less the pledge of 0.01 PRO (a negative balance when the value is smaller), no
  other account changes, and the sum of all balances is kept except for that pledge.
\<close>

theorem Transfer_moves_value:
  assumes "payable s (tc_From ctx)" and "tc_To ctx = Some to" and "payable s to"
    and "tc_Value ctx \<noteq> 0" and "tc_From ctx \<noteq> to"
  defines "fee \<equiv> (if getStateObject s to = None then uint PLEDGE_OF_REGULAR else 0)"
  shows "\<exists>t. Transfer ctx s = Inr t \<and>
           bal t (tc_From ctx) = bal s (tc_From ctx) - tc_Value ctx \<and>
           bal t to = bal s to + tc_Value ctx - fee \<and> Exist t to \<and>
           (\<forall>x. x \<noteq> tc_From ctx \<and> x \<noteq> to \<longrightarrow> getStateObject t x = getStateObject s x) \<and>
           total_balance t = total_balance s - fee"
proof -
  let ?v = "tc_Value ctx"
  obtain s1 where s1: "SubBalance (tc_From ctx) ?v s = Inr s1" "sets_balance (tc_From ctx) (bal s (tc_From ctx) - ?v) s s1"
    using balance_effects(2) [OF assms(1)] by blast
  have p: "payable s1 to" and b: "bal s1 to = bal s to"
    using sets_balance_bal [OF s1(2), of to] assms(3,5) by simp_all
  obtain t where t: "AddBalance to (?v - fee) s1 = Inr t" "sets_balance to (bal s1 to + (?v - fee)) s1 t"
    using balance_effects(1) [OF p] by blast
  have "Transfer ctx s = Inr t"
    using assms(2,4) s1(1) t(1)
    by (auto simp: Transfer_def fee_def)
  moreover have "bal t (tc_From ctx) = bal s (tc_From ctx) - ?v" "bal t to = bal s to + ?v - fee"
    using sets_balance_bal(1) [OF t(2)] sets_balance_bal(1) [OF s1(2)] assms(5) b by auto
  moreover have "total_balance t = total_balance s - fee"
    using sets_balance_total [OF s1(2)] sets_balance_total [OF t(2)] b by simp
  moreover have "Exist t to" using t(2) by (simp add: sets_balance_def Exist_def)
  ultimately show ?thesis
    using s1(2) t(2) by (auto simp: sets_balance_def)
qed

text \<open>A database with two regular accounts and one authorize account, for the examples.\<close>

definition exampleDatabase :: Database where
  "exampleDatabase = emptyDatabase\<lparr>db_account := (\<lambda>a.
     if a = 1 then Some (RegularData (zeroRegular\<lparr>ra_Value := Some 100, ra_VoteValue := Some 0\<rparr>))
     else if a = 2 then Some (AuthorizeData (zeroAuthorize\<lparr>aa_PledgeValue := Some 10, aa_VoteValue := Some 10,
                                aa_Owner := 9, aa_ValidPeriod := Some 50\<rparr>))
     else None)\<rparr>"

lemma example_objects:
  "getStateObject (NewStateDB exampleDatabase) 1 =
     Some (newRegularAccount 1 (zeroRegular\<lparr>ra_Value := Some 100, ra_VoteValue := Some 0\<rparr>))"
  "getStateObject (NewStateDB exampleDatabase) 2 =
     Some (newAuthorizeAccount 2 (zeroAuthorize\<lparr>aa_PledgeValue := Some 10, aa_VoteValue := Some 10,
             aa_Owner := 9, aa_ValidPeriod := Some 50\<rparr>))"
  "getStateObject (NewStateDB exampleDatabase) 3 = None"
  by (simp_all add: getStateObject_def getDeletedStateObject_def NewStateDB_def exampleDatabase_def
      emptyDatabase_def newAccountDataByAddr_def newRegularAccount_def newAuthorizeAccount_def emptyObject_def)

definition exampleContext :: "address \<Rightarrow> int \<Rightarrow> TxContext" where
  "exampleContext to v = \<lparr>tc_From = 1, tc_To = Some to, tc_Nonce = 0, tc_Value = v, tc_Data = [],
     tc_PobEpoch = 1, tc_BlockNumber = 1\<rparr>"

definition exampleCodec :: Codec where
  "exampleCodec = \<lparr>dec_Byte = (\<lambda>_. None), dec_Address = (\<lambda>_. Some 2), dec_Int_lenient = (\<lambda>_. 0),
     dec_RegisterLoss_lenient = (\<lambda>_. (0, 0)), dec_Cancellation = (\<lambda>_. None), dec_ApplyDPos = (\<lambda>_. None),
     dec_PnsOwner = (\<lambda>_. None), dec_PnsContent = (\<lambda>_. None), dec_RevealLoss = (\<lambda>_. None),
     dec_Associated = (\<lambda>_. None), cr_CreateAddress = (\<lambda>a n. a + 1), cr_CreatePNSAddress = (\<lambda>a d. a + 2)\<rparr>"

theorem Transfer_moves_value_witness:
  "\<exists>t. Transfer (exampleContext 3 40) (NewStateDB exampleDatabase) = Inr t \<and> bal t 1 = 60 \<and>
       bal t 3 = 40 - 10000000000000000"
proof -
  have p: "payable (NewStateDB exampleDatabase) 1" "payable (NewStateDB exampleDatabase) 3"
    by (simp_all add: payable_def example_objects payable_object_def newRegularAccount_def emptyObject_def
        Balance_def nil_to_zero_def)
  have b: "bal (NewStateDB exampleDatabase) 1 = 100" "bal (NewStateDB exampleDatabase) 3 = 0"
    by (simp_all add: bal_def GetBalance_def example_objects newRegularAccount_def emptyObject_def
        Balance_def nil_to_zero_def)
  show ?thesis
    using Transfer_moves_value [of "NewStateDB exampleDatabase" "exampleContext 3 40" 3] p b
    by (auto simp: exampleContext_def example_objects PLEDGE_OF_REGULAR_def)
qed

text \<open>
  C18. A vote turns balance into votes one for one: the voter's balance falls by the value and its
  votes rise by it, the authorize account receives it, no other account changes, and the sum of all
  balances falls by exactly the value.
\<close>

theorem Vote_moves_value:
  assumes "dec_Address cd (tc_Data ctx) = Some addr" and "tc_From ctx = from" and "from \<noteq> addr"
    and "getStateObject s from = Some fo" and "payable_object fo"
    and "received_votes s addr = Some x" and "tc_Value ctx \<noteq> 0"
  shows "\<exists>t. Vote cd ctx s = Inr t \<and> bal t from = bal s from - tc_Value ctx \<and>
           votes t from = votes s from + tc_Value ctx \<and> vote_account t from = Some addr \<and>
           received_votes t addr = Some (x + tc_Value ctx) \<and>
           (\<forall>a. a \<noteq> from \<and> a \<noteq> addr \<longrightarrow> getStateObject t a = getStateObject s a) \<and>
           total_balance t = total_balance s - tc_Value ctx"
proof -
  let ?v = "tc_Value ctx"
  obtain b where b: "Balance fo = Some b" using assms(5) by (auto simp: payable_object_def)
  obtain ao where ao: "getStateObject s addr = Some ao" "aa_VoteValue (so_authorizeAccount ao) = Some x"
    using assms(6) by (auto simp: received_votes_def bind_eq_Some_conv)
  have nd: "\<not> so_deleted fo" "\<not> so_deleted ao"
    using assms(4) ao(1) by (auto simp: getStateObject_def split: option.splits if_splits)
  obtain t where t: "Vote cd ctx s = Inr t" and
    eq: "t = journalled addr (voteValueForAuthorizeChange addr x)
       (set_authorize (\<lambda>a. a\<lparr>aa_VoteValue := Some (x + ?v)\<rparr>) ao)
       (journalled from (voteForRegularChange from (ra_VoteAccount (so_regularAccount fo)) (votes s from))
         (set_regular (\<lambda>r. r\<lparr>ra_VoteAccount := addr, ra_VoteValue := Some (?v + votes s from)\<rparr>)
            (setBalance (Some (b - ?v)) fo))
         (journalled from (balanceChange from b) (setBalance (Some (b - ?v)) fo) s))"
    using Vote_existing [OF assms(1-5) b ao refl assms(7)] by blast
  have ty: "so_accountType fo \<in> {ACC_TYPE_OF_REGULAR, ACC_TYPE_OF_CONTRACT}"
    using assms(5) by (simp add: payable_object_def)
  have objs: "getStateObject t a =
      (if a = addr then Some (set_authorize (\<lambda>a. a\<lparr>aa_VoteValue := Some (x + ?v)\<rparr>) ao)
       else if a = from then Some (set_regular (\<lambda>r. r\<lparr>ra_VoteAccount := addr, ra_VoteValue := Some (?v + votes s from)\<rparr>)
            (setBalance (Some (b - ?v)) fo))
       else getStateObject s a)" for a
    using nd by (simp add: eq journalled_def set_authorize_def set_regular_def)
  have bals: "Balance (set_regular (\<lambda>r. r\<lparr>ra_VoteAccount := addr, ra_VoteValue := Some w\<rparr>) (setBalance (Some y) fo)) = Some y"
    "Balance (set_authorize f ao) = Balance ao" for w y f
    using ty by (auto simp: Balance_def setBalance_def set_regular_def set_authorize_def)
  have sb: "bal t a = (if a = from then b - ?v else bal s a)" for a
    using objs assms(3) ao(1) by (auto simp: bal_def GetBalance_def bals)
  have bs: "bal s from = b" using assms(4) b by (simp add: bal_def GetBalance_def)
  have "total_balance t = total_balance s - ?v"
  proof -
    have "total_balance t = (\<Sum>a \<in> UNIV. bal s a - (if a = from then ?v else 0))"
      unfolding total_balance_def using sb bs by (intro sum.cong) auto
    then show ?thesis by (simp add: total_balance_def sum_subtractf)
  qed
  then show ?thesis
    using t objs sb bs assms(3)
    by (auto simp: votes_def [of t] received_votes_def vote_account_def set_authorize_def set_regular_def)
qed

theorem Vote_moves_value_witness:
  "\<exists>t. Vote exampleCodec (exampleContext SPECIAL_VOTE 40) (NewStateDB exampleDatabase) = Inr t \<and>
       bal t 1 = 60 \<and> votes t 1 = 40 \<and> received_votes t 2 = Some 50"
proof -
  have b: "bal (NewStateDB exampleDatabase) 1 = 100" "votes (NewStateDB exampleDatabase) 1 = 0"
    "received_votes (NewStateDB exampleDatabase) 2 = Some 10"
    by (simp_all add: bal_def GetBalance_def example_objects newRegularAccount_def emptyObject_def
        Balance_def nil_to_zero_def votes_def received_votes_def newAuthorizeAccount_def)
  have p: "payable_object (newRegularAccount 1 (zeroRegular\<lparr>ra_Value := Some 100, ra_VoteValue := Some 0\<rparr>))"
    by (simp add: payable_object_def newRegularAccount_def emptyObject_def Balance_def nil_to_zero_def)
  show ?thesis
    using Vote_moves_value [of exampleCodec "exampleContext SPECIAL_VOTE 40" 2 1, OF _ _ _ example_objects(1) p b(3)]
    by (auto simp: exampleContext_def exampleCodec_def b)
qed

text \<open>
  C19. Reverting a vote gives the voter its balance back but not the votes: after a snapshot, a vote
  and the revert to the snapshot, the balance and the votes of the authorize account are what they
  were, while the voter still holds the votes it cast. Redeeming them then pays the voter the value
  of the reverted vote a second time: its balance ends above where it started, by the value.
\<close>

theorem Vote_survives_revert:
  assumes "wf_state s" and "\<forall>r \<in> set (sd_validRevisions s). fst r < sd_nextRevisionId s"
    and "Snapshot s = (rid, s1)"
    and dec: "dec_Address cd (tc_Data ctx) = Some addr" and frm: "tc_From ctx = from" "from \<noteq> addr"
    and fo: "getStateObject s from = Some fo" "so_accountType fo = ACC_TYPE_OF_REGULAR"
      "ra_Value (so_regularAccount fo) = Some b"
    and ao: "getStateObject s addr = Some ao" "aa_VoteValue (so_authorizeAccount ao) = Some x"
      "aa_PledgeValue (so_authorizeAccount ao) = Some p" "aa_Owner (so_authorizeAccount ao) \<noteq> from"
    and v: "tc_Value ctx \<noteq> 0"
  shows "\<exists>t u r. Vote cd ctx s1 = Inr t \<and> RevertToSnapshot rid t = Inr u \<and>
           bal u from = bal s from \<and> received_votes u addr = received_votes s addr \<and>
           votes u from = votes s from + tc_Value ctx \<and> vote_account u from = Some addr \<and>
           Redemption cd ctx u = Inr r \<and> bal r from = bal s from + votes s from + tc_Value ctx"
proof -
  let ?v = "tc_Value ctx"
  have s1: "s1 = s\<lparr>sd_nextRevisionId := rid + 1, sd_validRevisions := sd_validRevisions s @ [(rid, length (sd_entries s))]\<rparr>"
    and rid: "rid = sd_nextRevisionId s"
    using assms(3) by (auto simp: Snapshot_def Let_def)
  have objs: "getStateObject s1 = getStateObject s" unfolding s1 by simp
  have nd: "\<not> so_deleted fo" "\<not> so_deleted ao"
    using fo(1) ao(1) by (auto simp: getStateObject_def split: option.splits if_splits)
  have fb: "Balance fo = Some b" "payable_object fo" using fo(2,3) by (simp_all add: Balance_def payable_object_def)
  have vs: "votes s1 from = votes s from" by (simp add: votes_def objs)
  let ?fo1 = "setBalance (Some (b - ?v)) fo"
  let ?fo2 = "set_regular (\<lambda>r. r\<lparr>ra_VoteAccount := addr, ra_VoteValue := Some (?v + votes s from)\<rparr>) ?fo1"
  let ?ao1 = "set_authorize (\<lambda>a. a\<lparr>aa_VoteValue := Some (x + ?v)\<rparr>) ao"
  let ?e1 = "balanceChange from b"
  let ?e2 = "voteForRegularChange from (ra_VoteAccount (so_regularAccount fo)) (votes s from)"
  let ?e3 = "voteValueForAuthorizeChange addr x"
  define t where "t = journalled addr ?e3 ?ao1 (journalled from ?e2 ?fo2 (journalled from ?e1 ?fo1 s1))"
  have vote: "Vote cd ctx s1 = Inr t"
    using Vote_existing [OF dec frm _ fb(2,1) _ ao(2) refl v, of s1] fo(1) ao(1)
    by (simp add: objs vs t_def)
  have ent: "sd_entries t = sd_entries s @ [?e1, ?e2, ?e3]" by (simp add: t_def journalled_def s1)
  have rev: "sd_validRevisions t = sd_validRevisions s @ [(rid, length (sd_entries s))]"
    by (simp add: t_def journalled_def s1)
  have tobj: "getStateObject t addr = Some ?ao1" "getStateObject t from = Some ?fo2"
    using nd frm(2) by (simp_all add: t_def journalled_def set_authorize_def set_regular_def)
  define u3 where "u3 = undirty ?e3 (put_object addr (set_authorize (\<lambda>a. a\<lparr>aa_VoteValue := Some x\<rparr>) ?ao1) t)"
  define u1 where "u1 = undirty ?e1 (put_object from (setBalance (Some b) ?fo2) (undirty ?e2 u3))"
  have undo: "undo [?e1, ?e2, ?e3] t = Inr u1"
    using tobj nd frm(2)
    by (simp add: undo_def modify_object_def touch_copy_def u1_def u3_def set_authorize_def set_regular_def)
  define u where "u = u1\<lparr>sd_entries := sd_entries s, sd_validRevisions := sd_validRevisions s\<rparr>"
  have keep: "sd_entries u1 = sd_entries t" "sd_validRevisions u1 = sd_validRevisions t"
    using undo_journal [OF undo] by simp_all
  have "takeWhile (\<lambda>r. fst r < rid) (sd_validRevisions t) = sd_validRevisions s"
    unfolding rev using assms(2) rid by (simp add: takeWhile_append2)
  then have revert: "RevertToSnapshot rid t = Inr u"
    using undo keep by (simp add: RevertToSnapshot_def journal_revert_def ent rev u_def Let_def)
  have uobj: "getStateObject u from = Some (setBalance (Some b) ?fo2)"
    "getStateObject u addr = Some (set_authorize (\<lambda>a. a\<lparr>aa_VoteValue := Some x\<rparr>) ?ao1)"
    using nd frm(2) by (simp_all add: u_def u1_def u3_def set_authorize_def set_regular_def)
  have ub: "bal u from = b" "bal s from = b" "votes u from = votes s from + ?v"
    using uobj fo fb by (simp_all add: bal_def GetBalance_def Balance_def setBalance_def set_regular_def votes_def [of u])
  have "\<exists>r. Redemption cd ctx u = Inr r \<and> bal r from = b + votes s from + ?v"
    using uobj nd fo(2) frm(2) ao
    by (simp add: Redemption_def dec frm(1) redeem_from_def RedemptionForAuthorize_def journalled_def
        set_authorize_def set_regular_def setBalance_def bal_def GetBalance_def Balance_def)
  then show ?thesis
    using vote revert ub uobj ao(1,2)
    by (auto simp: received_votes_def vote_account_def set_authorize_def set_regular_def setBalance_def)
qed

theorem Vote_survives_revert_witness:
  "\<exists>t u r. Vote exampleCodec (exampleContext SPECIAL_VOTE 40) (snd (Snapshot (NewStateDB exampleDatabase))) = Inr t \<and>
     RevertToSnapshot 0 t = Inr u \<and> bal u 1 = 100 \<and> votes u 1 = 40 \<and>
     Redemption exampleCodec (exampleContext SPECIAL_VOTE 40) u = Inr r \<and> bal r 1 = 140"
proof -
  let ?s = "NewStateDB exampleDatabase"
  have b: "bal ?s 1 = 100" "votes ?s 1 = 0"
    by (simp_all add: bal_def GetBalance_def example_objects newRegularAccount_def emptyObject_def
        Balance_def nil_to_zero_def votes_def)
  have snap: "Snapshot ?s = (0, snd (Snapshot ?s))" by (simp add: Snapshot_def NewStateDB_def)
  have c: "tc_From (exampleContext to v) = 1" "tc_Value (exampleContext to v) = v"
    "dec_Address exampleCodec d = Some 2" "sd_validRevisions ?s = []" for to v d
    by (simp_all add: exampleContext_def exampleCodec_def NewStateDB_def)
  have "\<exists>t u r. Vote exampleCodec (exampleContext SPECIAL_VOTE 40) (snd (Snapshot ?s)) = Inr t \<and>
     RevertToSnapshot 0 t = Inr u \<and> bal u 1 = bal ?s 1 \<and> received_votes u 2 = received_votes ?s 2 \<and>
     votes u 1 = votes ?s 1 + tc_Value (exampleContext SPECIAL_VOTE 40) \<and> vote_account u 1 = Some 2 \<and>
     Redemption exampleCodec (exampleContext SPECIAL_VOTE 40) u = Inr r \<and>
     bal r 1 = bal ?s 1 + votes ?s 1 + tc_Value (exampleContext SPECIAL_VOTE 40)"
    by (rule Vote_survives_revert [OF wf_NewStateDB _ snap c(3) c(1) _ example_objects(1) _ _ example_objects(2)])
      (simp_all add: c newRegularAccount_def newAuthorizeAccount_def emptyObject_def nil_to_zero_def)
  then show ?thesis by (simp add: b c) blast
qed

end
