(* ===== verification/Relay.thy ===== *)
theory Relay
  imports Behavior GoMap
begin

text \<open>
  The relay network of \<open>src/consensus/pob/relay_network.go\<close>: the agents a SmartLight node manages,
  the score of that management, and the assignment of agents to relays by XOR distance.
\<close>

section \<open>Relays\<close>

definition MaxAgentsPerRelay :: nat where "MaxAgentsPerRelay = 1000"

record RelayInfo =
  ri_ManagedAgents :: "address list"
  ri_AgentHeartbeatsRelayed :: u64
  ri_AgentAttestationsRelayed :: u64
  ri_AgentTasksAssigned :: u64
  ri_AgentTasksCompleted :: u64
  ri_InvalidAggregations :: u64
  ri_AgentDrops :: u64

definition NewRelayInfo :: RelayInfo where
  "NewRelayInfo = \<lparr>ri_ManagedAgents = [], ri_AgentHeartbeatsRelayed = 0, ri_AgentAttestationsRelayed = 0,
     ri_AgentTasksAssigned = 0, ri_AgentTasksCompleted = 0, ri_InvalidAggregations = 0, ri_AgentDrops = 0\<rparr>"

definition RelayInfo_AgentCount :: "RelayInfo \<Rightarrow> nat" where
  "RelayInfo_AgentCount r = length (ri_ManagedAgents r)"

definition AddAgent :: "RelayInfo \<Rightarrow> address \<Rightarrow> RelayInfo" where
  "AddAgent r agent =
     (if agent \<in> set (ri_ManagedAgents r) then r
      else r\<lparr>ri_ManagedAgents := ri_ManagedAgents r @ [agent]\<rparr>)"

definition RemoveAgent :: "RelayInfo \<Rightarrow> address \<Rightarrow> RelayInfo" where
  "RemoveAgent r agent = r\<lparr>ri_ManagedAgents := remove1 agent (ri_ManagedAgents r)\<rparr>"

definition HasAgent :: "RelayInfo \<Rightarrow> address \<Rightarrow> bool" where
  "HasAgent r agent = (agent \<in> set (ri_ManagedAgents r))"

section \<open>Management score\<close>

definition CalcAgentManagementScore :: "RelayInfo option \<Rightarrow> u64" where
  "CalcAgentManagementScore relay =
     (case relay of
        None \<Rightarrow> defaultInitialScore
      | Some r \<Rightarrow>
          if ri_ManagedAgents r = [] then defaultInitialScore
          else
            let agents = of_nat (length (ri_ManagedAgents r)) :: u64;
                totalExpected = agents * 10;
                heartbeatScore =
                  (if totalExpected > 0 \<and> ri_AgentHeartbeatsRelayed r < totalExpected
                   then ri_AgentHeartbeatsRelayed r * maxScore div totalExpected else maxScore);
                taskScore =
                  (if ri_AgentTasksAssigned r > 0
                   then ri_AgentTasksCompleted r * maxScore div ri_AgentTasksAssigned r else maxScore);
                totalAggregations = ri_AgentHeartbeatsRelayed r + ri_AgentAttestationsRelayed r;
                aggScore =
                  (if totalAggregations > 0 \<and> ri_InvalidAggregations r > 0
                   then (let errorRate = ri_InvalidAggregations r * maxScore div totalAggregations
                         in if errorRate > maxScore then 0 else maxScore - errorRate)
                   else maxScore);
                totalManaged = agents + ri_AgentDrops r;
                retentionScore =
                  (if totalManaged > 0 \<and> ri_AgentDrops r > 0
                   then (let dropRate = ri_AgentDrops r * maxScore div totalManaged
                         in if dropRate > maxScore then 0 else maxScore - dropRate)
                   else maxScore);
                score = (heartbeatScore * 40 + taskScore * 30 + aggScore * 20 + retentionScore * 10) div 100
            in if score > maxScore then maxScore else score)"

section \<open>Assignment\<close>

definition xorDistance :: "address \<Rightarrow> address \<Rightarrow> bytes" where
  "xorDistance a b = map2 (XOR) (addr_bytes a) (addr_bytes b)"

definition compareDist :: "bytes \<Rightarrow> bytes \<Rightarrow> int" where
  "compareDist a b = bytes_compare a b"

fun assign_loop :: "address \<Rightarrow> address \<Rightarrow> bytes \<Rightarrow> address list \<Rightarrow> address" where
  "assign_loop agentAddr bestRelay bestDist [] = bestRelay"
| "assign_loop agentAddr bestRelay bestDist (relay # rest) =
     (let dist = xorDistance agentAddr relay
      in if compareDist dist bestDist < 0 then assign_loop agentAddr relay dist rest
         else assign_loop agentAddr bestRelay bestDist rest)"

definition AssignRelay :: "address \<Rightarrow> address list \<Rightarrow> address \<times> bool" where
  "AssignRelay agentAddr relays =
     (case relays of
        [] \<Rightarrow> (0, False)
      | r # rest \<Rightarrow> (assign_loop agentAddr r (xorDistance agentAddr r) rest, True))"

text \<open>
  The insertion sort of \<open>RebalanceRelays\<close>: each element moves left past strictly greater ones. The
  sorted part is kept reversed, its last element first.
\<close>

definition insertion_sort :: "('a \<Rightarrow> 'a \<Rightarrow> bool) \<Rightarrow> 'a list \<Rightarrow> 'a list" where
  "insertion_sort lt xs = rev (fold (go_insert (\<lambda>y x. lt x y)) xs [])"

definition relays_by_distance :: "address \<Rightarrow> address list \<Rightarrow> address list" where
  "relays_by_distance agent relays =
     insertion_sort (\<lambda>r s. compareDist (xorDistance agent r) (xorDistance agent s) < 0) relays"

definition clear_agents :: "RelayInfo \<Rightarrow> RelayInfo" where
  "clear_agents info = info\<lparr>ri_ManagedAgents := []\<rparr>"

definition initial_info :: "(address, RelayInfo) gomap \<Rightarrow> address \<Rightarrow> RelayInfo" where
  "initial_info existing relay =
     (case gm_get existing relay of Some info \<Rightarrow> clear_agents info | None \<Rightarrow> NewRelayInfo)"

definition initial_relays ::
  "address list \<Rightarrow> (address, RelayInfo) gomap \<Rightarrow> (address, RelayInfo) entries" where
  "initial_relays relays existing =
     fold (\<lambda>relay result. AList.update relay (initial_info existing relay) result) relays []"

definition place_agent ::
  "address list \<Rightarrow> address \<Rightarrow> (address, RelayInfo) entries \<Rightarrow> (address, RelayInfo) entries" where
  "place_agent relays agent result =
     (let sorted = relays_by_distance agent relays;
          free = (\<lambda>r. case map_of result r of
                        Some info \<Rightarrow> RelayInfo_AgentCount info < MaxAgentsPerRelay | None \<Rightarrow> False);
          target = (case filter free sorted of r # _ \<Rightarrow> r | [] \<Rightarrow> hd sorted)
      in case map_of result target of
           Some info \<Rightarrow> AList.update target (AddAgent info agent) result
         | None \<Rightarrow> result)"

definition RebalanceRelays ::
  "address list \<Rightarrow> address list \<Rightarrow> (address, RelayInfo) gomap \<Rightarrow> (address, RelayInfo) entries" where
  "RebalanceRelays agents relays existing =
     (let result = initial_relays relays existing
      in if relays = [] then result else fold (place_agent relays) agents result)"

section \<open>XOR distance\<close>

lemma be_bytes_xor: "be_bytes n (v XOR w) = map2 (XOR) (be_bytes n v) (be_bytes n w)"
  by (induction n) (simp_all add: unsigned_xor_eq drop_bit_xor)

lemma xorDistance_bytes: "xorDistance a b = addr_bytes (a XOR b)"
  by (simp add: xorDistance_def addr_bytes_def be_bytes_xor)

lemma compareDist_xor:
  "compareDist (xorDistance a r) (xorDistance a s) < 0 \<longleftrightarrow> a XOR r < a XOR s"
  by (simp add: compareDist_def xorDistance_bytes bytes_compare_addr)

lemma xor_inj: "(a :: address) XOR r = a XOR s \<longleftrightarrow> r = s"
proof
  assume "a XOR r = a XOR s"
  then have "a XOR (a XOR r) = a XOR (a XOR s)" by (simp only:)
  then show "r = s" by (simp only: xor.assoc [symmetric] xor_self_eq xor.left_neutral)
qed simp

lemma assign_loop_min:
  "assign_loop a best (xorDistance a best) rest \<in> insert best (set rest) \<and>
   (\<forall>r \<in> insert best (set rest). a XOR assign_loop a best (xorDistance a best) rest \<le> a XOR r)"
proof (induction rest arbitrary: best)
  case Nil
  then show ?case by simp
next
  case (Cons x rest)
  show ?case
    using Cons [of x] Cons [of best] by (auto simp: Let_def compareDist_xor not_less)
qed

lemma insertion_sort_mset [simp]: "mset (insertion_sort lt xs) = mset xs"
proof -
  have "mset (fold (go_insert (\<lambda>y x. lt x y)) xs ys) = mset xs + mset ys" for ys
    by (induction xs arbitrary: ys) simp_all
  then show ?thesis by (simp add: insertion_sort_def)
qed

lemma set_insertion_sort [simp]: "set (insertion_sort lt xs) = set xs"
  by (metis insertion_sort_mset set_mset_mset)

lemma set_relays_by_distance [simp]: "set (relays_by_distance a rs) = set rs"
  by (simp add: relays_by_distance_def)

section \<open>Placing agents\<close>

definition managed :: "(address, RelayInfo) entries \<Rightarrow> address list" where
  "managed result = concat (map (ri_ManagedAgents \<circ> snd) result)"

lemma managed_update:
  assumes "map_of result r = Some info" and "agent \<notin> set (ri_ManagedAgents info)"
  shows "mset (managed (AList.update r (AddAgent info agent) result)) = add_mset agent (mset (managed result))"
  using assms by (induction result) (auto simp: managed_def AddAgent_def)

lemma managed_member:
  "map_of result r = Some info \<Longrightarrow> a \<in> set (ri_ManagedAgents info) \<Longrightarrow> a \<in> set (managed result)"
  by (force simp: managed_def dest: map_of_SomeD)

text \<open>How many agents there are at most, and at least, when no relay is overfull, or none has room.\<close>

lemma managed_Cons: "length (managed (e # result)) = length (ri_ManagedAgents (snd e)) + length (managed result)"
  by (simp add: managed_def)

lemma managed_at_most:
  "\<forall>e \<in> set result. length (ri_ManagedAgents (snd e)) \<le> k \<Longrightarrow> length (managed result) \<le> k * length result"
  by (induction result) (auto simp: managed_Cons, simp add: managed_def)

lemma managed_at_least:
  "\<forall>e \<in> set result. k \<le> length (ri_ManagedAgents (snd e)) \<Longrightarrow> k * length result \<le> length (managed result)"
  by (induction result) (auto simp: managed_Cons)

lemma managed_exceeds:
  "\<forall>e \<in> set result. k \<le> length (ri_ManagedAgents (snd e)) \<Longrightarrow> e \<in> set result \<Longrightarrow> k < length (ri_ManagedAgents (snd e)) \<Longrightarrow>
     k * length result < length (managed result)"
proof (induction result)
  case (Cons a result)
  then show ?case using managed_at_least [of result k] by (fastforce simp: managed_Cons)
qed simp

lemma entry_iff: "wf_entries m \<Longrightarrow> (k, v) \<in> set m \<longleftrightarrow> map_of m k = Some v"
  by (simp add: wf_entries_def keys_def)

text \<open>No relay is overfull while another has room.\<close>

definition spread :: "(address, RelayInfo) entries \<Rightarrow> bool" where
  "spread result \<longleftrightarrow>
     (\<forall>r i. map_of result r = Some i \<longrightarrow> length (ri_ManagedAgents i) \<le> MaxAgentsPerRelay) \<or>
     (\<forall>r i. map_of result r = Some i \<longrightarrow> MaxAgentsPerRelay \<le> length (ri_ManagedAgents i))"

lemma spread_counts:
  assumes "wf_entries result" and "spread result" and "map_of result r = Some i"
  shows "if length (managed result) \<le> MaxAgentsPerRelay * length result then length (ri_ManagedAgents i) \<le> MaxAgentsPerRelay
         else MaxAgentsPerRelay \<le> length (ri_ManagedAgents i)"
proof -
  have mem: "(r, i) \<in> set result" using assms(1,3) by (simp add: entry_iff)
  consider "\<forall>e \<in> set result. length (ri_ManagedAgents (snd e)) \<le> MaxAgentsPerRelay"
    | "\<forall>e \<in> set result. MaxAgentsPerRelay \<le> length (ri_ManagedAgents (snd e))"
    using assms(1,2) by (force simp: spread_def entry_iff)
  then show ?thesis
  proof cases
    case 1
    then show ?thesis using managed_at_most [OF 1] mem by auto
  next
    case 2
    then show ?thesis using managed_exceeds [OF 2 mem] mem by (auto simp: not_less [symmetric])
  qed
qed

text \<open>The invariant of the assignment loop.\<close>

definition placed ::
  "address list \<Rightarrow> (address, RelayInfo) gomap \<Rightarrow> address list \<Rightarrow> (address, RelayInfo) entries \<Rightarrow> bool" where
  "placed relays existing seen result \<longleftrightarrow> wf_entries result \<and> set (keys result) = set relays \<and>
     mset (managed result) = mset seen \<and>
     (\<forall>r info. map_of result r = Some info \<longrightarrow> clear_agents info = initial_info existing r) \<and> spread result"

lemma initial_info_simps [simp]:
  "ri_ManagedAgents (initial_info existing r) = []"
  "clear_agents (initial_info existing r) = initial_info existing r"
  by (auto simp: initial_info_def clear_agents_def NewRelayInfo_def split: option.splits)

lemma fold_update_entries:
  "wf_entries m \<Longrightarrow> wf_entries (fold (\<lambda>k. AList.update k (f k)) ks m)"
  "set (keys (fold (\<lambda>k. AList.update k (f k)) ks m)) = set (keys m) \<union> set ks"
  "map_of (fold (\<lambda>k. AList.update k (f k)) ks m) k = (if k \<in> set ks then Some (f k) else map_of m k)"
  by (induction ks arbitrary: m) (auto simp: keys_update)

lemma placed_initial: "placed relays existing [] (initial_relays relays existing)"
proof -
  have wf: "wf_entries (initial_relays relays existing)"
    and ks: "set (keys (initial_relays relays existing)) = set relays"
    and info: "map_of (initial_relays relays existing) r = Some info \<Longrightarrow> info = initial_info existing r" for r info
    by (auto simp: initial_relays_def fold_update_entries split: if_splits)
  have "ri_ManagedAgents info = []" if "(r, info) \<in> set (initial_relays relays existing)" for r info
    using wf info [of r info] that by (simp add: wf_entries_def keys_def)
  then have "managed (initial_relays relays existing) = []"
    by (auto simp: managed_def)
  then show ?thesis using wf ks by (auto simp: placed_def spread_def dest!: info)
qed

text \<open>The relay an agent goes to has room, unless all are full.\<close>

lemma place_agent_target:
  assumes "set (keys result) = set relays" and "relays \<noteq> []"
  shows "\<exists>t it. map_of result t = Some it \<and> place_agent relays agent result = AList.update t (AddAgent it agent) result \<and>
    (length (ri_ManagedAgents it) < MaxAgentsPerRelay \<or>
     (\<forall>r i. map_of result r = Some i \<longrightarrow> MaxAgentsPerRelay \<le> length (ri_ManagedAgents i)))"
proof -
  let ?sorted = "relays_by_distance agent relays"
  let ?free = "\<lambda>r. case map_of result r of
      Some info \<Rightarrow> RelayInfo_AgentCount info < MaxAgentsPerRelay | None \<Rightarrow> False"
  show ?thesis
  proof (cases "filter ?free ?sorted")
    case (Cons t ts)
    then have "t \<in> set (filter ?free ?sorted)" by simp
    then obtain it where "map_of result t = Some it" "length (ri_ManagedAgents it) < MaxAgentsPerRelay"
      by (auto simp: RelayInfo_AgentCount_def split: option.splits)
    then show ?thesis using Cons by (intro exI [of _ t] exI [of _ it]) (simp add: place_agent_def)
  next
    case Nil
    have "?sorted \<noteq> []" using assms(2) set_relays_by_distance [of agent relays] by (metis set_empty)
    then have "hd ?sorted \<in> set (keys result)" using assms(1) set_relays_by_distance [of agent relays] by (metis hd_in_set)
    then obtain it where it: "map_of result (hd ?sorted) = Some it" by (auto simp: in_keys_iff)
    have "MaxAgentsPerRelay \<le> length (ri_ManagedAgents i)" if i: "map_of result r = Some i" for r i
    proof -
      have "r \<in> set (keys result)" using i by (simp add: in_keys_iff)
      then have "r \<in> set ?sorted" using assms(1) by simp
      then have "\<not> ?free r" using Nil by (auto simp: filter_empty_conv)
      then show ?thesis using i by (simp add: RelayInfo_AgentCount_def)
    qed
    then show ?thesis using Nil it by (intro exI [of _ "hd ?sorted"] exI [of _ it]) (simp add: place_agent_def)
  qed
qed

lemma placed_step:
  assumes P: "placed relays existing seen result" and new: "agent \<notin> set seen" and ne: "relays \<noteq> []"
  shows "placed relays existing (agent # seen) (place_agent relays agent result)"
proof -
  have wf: "wf_entries result" and ks: "set (keys result) = set relays" and m: "mset (managed result) = mset seen"
    and info: "\<And>r i. map_of result r = Some i \<Longrightarrow> clear_agents i = initial_info existing r" and sp: "spread result"
    using P unfolding placed_def by blast+
  obtain t it where it: "map_of result t = Some it" "place_agent relays agent result = AList.update t (AddAgent it agent) result"
      "length (ri_ManagedAgents it) < MaxAgentsPerRelay \<or>
       (\<forall>r i. map_of result r = Some i \<longrightarrow> MaxAgentsPerRelay \<le> length (ri_ManagedAgents i))"
    using place_agent_target [OF ks ne] by blast
  have fresh: "agent \<notin> set (ri_ManagedAgents it)"
    using new managed_member [OF it(1)] m by (metis set_mset_mset)
  then have len: "length (ri_ManagedAgents (AddAgent it agent)) = Suc (length (ri_ManagedAgents it))"
    and clear: "clear_agents (AddAgent it agent) = clear_agents it"
    by (simp_all add: AddAgent_def clear_agents_def)
  let ?u = "AList.update t (AddAgent it agent) result"
  have at: "map_of ?u r = (if r = t then Some (AddAgent it agent) else map_of result r)" for r
    by (simp add: update_conv')
  have "spread ?u"
  proof (cases "\<forall>r i. map_of result r = Some i \<longrightarrow> MaxAgentsPerRelay \<le> length (ri_ManagedAgents i)")
    case True
    then have "MaxAgentsPerRelay \<le> length (ri_ManagedAgents it)" using it(1) by blast
    then show ?thesis using True len unfolding spread_def at by auto
  next
    case False
    then have "length (ri_ManagedAgents it) < MaxAgentsPerRelay" using it(3) by blast
    moreover have "\<forall>r i. map_of result r = Some i \<longrightarrow> length (ri_ManagedAgents i) \<le> MaxAgentsPerRelay"
      using False sp unfolding spread_def by blast
    ultimately show ?thesis using len unfolding spread_def at by auto
  qed
  moreover have "clear_agents i = initial_info existing r" if "map_of ?u r = Some i" for r i
    using that info [of r i] info [OF it(1)] clear by (auto simp: at split: if_splits)
  moreover have "set (keys ?u) = set relays" using it(1) ks in_keys_iff [of t result] by (auto simp: keys_update)
  ultimately show ?thesis
    using wf_entries_update [OF wf] managed_update [OF it(1) fresh] m unfolding placed_def it(2) by simp
qed

lemma placed_fold:
  assumes "placed relays existing seen result" and "distinct (rev agents @ seen)" and "relays \<noteq> []"
  shows "placed relays existing (rev agents @ seen) (fold (place_agent relays) agents result)"
  using assms
proof (induction agents arbitrary: seen result)
  case Nil
  then show ?case by simp
next
  case (Cons a agents)
  have "placed relays existing (a # seen) (place_agent relays a result)"
    using Cons.prems by (intro placed_step) auto
  from Cons.IH [OF this] Cons.prems show ?case by simp
qed

section \<open>Properties\<close>

text \<open>
  C32. \<open>AssignRelay\<close> returns the one relay whose XOR distance to the agent, read as a number, is the
  smallest; it fails only without relays. The answer depends on the set of relays alone, so it does
  not matter in which order the map of relays is visited.
\<close>

theorem AssignRelay_nearest:
  assumes "relays \<noteq> []"
  shows "\<exists>r. AssignRelay a relays = (r, True) \<and> r \<in> set relays \<and>
           (\<forall>s \<in> set relays. s \<noteq> r \<longrightarrow> a XOR r < a XOR s) \<and>
           (\<forall>relays'. set relays' = set relays \<longrightarrow> AssignRelay a relays' = (r, True))"
proof -
  have near: "\<exists>r. AssignRelay a rs = (r, True) \<and> r \<in> set rs \<and> (\<forall>s \<in> set rs. a XOR r \<le> a XOR s)"
    if "rs \<noteq> []" for rs
    using that assign_loop_min [of a "hd rs" "tl rs"] by (cases rs) (auto simp: AssignRelay_def)
  obtain r where r: "AssignRelay a relays = (r, True)" "r \<in> set relays" "\<forall>s \<in> set relays. a XOR r \<le> a XOR s"
    using near [OF assms] by blast
  have strict: "a XOR r < a XOR s" if "s \<in> set relays" "s \<noteq> r" for s
    using r(3) that xor_inj [of a r s] by (metis order_le_neq_trans)
  have "AssignRelay a relays' = (r, True)" if same: "set relays' = set relays" for relays'
  proof -
    have "relays' \<noteq> []" using same assms by auto
    then obtain r' where r': "AssignRelay a relays' = (r', True)" "r' \<in> set relays"
      "\<forall>s \<in> set relays. a XOR r' \<le> a XOR s"
      using near [of relays'] same by auto
    then have "r' = r" using strict [of r'] r(2) by (metis linorder_not_less)
    then show ?thesis using r'(1) by simp
  qed
  then show ?thesis using r(1,2) strict by blast
qed

theorem AssignRelay_nearest_witness:
  "AssignRelay 5 [8, 4, 1] = (4, True) \<and> AssignRelay 5 [1, 4, 8, 4] = (4, True)"
proof -
  have "AssignRelay 5 [8, 4, 1] = (4, True)"
    by (simp add: AssignRelay_def compareDist_xor)
  moreover have "set [1, 4, 8, 4] = set [8, 4, 1 :: address]" by auto
  ultimately show ?thesis using AssignRelay_nearest [of "[8, 4, 1]" 5] by (metis list.distinct(1) prod.inject)
qed

text \<open>
  C33. Rebalancing pairwise different agents over at least one relay puts every agent on exactly one
  relay and keeps the statistics each relay had; the relays of the result are exactly the relays
  given. If the relays have room for all agents, 1000 each, none gets more than 1000; if they have not, the
  agents left over go beyond the limit, and then every relay has at least 1000.
\<close>

theorem RebalanceRelays_places_all:
  assumes "relays \<noteq> []" and "distinct agents"
  shows "set (keys (RebalanceRelays agents relays existing)) = set relays \<and>
         mset (managed (RebalanceRelays agents relays existing)) = mset agents \<and>
         (\<forall>r info. map_of (RebalanceRelays agents relays existing) r = Some info \<longrightarrow>
            clear_agents info = initial_info existing r \<and>
            (if length agents \<le> 1000 * card (set relays) then length (ri_ManagedAgents info) \<le> 1000
             else 1000 \<le> length (ri_ManagedAgents info)))"
proof -
  let ?R = "RebalanceRelays agents relays existing"
  have "placed relays existing (rev agents @ []) (fold (place_agent relays) agents (initial_relays relays existing))"
    using placed_initial assms by (intro placed_fold) simp_all
  moreover have "?R = fold (place_agent relays) agents (initial_relays relays existing)"
    using assms(1) by (simp add: RebalanceRelays_def)
  ultimately have R: "wf_entries ?R" "set (keys ?R) = set relays" "mset (managed ?R) = mset agents" "spread ?R"
      "\<forall>r info. map_of ?R r = Some info \<longrightarrow> clear_agents info = initial_info existing r"
    by (simp_all add: placed_def)
  have n: "length ?R = card (set relays)" "length (managed ?R) = length agents"
    using R(1,2) distinct_card [of "keys ?R"] mset_eq_length [OF R(3)] by (simp_all add: wf_entries_def keys_def)
  then show ?thesis using R spread_counts [OF R(1,4)] unfolding n MaxAgentsPerRelay_def by auto
qed

theorem RebalanceRelays_places_all_witness:
  "mset (managed (RebalanceRelays [1, 2, 3] [8, 4] NilMap)) = mset [1, 2, 3]"
proof -
  have "[8, 4 :: address] \<noteq> []" "distinct [1, 2, 3 :: address]" by simp_all
  from RebalanceRelays_places_all [OF this, of NilMap] show ?thesis by blast
qed

end
