(* ===== verification/RLP.thy ===== *)
theory RLP
  imports Prelude
begin

text \<open>
  Recursive length prefix encoding: the encoding buffer of \<open>src/rlp/encode.go\<close> and the splitting
  functions of \<open>src/rlp/raw.go\<close>.

  The encoder writes every string into one buffer and keeps the list headers, whose sizes it only
  knows at the end of a list, in a separate stack; \<open>toBytes\<close> merges the two. \<open>enc\<close> is the reference
  definition by recursion on the value, and the buffer is proved to compute it. A value is what the
  reflective writers of \<open>encode.go\<close> dispatch on: a byte string (slice, array or Go string), an
  unsigned integer, a big integer or a list (slice or struct). A Go \<open>int\<close> that counts bytes is a
  \<open>nat\<close>.
\<close>

section \<open>Integers\<close>

definition putint :: "u64 \<Rightarrow> bytes" where
  "putint i =
     (if i < 0x100 then be_bytes 1 i
      else if i < 0x10000 then be_bytes 2 i
      else if i < 0x1000000 then be_bytes 3 i
      else if i < 0x100000000 then be_bytes 4 i
      else if i < 0x10000000000 then be_bytes 5 i
      else if i < 0x1000000000000 then be_bytes 6 i
      else if i < 0x100000000000000 then be_bytes 7 i
      else be_bytes 8 i)"

lemma unat_drop_byte: "unat (drop_bit 8 w :: 'a::len word) = unat w div 256"
  by (simp only: unat_drop_bit_eq) (simp add: drop_bit_eq_div)

function intsize_loop :: "nat \<Rightarrow> u64 \<Rightarrow> nat" where
  "intsize_loop sz i =
     (let i' = drop_bit 8 i in if i' = 0 then sz else intsize_loop (sz + 1) i')"
  by auto
termination
proof (relation "measure (\<lambda>(sz, i). unat i)")
  fix i i' :: u64 and sz :: nat
  assume i': "i' = drop_bit 8 i" and nz: "i' \<noteq> 0"
  have "unat i' = unat i div 256" using i' by (simp add: unat_drop_byte)
  moreover have "unat i' \<noteq> 0" using nz by (simp add: unat_eq_0)
  ultimately have "unat i' < unat i" by auto
  then show "((sz + 1, i'), (sz, i)) \<in> measure (\<lambda>(sz, i). unat i)" by simp
qed simp

declare intsize_loop.simps [simp del]

definition intsize :: "u64 \<Rightarrow> nat" where
  "intsize i = intsize_loop 1 i"

definition headsize :: "u64 \<Rightarrow> nat" where
  "headsize sz = (if sz < 56 then 1 else 1 + intsize sz)"

definition puthead :: "byte \<Rightarrow> byte \<Rightarrow> u64 \<Rightarrow> bytes" where
  "puthead smalltag largetag sz =
     (if sz < 56 then [smalltag + ucast sz]
      else (let b = putint sz in (largetag + of_nat (length b)) # b))"

definition ListSize :: "u64 \<Rightarrow> u64" where
  "ListSize contentSize = of_nat (headsize contentSize) + contentSize"

definition IntSize :: "u64 \<Rightarrow> nat" where
  "IntSize x = (if x < 0x80 then 1 else 1 + intsize x)"

section \<open>The encoding buffer\<close>

record listhead =
  lh_offset :: nat
  lh_size :: nat

record encbuf =
  eb_str :: bytes
  eb_lheads :: "listhead list"
  eb_lhsize :: nat

definition eb_reset :: encbuf where
  "eb_reset = \<lparr>eb_str = [], eb_lheads = [], eb_lhsize = 0\<rparr>"

definition listhead_encode :: "listhead \<Rightarrow> bytes" where
  "listhead_encode h = puthead 0xC0 0xF7 (of_nat (lh_size h))"

definition eb_append :: "bytes \<Rightarrow> encbuf \<Rightarrow> encbuf" where
  "eb_append b w = w\<lparr>eb_str := eb_str w @ b\<rparr>"

definition encodeStringHeader :: "nat \<Rightarrow> encbuf \<Rightarrow> encbuf" where
  "encodeStringHeader sz w =
     (if sz < 56 then eb_append [0x80 + of_nat sz] w
      else (let b = putint (of_nat sz) in eb_append ((0xB7 + of_nat (length b)) # b) w))"

definition encodeString :: "bytes \<Rightarrow> encbuf \<Rightarrow> encbuf" where
  "encodeString b w =
     (if length b = 1 \<and> hd b \<le> 0x7F then eb_append [hd b] w
      else eb_append b (encodeStringHeader (length b) w))"

definition encodeUint :: "u64 \<Rightarrow> encbuf \<Rightarrow> encbuf" where
  "encodeUint i w =
     (if i = 0 then eb_append [0x80] w
      else if i < 128 then eb_append [ucast i] w
      else (let b = putint i in eb_append ((0x80 + of_nat (length b)) # b) w))"

definition eb_size :: "encbuf \<Rightarrow> nat" where
  "eb_size w = length (eb_str w) + eb_lhsize w"

definition eb_list :: "encbuf \<Rightarrow> nat \<times> encbuf" where
  "eb_list w =
     (length (eb_lheads w),
      w\<lparr>eb_lheads := eb_lheads w @ [\<lparr>lh_offset = length (eb_str w), lh_size = eb_lhsize w\<rparr>]\<rparr>)"

definition listEnd :: "nat \<Rightarrow> encbuf \<Rightarrow> encbuf" where
  "listEnd index w =
     (let lh = eb_lheads w ! index;
          sz = eb_size w - lh_offset lh - lh_size lh
      in w\<lparr>eb_lheads := (eb_lheads w)[index := lh\<lparr>lh_size := sz\<rparr>],
           eb_lhsize := (if sz < 56 then eb_lhsize w + 1
                         else eb_lhsize w + (1 + intsize (of_nat sz)))\<rparr>)"

fun toBytes_loop :: "bytes \<Rightarrow> nat \<Rightarrow> listhead list \<Rightarrow> bytes" where
  "toBytes_loop str strpos [] = drop strpos str"
| "toBytes_loop str strpos (h # hs) =
     take (lh_offset h - strpos) (drop strpos str) @ listhead_encode h @ toBytes_loop str (lh_offset h) hs"

definition toBytes :: "encbuf \<Rightarrow> bytes" where
  "toBytes w = toBytes_loop (eb_str w) 0 (eb_lheads w)"

section \<open>Writers\<close>

datatype rlp_value = RStr bytes | RUint u64 | RBig int | RList "rlp_value list"

text \<open>\<open>big.Int.BitLen\<close>.\<close>

fun bitlen :: "nat \<Rightarrow> nat" where
  "bitlen n = (if n = 0 then 0 else Suc (bitlen (n div 2)))"

declare bitlen.simps [simp del]

definition writeBigInt :: "int \<Rightarrow> encbuf \<Rightarrow> encbuf option" where
  "writeBigInt i w =
     (if i < 0 then None
      else if bitlen (nat i) \<le> 64 then Some (encodeUint (word_of_int i) w)
      else let len = (bitlen (nat i) + 7) div 8
           in Some (eb_append (map (\<lambda>k. of_nat (nat i div 256 ^ k)) (rev [0..<len]))
                      (encodeStringHeader len w)))"

fun write_value :: "rlp_value \<Rightarrow> encbuf \<Rightarrow> encbuf option"
  and write_values :: "rlp_value list \<Rightarrow> encbuf \<Rightarrow> encbuf option" where
  "write_value (RStr b) w = Some (encodeString b w)"
| "write_value (RUint i) w = Some (encodeUint i w)"
| "write_value (RBig i) w = writeBigInt i w"
| "write_value (RList xs) w =
     (case eb_list w of (index, w1) \<Rightarrow>
        (case write_values xs w1 of None \<Rightarrow> None | Some w2 \<Rightarrow> Some (listEnd index w2)))"
| "write_values [] w = Some w"
| "write_values (x # xs) w =
     (case write_value x w of None \<Rightarrow> None | Some w1 \<Rightarrow> write_values xs w1)"

text \<open>\<open>None\<close> is the error for a negative big integer.\<close>

definition EncodeToBytes :: "rlp_value \<Rightarrow> bytes option" where
  "EncodeToBytes x = (case write_value x eb_reset of None \<Rightarrow> None | Some w \<Rightarrow> Some (toBytes w))"

section \<open>Splitting encoded data\<close>

datatype rlp_kind = Byte_kind | String_kind | List_kind

datatype rlp_error =
  ErrUnexpectedEOF | ErrCanonSize | ErrValueTooLarge | ErrExpectedString | ErrExpectedList |
  ErrCanonInt | ErrUintOverflow

text \<open>A size of no byte at all (\<open>slen\<close> 0) does not occur; it would index an empty slice.\<close>

definition readSize :: "bytes \<Rightarrow> nat \<Rightarrow> rlp_error + u64" where
  "readSize b slen =
     (if slen > length b then Inl ErrUnexpectedEOF
      else let s = (if 1 \<le> slen \<and> slen \<le> 8 then be_word (take slen b) else 0) :: u64
           in if s < 56 \<or> hd b = 0 then Inl ErrCanonSize else Inr s)"

text \<open>The switch of \<open>readKind\<close> over the first byte: kind, tag size and content size.\<close>

definition read_tag :: "byte \<Rightarrow> bytes \<Rightarrow> rlp_error + rlp_kind \<times> u64 \<times> u64" where
  "read_tag b rest =
     (if b < 0x80 then Inr (Byte_kind, 0, 1)
      else if b < 0xB8 then
        (let contentsize = ucast (b - 0x80) :: u64
         in if contentsize = 1 \<and> rest \<noteq> [] \<and> hd rest < 128 then Inl ErrCanonSize
            else Inr (String_kind, 1, contentsize))
      else if b < 0xC0 then
        bindE (readSize rest (unat (b - 0xB7))) (\<lambda>sz. Inr (String_kind, ucast (b - 0xB7) + 1, sz))
      else if b < 0xF8 then Inr (List_kind, 1, ucast (b - 0xC0))
      else
        bindE (readSize rest (unat (b - 0xF7))) (\<lambda>sz. Inr (List_kind, ucast (b - 0xF7) + 1, sz)))"

definition readKind :: "bytes \<Rightarrow> rlp_error + rlp_kind \<times> u64 \<times> u64" where
  "readKind buf =
     (case buf of
        [] \<Rightarrow> Inl ErrUnexpectedEOF
      | b # rest \<Rightarrow>
          bindE (read_tag b rest)
            (\<lambda>(k, tagsize, contentsize).
               if contentsize > of_nat (length buf) - tagsize then Inl ErrValueTooLarge
               else Inr (k, tagsize, contentsize)))"

definition Split :: "bytes \<Rightarrow> rlp_error + rlp_kind \<times> bytes \<times> bytes" where
  "Split b =
     bindE (readKind b)
       (\<lambda>(k, ts, cs). Inr (k, take (unat cs) (drop (unat ts) b), drop (unat ts + unat cs) b))"

definition SplitString :: "bytes \<Rightarrow> rlp_error + bytes \<times> bytes" where
  "SplitString b =
     bindE (Split b)
       (\<lambda>(k, content, rest). if k = List_kind then Inl ErrExpectedString else Inr (content, rest))"

definition SplitUint64 :: "bytes \<Rightarrow> rlp_error + u64 \<times> bytes" where
  "SplitUint64 b =
     bindE (SplitString b)
       (\<lambda>(content, rest).
          if length content = 0 then Inr (0, rest)
          else if length content = 1 then
            (if hd content = 0 then Inl ErrCanonInt else Inr (ucast (hd content), rest))
          else if length content > 8 then Inl ErrUintOverflow
          else (case readSize content (length content) of
                  Inl e \<Rightarrow> Inl ErrCanonInt
                | Inr x \<Rightarrow> Inr (x, rest)))"

definition SplitList :: "bytes \<Rightarrow> rlp_error + bytes \<times> bytes" where
  "SplitList b =
     bindE (Split b)
       (\<lambda>(k, content, rest). if k \<noteq> List_kind then Inl ErrExpectedList else Inr (content, rest))"

text \<open>The loop of \<open>CountValues\<close> drops at least one byte in each round, so the length is fuel enough.\<close>

fun count_values :: "nat \<Rightarrow> bytes \<Rightarrow> nat \<Rightarrow> rlp_error + nat" where
  "count_values 0 b i = Inr i"
| "count_values (Suc fuel) b i =
     (if b = [] then Inr i
      else bindE (readKind b)
             (\<lambda>(k, tagsize, sz). count_values fuel (drop (unat (tagsize + sz)) b) (i + 1)))"

definition CountValues :: "bytes \<Rightarrow> rlp_error + nat" where
  "CountValues b = count_values (length b) b 0"

definition AppendUint64 :: "bytes \<Rightarrow> u64 \<Rightarrow> bytes" where
  "AppendUint64 b i =
     (if i = 0 then b @ [0x80]
      else if i < 128 then b @ [ucast i]
      else if i < 0x100 then b @ [0x81, ucast i]
      else if i < 0x10000 then b @ 0x82 # be_bytes 2 i
      else if i < 0x1000000 then b @ 0x83 # be_bytes 3 i
      else if i < 0x100000000 then b @ 0x84 # be_bytes 4 i
      else if i < 0x10000000000 then b @ 0x85 # be_bytes 5 i
      else if i < 0x1000000000000 then b @ 0x86 # be_bytes 6 i
      else if i < 0x100000000000000 then b @ 0x87 # be_bytes 7 i
      else b @ 0x88 # be_bytes 8 i)"

section \<open>Reference encoding\<close>

text \<open>The big-endian bytes of a number without leading zeros (none for 0).\<close>

fun be_min :: "nat \<Rightarrow> bytes" where
  "be_min n = (if n = 0 then [] else be_min (n div 256) @ [of_nat n])"

declare be_min.simps [simp del]

definition str_head :: "nat \<Rightarrow> bytes" where
  "str_head n = puthead 0x80 0xB7 (of_nat n)"

definition list_head :: "nat \<Rightarrow> bytes" where
  "list_head n = puthead 0xC0 0xF7 (of_nat n)"

definition enc_string :: "bytes \<Rightarrow> bytes" where
  "enc_string b = (if length b = 1 \<and> hd b \<le> 0x7F then b else str_head (length b) @ b)"

fun enc :: "rlp_value \<Rightarrow> bytes" where
  "enc (RStr b) = enc_string b"
| "enc (RUint i) = enc_string (be_min (unat i))"
| "enc (RBig i) = enc_string (be_min (nat i))"
| "enc (RList xs) = list_head (length (concat (map enc xs))) @ concat (map enc xs)"

fun encodable :: "rlp_value \<Rightarrow> bool" where
  "encodable (RBig i) = (0 \<le> i)"
| "encodable (RList xs) = (\<forall>x \<in> set xs. encodable x)"
| "encodable _ = True"

section \<open>Minimal integers\<close>

lemma be_min_0 [simp]: "be_min 0 = []"
  by (simp add: be_min.simps)

lemma be_nat_be_min [simp]: "be_nat (be_min n) = n"
proof (induction n rule: be_min.induct)
  case (1 n)
  then show ?case
    by (cases "n = 0") (simp_all add: be_min.simps [of n] be_nat_snoc unat_of_nat)
qed

lemma length_be_min: "length (be_min n) \<le> k \<longleftrightarrow> n < 256 ^ k"
proof (induction n arbitrary: k rule: be_min.induct)
  case (1 n)
  show ?case
  proof (cases "n = 0")
    case False
    then show ?thesis
    proof (cases k)
      case 0
      then show ?thesis using False by (simp add: be_min.simps [of n])
    next
      case (Suc j)
      have "length (be_min n) \<le> k \<longleftrightarrow> length (be_min (n div 256)) \<le> j"
        using False Suc by (simp add: be_min.simps [of n])
      also have "\<dots> \<longleftrightarrow> n div 256 < 256 ^ j" using 1 False by simp
      also have "\<dots> \<longleftrightarrow> n < 256 ^ k" using Suc by (simp add: div_less_iff_less_mult mult.commute)
      finally show ?thesis .
    qed
  qed simp
qed

lemma length_be_min_eq:
  assumes "256 ^ k \<le> n" and "n < 256 ^ Suc k"
  shows "length (be_min n) = Suc k"
proof -
  have "length (be_min n) \<le> Suc k" using assms(2) length_be_min by blast
  moreover have "\<not> length (be_min n) \<le> k" using assms(1) length_be_min [of n k] by simp
  ultimately show ?thesis by simp
qed

lemma be_min_be_bytes:
  assumes "0 < k" and "256 ^ (k - 1) \<le> unat w" and "unat w < 256 ^ k"
  shows "be_bytes k w = be_min (unat w)"
proof (rule be_nat_inj)
  show "length (be_bytes k w) = length (be_min (unat w))"
    using length_be_min_eq [OF assms(2)] assms by simp
  show "be_nat (be_bytes k w) = be_nat (be_min (unat w))"
    using assms(3) by (simp only: be_nat_be_bytes be_nat_be_min mod_less)
qed

lemma putint_be_min:
  assumes "i \<noteq> 0"
  shows "putint i = be_min (unat i)"
proof -
  have nz: "1 \<le> unat i" using assms by (simp add: unat_gt_0 Suc_le_eq)
  have b: "unat i < 256 ^ 8" using unat_u64_bound [of i] by simp
  show ?thesis
    unfolding putint_def using nz b
    by (auto simp: word_less_nat_alt not_less intro!: be_min_be_bytes simp del: be_bytes.simps)
qed

lemma hd_be_min: "n \<noteq> 0 \<Longrightarrow> be_min n \<noteq> [] \<and> hd (be_min n) \<noteq> 0"
proof (induction n rule: be_min.induct)
  case (1 n)
  show ?case
  proof (cases "n div 256 = 0")
    case True
    then have "n < 256" by simp
    then have "unat (of_nat n :: byte) = n" by (simp add: unat_of_nat)
    then have "(of_nat n :: byte) \<noteq> 0" using 1(2) by auto
    then show ?thesis using True 1 by (simp add: be_min.simps [of n])
  next
    case False
    then show ?thesis using 1 by (simp add: be_min.simps [of n])
  qed
qed

lemma intsize_loop_be_min: "i \<noteq> 0 \<Longrightarrow> intsize_loop n i + 1 = n + length (be_min (unat i))"
proof (induction n i rule: intsize_loop.induct)
  case (1 n i)
  have u: "unat (drop_bit 8 i) = unat i div 256" by (rule unat_drop_byte)
  have i: "unat i \<noteq> 0" using 1(2) by (simp add: unat_eq_0)
  show ?case
  proof (cases "drop_bit 8 i = 0")
    case True
    then have "unat i div 256 = 0" using u by simp
    then show ?thesis using True i by (subst intsize_loop.simps) (simp add: be_min.simps [of "unat i"])
  next
    case False
    have "intsize_loop n i + 1 = intsize_loop (n + 1) (drop_bit 8 i) + 1"
      using False by (subst intsize_loop.simps) simp
    also have "\<dots> = n + 1 + length (be_min (unat i div 256))"
      using 1(1) [OF refl False] False by (simp add: u)
    also have "\<dots> = n + length (be_min (unat i))"
      using i by (simp add: be_min.simps [of "unat i"])
    finally show ?thesis .
  qed
qed

lemma length_putint: "i \<noteq> 0 \<Longrightarrow> length (putint i) = intsize i"
  using intsize_loop_be_min [of i 1] by (simp add: intsize_def putint_be_min)

lemma length_puthead: "length (puthead s l n) = headsize n"
proof (cases "n < 56")
  case False
  then have "n \<noteq> 0" by auto
  then show ?thesis using False by (simp add: puthead_def headsize_def length_putint Let_def)
qed (simp add: puthead_def headsize_def)

section \<open>The buffer computes the reference encoding\<close>

definition heads_ok :: "nat \<Rightarrow> listhead list \<Rightarrow> bool" where
  "heads_ok n hs \<longleftrightarrow> sorted (map lh_offset hs) \<and> (\<forall>h \<in> set hs. lh_offset h \<le> n)"

definition shift_head :: "nat \<Rightarrow> listhead \<Rightarrow> listhead" where
  "shift_head k h = h\<lparr>lh_offset := lh_offset h + k\<rparr>"

lemma shift_head_simps [simp]:
  "lh_offset (shift_head k h) = lh_offset h + k"
  "listhead_encode (shift_head k h) = listhead_encode h"
  "shift_head 0 h = h"
  "shift_head j (shift_head k h) = shift_head (k + j) h"
  by (simp_all add: shift_head_def listhead_encode_def)

lemma heads_ok_append:
  assumes "heads_ok m hs" and "heads_ok n gs"
  shows "heads_ok (m + n) (hs @ map (shift_head m) gs)"
proof -
  have "sorted (map lh_offset (map (shift_head m) gs))"
    using assms(2) by (simp add: heads_ok_def comp_def sorted_wrt_map)
  moreover have "lh_offset h \<le> lh_offset g" if "h \<in> set hs" "g \<in> set (map (shift_head m) gs)" for h g
    using assms(1) that by (auto simp: heads_ok_def intro: trans_le_add2)
  ultimately show ?thesis
    using assms unfolding heads_ok_def map_append sorted_append by (auto intro: trans_le_add1)
qed

lemma toBytes_loop_shift:
  "toBytes_loop (s @ t) (length s + p) (map (shift_head (length s)) hs) = toBytes_loop t p hs"
proof (induction hs arbitrary: p)
  case Nil
  then show ?case by simp
next
  case (Cons h hs)
  have "lh_offset h + length s - (length s + p) = lh_offset h - p" by simp
  then show ?case using Cons [of "lh_offset h"] by (simp add: add.commute)
qed

lemma toBytes_loop_prefix:
  assumes "sorted (p # map lh_offset hs)" and "p \<le> length s" and "\<forall>h \<in> set hs. lh_offset h \<le> length s"
  shows "toBytes_loop (s @ t) p (hs @ map (shift_head (length s)) gs) =
         toBytes_loop s p hs @ toBytes_loop t 0 gs"
  using assms
proof (induction hs arbitrary: p)
  case Nil
  show ?case
  proof (cases gs)
    case Nil
    then show ?thesis using Nil.prems by simp
  next
    case (Cons g gs')
    have "toBytes_loop (s @ t) (lh_offset g + length s) (map (shift_head (length s)) gs') =
          toBytes_loop t (lh_offset g) gs'"
      using toBytes_loop_shift [of s t "lh_offset g" gs'] by (simp add: add.commute)
    then show ?thesis using Cons Nil.prems by simp
  qed
next
  case (Cons h hs)
  have "sorted (lh_offset h # map lh_offset hs)" using Cons.prems by simp
  then have "toBytes_loop (s @ t) (lh_offset h) (hs @ map (shift_head (length s)) gs) =
             toBytes_loop s (lh_offset h) hs @ toBytes_loop t 0 gs"
    using Cons by simp
  then show ?case using Cons.prems by simp
qed

text \<open>\<open>emits w w' bs\<close>: going from \<open>w\<close> to \<open>w'\<close> adds the encoded bytes \<open>bs\<close>.\<close>

definition emits :: "encbuf \<Rightarrow> encbuf \<Rightarrow> bytes \<Rightarrow> bool" where
  "emits w w' bs \<longleftrightarrow>
     (\<exists>s hs. eb_str w' = eb_str w @ s \<and>
             eb_lheads w' = eb_lheads w @ map (shift_head (length (eb_str w))) hs \<and>
             eb_lhsize w' + length s = eb_lhsize w + length bs \<and> eb_lhsize w \<le> eb_lhsize w' \<and>
             heads_ok (length s) hs \<and> toBytes_loop s 0 hs = bs)"

lemma emits_refl: "emits w w []"
  unfolding emits_def by (rule exI [of _ "[]"], rule exI [of _ "[]"]) (simp add: heads_ok_def)

lemma emits_append [simp]: "emits w (eb_append b w) b"
  unfolding emits_def
  by (rule exI [of _ b], rule exI [of _ "[]"]) (simp add: heads_ok_def eb_append_def)

lemma emits_trans:
  assumes "emits w w1 a" and "emits w1 w2 b"
  shows "emits w w2 (a @ b)"
proof -
  obtain s hs where 1: "eb_str w1 = eb_str w @ s"
      "eb_lheads w1 = eb_lheads w @ map (shift_head (length (eb_str w))) hs"
      "eb_lhsize w1 + length s = eb_lhsize w + length a" "eb_lhsize w \<le> eb_lhsize w1"
      "heads_ok (length s) hs" "toBytes_loop s 0 hs = a"
    using assms(1) unfolding emits_def by blast
  obtain t gs where 2: "eb_str w2 = eb_str w1 @ t"
      "eb_lheads w2 = eb_lheads w1 @ map (shift_head (length (eb_str w1))) gs"
      "eb_lhsize w2 + length t = eb_lhsize w1 + length b" "eb_lhsize w1 \<le> eb_lhsize w2"
      "heads_ok (length t) gs" "toBytes_loop t 0 gs = b"
    using assms(2) unfolding emits_def by blast
  let ?hs = "hs @ map (shift_head (length s)) gs"
  have "eb_lheads w2 = eb_lheads w @ map (shift_head (length (eb_str w))) ?hs"
    using 1 2 by (simp add: comp_def add.commute)
  moreover have "heads_ok (length (s @ t)) ?hs"
    using heads_ok_append [OF 1(5) 2(5)] by simp
  moreover have "toBytes_loop (s @ t) 0 ?hs = a @ b"
    using toBytes_loop_prefix [of 0 hs s t gs] 1 2 by (simp add: heads_ok_def)
  ultimately show ?thesis
    using 1 2 unfolding emits_def by (intro exI [of _ "s @ t"] exI [of _ ?hs]) simp
qed

lemma emits_list:
  assumes w1: "eb_list w = (index, w1)" and c: "emits w1 w2 c" and small: "length c < 2 ^ 64"
  shows "emits w (listEnd index w2) (list_head (length c) @ c)"
proof -
  obtain s hs where 1: "eb_str w2 = eb_str w1 @ s"
      "eb_lheads w2 = eb_lheads w1 @ map (shift_head (length (eb_str w1))) hs"
      "eb_lhsize w2 + length s = eb_lhsize w1 + length c" "eb_lhsize w1 \<le> eb_lhsize w2"
      "heads_ok (length s) hs" "toBytes_loop s 0 hs = c"
    using c unfolding emits_def by blast
  have w: "index = length (eb_lheads w)" "eb_str w1 = eb_str w" "eb_lhsize w1 = eb_lhsize w"
      "eb_lheads w1 = eb_lheads w @ [\<lparr>lh_offset = length (eb_str w), lh_size = eb_lhsize w\<rparr>]"
    using w1 by (auto simp: eb_list_def)
  have sz: "eb_size w2 - length (eb_str w) - eb_lhsize w = length c"
    using 1 w by (simp add: eb_size_def)
  have n: "unat (of_nat (length c) :: u64) = length c" using small by (simp add: unat_of_nat)
  let ?h = "\<lparr>lh_offset = 0, lh_size = length c\<rparr>"
  have lh: "eb_lheads w2 ! index = \<lparr>lh_offset = length (eb_str w), lh_size = eb_lhsize w\<rparr>"
    using 1 w by (simp add: nth_append)
  have heads: "eb_lheads (listEnd index w2) =
      eb_lheads w @ map (shift_head (length (eb_str w))) (?h # hs)"
    using 1 w sz unfolding listEnd_def Let_def lh by (simp add: shift_head_def)
  have size: "eb_lhsize (listEnd index w2) = eb_lhsize w2 + length (list_head (length c))"
    using sz n unfolding listEnd_def Let_def lh list_head_def length_puthead headsize_def
    by (simp add: word_less_nat_alt)
  have "heads_ok (length s) (?h # hs)" using 1(5) by (simp add: heads_ok_def)
  moreover have "toBytes_loop s 0 (?h # hs) = list_head (length c) @ c"
    using 1(6) by (simp add: listhead_encode_def list_head_def)
  ultimately show ?thesis
    using 1 w size heads unfolding emits_def
    by (intro exI [of _ s] exI [of _ "?h # hs"]) (simp add: listEnd_def Let_def)
qed

lemma encodeStringHeader_append: "encodeStringHeader n w = eb_append (str_head n) w" if "n < 2 ^ 64"
proof -
  have "unat (of_nat n :: u64) = n" using that by (simp add: unat_of_nat)
  then have "(of_nat n :: u64) < 56 \<longleftrightarrow> n < 56" by (simp add: word_less_nat_alt)
  moreover have "ucast (of_nat n :: u64) = (of_nat n :: byte)" if "n < 56"
    using that by (simp add: word_unat_eq_iff unsigned_ucast_eq unat_of_nat take_bit_eq_mod)
  ultimately show ?thesis
    by (simp add: encodeStringHeader_def str_head_def puthead_def Let_def)
qed

lemma eb_append_append: "eb_append b (eb_append a w) = eb_append (a @ b) w"
  by (simp add: eb_append_def)

lemma encodeString_append:
  "length b < 2 ^ 64 \<Longrightarrow> encodeString b w = eb_append (enc_string b) w"
  by (cases b) (auto simp: encodeString_def enc_string_def encodeStringHeader_append eb_append_append)

lemma length_be_min_u64: "length (be_min (unat (i :: u64))) \<le> 8"
  using length_be_min [of "unat i" 8] unat_u64_bound [of i] by simp

lemma encodeUint_append: "encodeUint i w = eb_append (enc_string (be_min (unat i))) w"
proof -
  consider "i = 0" | "i \<noteq> 0" "i < 128" | "128 \<le> i" by force
  then show ?thesis
  proof cases
    case 1
    then show ?thesis by (simp add: encodeUint_def enc_string_def str_head_def puthead_def)
  next
    case 2
    then have "unat i < 128" "unat i \<noteq> 0" by (simp_all add: word_less_nat_alt unat_eq_0)
    then have "be_min (unat i) = [of_nat (unat i)]" by (subst be_min.simps) simp
    moreover have "(of_nat (unat i) :: byte) = ucast i"
      by (simp add: word_unat_eq_iff unat_of_nat unsigned_ucast_eq take_bit_eq_mod)
    moreover have "(ucast i :: byte) \<le> 0x7F"
      using \<open>unat i < 128\<close> by (simp add: word_le_nat_alt unsigned_ucast_eq take_bit_eq_mod)
    ultimately show ?thesis using 2 by (simp add: encodeUint_def enc_string_def)
  next
    case 3
    then have i: "128 \<le> unat i" "i \<noteq> 0" by (auto simp: word_le_nat_alt)
    let ?b = "be_min (unat i)"
    have len: "length ?b \<le> 8" by (rule length_be_min_u64)
    have ne: "\<not> (length ?b = 1 \<and> hd ?b \<le> 0x7F)"
    proof
      assume "length ?b = 1 \<and> hd ?b \<le> 0x7F"
      then have "be_nat ?b \<le> 127"
        by (cases ?b) (auto simp: be_nat_Cons word_le_nat_alt)
      then show False using i(1) by simp
    qed
    have "str_head (length ?b) = [0x80 + of_nat (length ?b)]"
    proof -
      have "(of_nat (length ?b) :: u64) < 56"
        using len by (simp add: word_less_nat_alt unat_of_nat)
      moreover have "ucast (of_nat (length ?b) :: u64) = (of_nat (length ?b) :: byte)"
        using len by (simp add: word_unat_eq_iff unsigned_ucast_eq unat_of_nat take_bit_eq_mod)
      ultimately show ?thesis by (simp add: str_head_def puthead_def)
    qed
    then show ?thesis
      using 3 i(2) unfolding encodeUint_def enc_string_def if_not_P [OF ne]
      by (simp add: putint_be_min Let_def linorder_not_less [symmetric])
  qed
qed

lemma bitlen_le: "bitlen n \<le> k \<longleftrightarrow> n < 2 ^ k"
proof (induction n arbitrary: k rule: bitlen.induct)
  case (1 n)
  show ?case
  proof (cases "n = 0")
    case True
    then show ?thesis by (simp add: bitlen.simps)
  next
    case False
    then show ?thesis using 1
      by (cases k) (simp_all add: bitlen.simps [of n] div_less_iff_less_mult mult.commute)
  qed
qed

lemma digits_be_min:
  "n < 256 ^ k \<Longrightarrow> (k = 0 \<or> 256 ^ (k - 1) \<le> n) \<Longrightarrow>
     map (\<lambda>j. of_nat (n div 256 ^ j)) (rev [0..<k]) = be_min n"
proof (rule be_nat_inj)
  assume lt: "n < 256 ^ k" and ge: "k = 0 \<or> 256 ^ (k - 1) \<le> n"
  show "length (map (\<lambda>j. of_nat (n div 256 ^ j) :: byte) (rev [0..<k])) = length (be_min n)"
  proof (cases k)
    case 0
    then show ?thesis using lt by simp
  next
    case (Suc j)
    then show ?thesis using length_be_min_eq [of j n] lt ge by simp
  qed
  have "be_nat (map (\<lambda>j. of_nat (n div 256 ^ j) :: byte) (rev [0..<k])) = n mod 256 ^ k" for n k
  proof (induction k)
    case (Suc k)
    have "n mod 256 ^ Suc k = 256 ^ k * (n div 256 ^ k mod 256) + n mod 256 ^ k"
      using mod_mult2_eq [of n "256 ^ k" 256] by (simp add: mult.commute)
    then show ?case using Suc by (simp add: be_nat_Cons unat_of_nat)
  qed simp
  then show "be_nat (map (\<lambda>j. of_nat (n div 256 ^ j) :: byte) (rev [0..<k])) = be_nat (be_min n)"
    using lt by simp
qed

lemma writeBigInt_append:
  assumes "0 \<le> i" and "length (be_min (nat i)) < 2 ^ 64"
  shows "writeBigInt i w = Some (eb_append (enc_string (be_min (nat i))) w)"
proof (cases "bitlen (nat i) \<le> 64")
  case True
  then have "nat i < 2 ^ 64" by (simp only: bitlen_le)
  then have "unat (word_of_int i :: u64) = nat i"
    using assms(1) by (simp add: unat_eq_nat_uint uint_word_of_int_eq take_bit_eq_mod nat_mod_distrib)
  then show ?thesis using True assms by (simp add: writeBigInt_def encodeUint_append)
next
  case False
  let ?n = "nat i"
  let ?k = "(bitlen ?n + 7) div 8"
  have k: "9 \<le> ?k" using False by simp
  have "bitlen ?n \<le> 8 * ?k" by simp
  then have lt: "?n < 256 ^ ?k" by (simp only: bitlen_le) (simp add: power_mult)
  have "\<not> bitlen ?n \<le> 8 * (?k - 1)" using False by simp
  then have ge: "256 ^ (?k - 1) \<le> ?n" by (simp only: bitlen_le not_less) (simp add: power_mult)
  have d: "map (\<lambda>j. of_nat (?n div 256 ^ j)) (rev [0..<?k]) = be_min ?n"
    using digits_be_min [OF lt] ge by simp
  have len: "length (be_min ?n) = ?k" using d [symmetric] by simp
  have "?k < 2 ^ 64" using assms(2) len by simp
  then show ?thesis
    using False assms(1) k d len
    by (simp add: writeBigInt_def Let_def encodeStringHeader_append eb_append_append enc_string_def)
qed

lemma enc_string_head:
  "\<not> (length c = 1 \<and> hd c \<le> 0x7F) \<Longrightarrow> enc_string c = str_head (length c) @ c"
  unfolding enc_string_def by (simp only: if_False)

lemma length_enc_string: "length b \<le> length (enc_string b)"
  by (simp add: enc_string_def)

lemma write_emits:
  "length (enc x) < 2 ^ 64 \<Longrightarrow>
     (if encodable x then \<exists>w'. write_value x w = Some w' \<and> emits w w' (enc x) else write_value x w = None)"
  "length (concat (map enc xs)) < 2 ^ 64 \<Longrightarrow>
     (if \<forall>x \<in> set xs. encodable x
      then \<exists>w'. write_values xs w = Some w' \<and> emits w w' (concat (map enc xs))
      else write_values xs w = None)"
proof (induction x w and xs w rule: write_value_write_values.induct)
  case (1 b w)
  then have "length b < 2 ^ 64" using length_enc_string [of b] by simp
  then show ?case by (simp add: encodeString_append)
next
  case (2 i w)
  then show ?case by (simp add: encodeUint_append)
next
  case (3 i w)
  then have "length (be_min (nat i)) < 2 ^ 64" using length_enc_string [of "be_min (nat i)"] by simp
  then show ?case by (cases "0 \<le> i") (simp_all add: writeBigInt_append, simp add: writeBigInt_def)
next
  case (4 xs w)
  obtain index w1 where w1: "eb_list w = (index, w1)" by (cases "eb_list w")
  have small: "length (concat (map enc xs)) < 2 ^ 64" using "4.prems" by simp
  note IH = "4.IH" [OF w1 [symmetric] small]
  show ?case
  proof (cases "\<forall>x \<in> set xs. encodable x")
    case True
    then obtain w2 where "write_values xs w1 = Some w2" "emits w1 w2 (concat (map enc xs))"
      using IH by auto
    then show ?thesis using True w1 emits_list [OF w1 _ small] by auto
  next
    case False
    then have "write_values xs w1 = None" using IH by (simp only: if_False)
    then show ?thesis using False w1 by (auto split: if_splits)
  qed
next
  case (5 w)
  then show ?case by (simp add: emits_refl)
next
  case (6 x xs w)
  have sx: "length (enc x) < 2 ^ 64" and sxs: "length (concat (map enc xs)) < 2 ^ 64"
    using "6.prems" by simp_all
  note IHx = "6.IH"(1) [OF sx]
  show ?case
  proof (cases "encodable x")
    case True
    then obtain w1 where w1: "write_value x w = Some w1" "emits w w1 (enc x)" using IHx by auto
    note IHxs = "6.IH"(2) [OF w1(1) sxs]
    show ?thesis
    proof (cases "\<forall>x \<in> set xs. encodable x")
      case True
      then obtain w2 where "write_values xs w1 = Some w2" "emits w1 w2 (concat (map enc xs))"
        using IHxs by auto
      then show ?thesis using True \<open>encodable x\<close> w1 emits_trans [OF w1(2)] by auto
    next
      case False
      then have "write_values xs w1 = None" using IHxs by (simp only: if_False)
      then show ?thesis using False w1 by (auto split: if_splits)
    qed
  next
    case False
    then show ?thesis using IHx by (auto split: if_splits)
  qed
qed

lemma EncodeToBytes_enc:
  assumes "length (enc x) < 2 ^ 64"
  shows "EncodeToBytes x = (if encodable x then Some (enc x) else None)"
proof (cases "encodable x")
  case True
  then obtain w where w: "write_value x eb_reset = Some w" "emits eb_reset w (enc x)"
    using write_emits(1) [OF assms, of eb_reset] by auto
  moreover have "map (shift_head 0) hs = hs" for hs by (simp add: list.map_ident_strong)
  ultimately have "toBytes w = enc x" by (auto simp: emits_def toBytes_def eb_reset_def)
  then show ?thesis using True w by (simp add: EncodeToBytes_def)
next
  case False
  then show ?thesis using write_emits(1) [OF assms, of eb_reset] by (simp add: EncodeToBytes_def)
qed

section \<open>Splitting reads the encoding back\<close>

lemma be_min_be_nat:
  assumes "bs \<noteq> []" and "hd bs \<noteq> 0"
  shows "be_min (be_nat bs) = bs"
proof (rule be_nat_inj)
  obtain b rest where bs: "bs = b # rest" using assms(1) by (cases bs) auto
  have "1 \<le> unat b" using assms(2) bs by (simp add: unat_gt_0 Suc_le_eq)
  then have "1 * 256 ^ length rest \<le> unat b * 256 ^ length rest" by (rule mult_le_mono1)
  then have "256 ^ length rest \<le> be_nat bs" using bs by (simp only: be_nat_Cons mult_1 trans_le_add1)
  moreover have "be_nat bs < 256 ^ Suc (length rest)" using be_nat_less [of bs] bs by simp
  ultimately show "length (be_min (be_nat bs)) = length bs" using length_be_min_eq bs by simp
qed simp

lemma byte_tag:
  assumes "unat t + n < 256"
  shows "unat (t + of_nat n :: byte) = unat t + n" "t + of_nat n - t = (of_nat n :: byte)"
    "unat (of_nat n :: byte) = n" "ucast (of_nat n :: byte) = (of_nat n :: u64)"
proof -
  show n: "unat (of_nat n :: byte) = n" using assms by (simp add: unat_of_nat)
  show "unat (t + of_nat n :: byte) = unat t + n" using assms n by (simp add: unat_word_ariths)
  show "t + of_nat n - t = (of_nat n :: byte)" by simp
  show "ucast (of_nat n :: byte) = (of_nat n :: u64)"
    using assms n by (simp add: word_unat_eq_iff unsigned_ucast_eq unat_of_nat take_bit_eq_mod)
qed

lemma unat_u64_small: "n < 2 ^ 64 \<Longrightarrow> unat (of_nat n :: u64) = n"
  by (simp add: unat_of_nat)

lemma puthead_small: "n < 56 \<Longrightarrow> puthead s l (of_nat n) = [s + of_nat n]"
proof -
  assume n: "n < 56"
  then have "ucast (of_nat n :: u64) = (of_nat n :: byte)"
    by (simp add: word_unat_eq_iff unsigned_ucast_eq unat_of_nat take_bit_eq_mod)
  then show ?thesis using n by (simp add: puthead_def word_less_nat_alt unat_u64_small)
qed

lemma puthead_large:
  assumes "56 \<le> n" and "n < 2 ^ 64"
  shows "puthead s l (of_nat n) = (l + of_nat (length (be_min n))) # be_min n"
    and "1 \<le> length (be_min n)" and "length (be_min n) \<le> 8"
proof -
  have u: "unat (of_nat n :: u64) = n" using assms(2) by (rule unat_u64_small)
  then have "(of_nat n :: u64) \<noteq> 0" using assms(1) by auto
  then show "puthead s l (of_nat n) = (l + of_nat (length (be_min n))) # be_min n"
    using u assms(1) by (simp add: puthead_def word_less_nat_alt putint_be_min Let_def)
  show "1 \<le> length (be_min n)" using hd_be_min [of n] assms(1) by (cases "be_min n") auto
  show "length (be_min n) \<le> 8" using length_be_min_u64 [of "of_nat n"] u by simp
qed

lemma readSize_be_min:
  assumes "56 \<le> n" and "n < 2 ^ 64"
  shows "readSize (be_min n @ r) (length (be_min n)) = Inr (of_nat n)"
proof -
  note p = puthead_large(2,3) [OF assms]
  have "be_min n \<noteq> []" "hd (be_min n) \<noteq> 0" using hd_be_min [of n] assms(1) by auto
  then show ?thesis
    using assms p unat_u64_small [OF assms(2)]
    by (simp add: readSize_def be_word_def word_less_nat_alt Let_def)
qed

lemma readKind_result:
  assumes "read_tag b rest = Inr (k, of_nat h, of_nat n)"
    and "h + n \<le> length (b # rest)" and "length (b # rest) < 2 ^ 64"
  shows "readKind (b # rest) = Inr (k, of_nat h, of_nat n)"
proof -
  let ?len = "length (b # rest)"
  have "(of_nat ?len :: u64) - of_nat h = of_nat (?len - h)" using assms(2) by (simp only: of_nat_diff)
  moreover have "unat (of_nat (?len - h) :: u64) = ?len - h" "unat (of_nat n :: u64) = n"
    using assms by (simp_all only: unat_u64_small less_imp_diff_less)
  ultimately have "\<not> (of_nat n :: u64) > of_nat ?len - of_nat h"
    using assms(2) by (simp only: word_less_nat_alt)
  then show ?thesis using assms(1) by (simp only: readKind_def list.case bindE_simps prod.case if_False)
qed

lemma readKind_byte:
  assumes "b \<le> 0x7F" and "length (b # r) < 2 ^ 64"
  shows "readKind (b # r) = Inr (Byte_kind, 0, 1)"
  using readKind_result [of b r Byte_kind 0 1] assms
  by (simp add: read_tag_def word_le_nat_alt word_less_nat_alt)

lemma of_nat_u64_eq_1: "n < 2 ^ 64 \<Longrightarrow> of_nat n = (1 :: u64) \<longleftrightarrow> n = 1"
  using unat_u64_small [of n] by (metis of_nat_1 unat_1)

lemma readKind_str:
  assumes "length (str_head (length c) @ c @ r) < 2 ^ 64" and "\<not> (length c = 1 \<and> hd c \<le> 0x7F)"
  shows "readKind (str_head (length c) @ c @ r) =
         Inr (String_kind, of_nat (length (str_head (length c))), of_nat (length c))"
proof (cases "length c < 56")
  case True
  let ?b = "0x80 + of_nat (length c) :: byte"
  have h: "str_head (length c) = [?b]" using True by (simp add: str_head_def puthead_small)
  have b: "unat ?b = 128 + length c" "?b - 0x80 = of_nat (length c)"
    "ucast (of_nat (length c) :: byte) = (of_nat (length c) :: u64)"
    using byte_tag [of "0x80" "length c"] True by simp_all
  have "\<not> (of_nat (length c) = (1 :: u64) \<and> c @ r \<noteq> [] \<and> hd (c @ r) < 128)"
  proof
    assume a: "of_nat (length c) = (1 :: u64) \<and> c @ r \<noteq> [] \<and> hd (c @ r) < 128"
    then have "length c = 1" using of_nat_u64_eq_1 [of "length c"] True by simp
    then show False using a assms(2) by (cases c) (auto simp: word_le_nat_alt word_less_nat_alt)
  qed
  then have "read_tag ?b (c @ r) = Inr (String_kind, of_nat 1, of_nat (length c))"
    using b True by (simp add: read_tag_def word_less_nat_alt Let_def)
  from readKind_result [OF this] show ?thesis using assms(1) h by simp
next
  case False
  then have n: "56 \<le> length c" "length c < 2 ^ 64" using assms(1) by simp_all
  let ?L = "length (be_min (length c))"
  let ?b = "0xB7 + of_nat ?L :: byte"
  note p = puthead_large [OF n]
  have h: "str_head (length c) = ?b # be_min (length c)" by (simp add: str_head_def p(1))
  have b: "unat ?b = 183 + ?L" "?b - 0xB7 = of_nat ?L" "unat (of_nat ?L :: byte) = ?L"
    "ucast (of_nat ?L :: byte) = (of_nat ?L :: u64)"
    using byte_tag [of "0xB7" ?L] p by simp_all
  have "read_tag ?b (be_min (length c) @ c @ r) =
      Inr (String_kind, of_nat (Suc ?L), of_nat (length c))"
    using b p(2,3) readSize_be_min [OF n, of "c @ r"] unfolding read_tag_def word_less_nat_alt
    by (cases "be_min (length c) = []") simp_all
  from readKind_result [OF this] show ?thesis using assms(1) h by simp
qed

lemma readKind_list:
  assumes "length (list_head (length c) @ c @ r) < 2 ^ 64"
  shows "readKind (list_head (length c) @ c @ r) =
         Inr (List_kind, of_nat (length (list_head (length c))), of_nat (length c))"
proof (cases "length c < 56")
  case True
  let ?b = "0xC0 + of_nat (length c) :: byte"
  have h: "list_head (length c) = [?b]" using True by (simp add: list_head_def puthead_small)
  have b: "unat ?b = 192 + length c" "?b - 0xC0 = of_nat (length c)"
    "ucast (of_nat (length c) :: byte) = (of_nat (length c) :: u64)"
    using byte_tag [of "0xC0" "length c"] True by simp_all
  then have "read_tag ?b (c @ r) = Inr (List_kind, of_nat 1, of_nat (length c))"
    using True by (simp add: read_tag_def word_less_nat_alt Let_def)
  from readKind_result [OF this] show ?thesis using assms h by simp
next
  case False
  then have n: "56 \<le> length c" "length c < 2 ^ 64" using assms by simp_all
  let ?L = "length (be_min (length c))"
  let ?b = "0xF7 + of_nat ?L :: byte"
  note p = puthead_large [OF n]
  have h: "list_head (length c) = ?b # be_min (length c)" by (simp add: list_head_def p(1))
  have b: "unat ?b = 247 + ?L" "?b - 0xF7 = of_nat ?L" "unat (of_nat ?L :: byte) = ?L"
    "ucast (of_nat ?L :: byte) = (of_nat ?L :: u64)"
    using byte_tag [of "0xF7" ?L] p by simp_all
  have "read_tag ?b (be_min (length c) @ c @ r) =
      Inr (List_kind, of_nat (Suc ?L), of_nat (length c))"
    using b p(2,3) readSize_be_min [OF n, of "c @ r"] unfolding read_tag_def word_less_nat_alt
    by (cases "be_min (length c) = []") simp_all
  from readKind_result [OF this] show ?thesis using assms h by simp
qed

lemma Split_parts:
  assumes "readKind (h @ c @ r) = Inr (k, of_nat (length h), of_nat (length c))"
    and "length (h @ c @ r) < 2 ^ 64"
  shows "Split (h @ c @ r) = Inr (k, c, r)"
proof -
  have "unat (of_nat (length h) :: u64) = length h" "unat (of_nat (length c) :: u64) = length c"
    using assms(2) by (simp_all add: unat_u64_small)
  then show ?thesis using assms(1) by (simp add: Split_def)
qed

lemma Split_string:
  assumes "length (enc_string c @ r) < 2 ^ 64"
  shows "\<exists>k. k \<noteq> List_kind \<and> Split (enc_string c @ r) = Inr (k, c, r)"
proof (cases "length c = 1 \<and> hd c \<le> 0x7F")
  case True
  then obtain b where c: "c = [b]" "b \<le> 0x7F" by (cases c) auto
  have "Split ([] @ c @ r) = Inr (Byte_kind, c, r)"
    using c assms True readKind_byte [of b r] by (intro Split_parts) (simp_all add: enc_string_def)
  then show ?thesis using True by (auto simp: enc_string_def)
next
  case False
  then have e: "enc_string c @ r = str_head (length c) @ c @ r"
    by (simp add: enc_string_head del: One_nat_def)
  have "Split (str_head (length c) @ c @ r) = Inr (String_kind, c, r)"
    using readKind_str [OF _ False] assms unfolding e by (intro Split_parts) simp_all
  then show ?thesis unfolding e by auto
qed

lemma Split_list:
  assumes "length (list_head (length c) @ c @ r) < 2 ^ 64"
  shows "Split (list_head (length c) @ c @ r) = Inr (List_kind, c, r)"
  using assms readKind_list [OF assms] by (intro Split_parts) simp_all

lemma enc_cases:
  obtains (string) b where "enc x = enc_string b" and "\<And>xs. x \<noteq> RList xs"
  | (list) xs where "x = RList xs" and "enc x = list_head (length (concat (map enc xs))) @ concat (map enc xs)"
  by (cases x) auto

lemma enc_not_Nil [simp]: "enc x \<noteq> []"
  by (cases x) (auto simp: enc_string_def str_head_def list_head_def puthead_def Let_def)

text \<open>Encodings are prefix free: what follows an encoded value does not change how it is split.\<close>

lemma enc_split:
  assumes "length (enc x @ r) < 2 ^ 64"
  shows "\<exists>k c. Split (enc x @ r) = Inr (k, c, r)"
proof (cases x rule: enc_cases)
  case (string b)
  then show ?thesis using Split_string [of b r] assms by auto
next
  case (list xs)
  then show ?thesis using Split_list [of "concat (map enc xs)" r] assms by auto
qed

lemma enc_prefix_free:
  assumes "enc x @ r = enc y @ s" and "length (enc x @ r) < 2 ^ 64"
  shows "enc x = enc y \<and> r = s"
proof -
  have "r = s" using enc_split [of x r] enc_split [of y s] assms by auto
  then show ?thesis using assms(1) by simp
qed

lemma enc_string_inj:
  assumes "enc_string a = enc_string b" and "length (enc_string a) < 2 ^ 64"
  shows "a = b"
proof -
  have ex: "\<exists>k. Split (enc_string x) = Inr (k, x, [])" if "length (enc_string x) < 2 ^ 64" for x
    using Split_string [of x "[]"] that unfolding append_Nil2 by blast
  obtain k where k: "Split (enc_string a) = Inr (k, a, [])" using ex [OF assms(2)] by blast
  obtain l where l: "Split (enc_string b) = Inr (l, b, [])"
    using ex [OF assms(2) [unfolded assms(1)]] by blast
  have "Inr (k, a, []) = (Inr (l, b, []) :: rlp_error + rlp_kind \<times> bytes \<times> bytes)"
    by (rule trans [OF sym [OF k [unfolded assms(1)]] l])
  then show ?thesis by simp
qed

lemma enc_concat_inj:
  "concat (map enc xs) = concat (map enc ys) \<Longrightarrow> length (concat (map enc xs)) < 2 ^ 64 \<Longrightarrow>
     map enc xs = map enc ys"
proof (induction xs arbitrary: ys)
  case Nil
  then show ?case by (cases ys) auto
next
  case (Cons x xs)
  then obtain y ys' where ys: "ys = y # ys'" by (cases ys) auto
  have "enc x = enc y \<and> concat (map enc xs) = concat (map enc ys')"
    using Cons.prems ys by (intro enc_prefix_free) simp_all
  then show ?case using Cons ys by simp
qed

lemma enc_list_inj:
  assumes "enc (RList xs) = enc (RList ys)" and "length (enc (RList xs)) < 2 ^ 64"
  shows "map enc xs = map enc ys"
proof -
  have split: "Split (enc (RList zs)) = Inr (List_kind, concat (map enc zs), [])"
    if "length (enc (RList zs)) < 2 ^ 64" for zs
    using Split_list [of "concat (map enc zs)" "[]"] that by simp
  have "Inr (List_kind, concat (map enc xs), []) =
      (Inr (List_kind, concat (map enc ys), []) :: rlp_error + rlp_kind \<times> bytes \<times> bytes)"
    using split [OF assms(2), unfolded assms(1)] split [OF assms(2) [unfolded assms(1)]]
    by (rule trans [OF sym])
  then have "concat (map enc xs) = concat (map enc ys)" by simp
  then show ?thesis using enc_concat_inj assms(2) by simp
qed

section \<open>Only canonical encodings are accepted\<close>

lemma readSize_canonical:
  assumes "readSize b n = Inr s"
  shows "56 \<le> s" and "be_min (unat s) = take n b" and "length (be_min (unat s)) = n"
proof -
  have n: "n \<le> length b" "1 \<le> n" "n \<le> 8" and s: "s = be_word (take n b)" "56 \<le> s" "hd b \<noteq> 0"
    using assms by (auto simp: readSize_def Let_def split: if_splits)
  show "56 \<le> s" by (rule s(2))
  have "be_nat (take n b) < 256 ^ n" using be_nat_less [of "take n b"] n by simp
  also have "(256 :: nat) ^ n \<le> 256 ^ 8" using n by (intro power_increasing) simp_all
  finally have u: "unat s = be_nat (take n b)" by (simp add: s(1) be_word_def unat_of_nat)
  show "be_min (unat s) = take n b" unfolding u using n s by (intro be_min_be_nat) (auto simp: hd_take)
  then show "length (be_min (unat s)) = n" using n by simp
qed

lemma puthead_canonical:
  assumes "readSize rest n = Inr s"
  shows "puthead sm l s = (l + of_nat n) # take n rest" and "n \<le> length rest" and "n \<le> 8"
proof -
  note c = readSize_canonical [OF assms]
  have "56 \<le> unat s" "unat s < 2 ^ 64" using c(1) unat_u64_bound [of s] by (simp_all add: word_le_nat_alt)
  from puthead_large(1) [OF this, of sm l] puthead_large(3) [OF this]
  show "puthead sm l s = (l + of_nat n) # take n rest" "n \<le> 8"
    using c by simp_all
  show "n \<le> length rest" using c by (metis length_take min.cobounded1)
qed

text \<open>What a successful \<open>read_tag\<close> says of the bytes, the sizes as numbers.\<close>

lemma read_tag_canonical:
  assumes "read_tag b rest = Inr (k, ts, cs)" and "unat ts + unat cs \<le> Suc (length rest)"
    and c: "c = take (unat cs) (drop (unat ts) (b # rest))"
    and r: "r = drop (unat ts + unat cs) (b # rest)"
  shows "b # rest = (if k = List_kind then list_head (length c) @ c else enc_string c) @ r"
proof -
  consider (byte) "b < 0x80" | (str) "\<not> b < 0x80" "b < 0xB8" | (bigstr) "\<not> b < 0xB8" "b < 0xC0"
    | (lst) "\<not> b < 0xC0" "b < 0xF8" | (biglst) "\<not> b < 0xF8"
    by blast
  then show ?thesis
  proof cases
    case byte
    then have "k = Byte_kind" "unat ts = 0" "unat cs = 1" using assms(1) by (auto simp: read_tag_def)
    then show ?thesis using byte c r by (simp add: enc_string_def word_le_nat_alt word_less_nat_alt)
  next
    case str
    let ?n = "unat (b - 0x80)"
    have n: "?n = unat b - 128" "?n < 56" "b = 0x80 + of_nat ?n"
      using str by (auto simp: word_less_nat_alt unat_sub_noov word_le_nat_alt not_less)
    have k: "k = String_kind" "ts = 1" "cs = ucast (b - 0x80)"
      and no: "\<not> (cs = 1 \<and> rest \<noteq> [] \<and> hd rest < 128)"
      using str assms(1) by (auto simp: read_tag_def Let_def split: if_splits)
    have cs: "unat cs = ?n"
      using k(3) n(2) by (simp add: unsigned_ucast_eq take_bit_eq_mod)
    have cr: "c = take ?n rest" "r = drop ?n rest" "length c = ?n"
      using c r k cs assms(2) by (simp_all)
    have "\<not> (length c = 1 \<and> hd c \<le> 0x7F)"
    proof
      assume a: "length c = 1 \<and> hd c \<le> 0x7F"
      then have "unat cs = 1" using cr(3) cs by simp
      then have "cs = 1" by (metis unat_1 word_unat_eq_iff)
      moreover have "rest \<noteq> [] \<and> hd rest < 128"
      proof -
        have "c \<noteq> []" using a by auto
        then have "rest \<noteq> []" "hd rest = hd c" unfolding cr(1) by (simp_all add: hd_take)
        moreover have "x < 128" if "x \<le> 0x7F" for x :: byte
          using that by (simp add: word_le_nat_alt word_less_nat_alt)
        ultimately show ?thesis using a by simp
      qed
      ultimately show False using no by simp
    qed
    from enc_string_head [OF this] have "enc_string c = str_head ?n @ c" using cr(3) by simp
    also have "str_head ?n = [b]" using n by (simp add: str_head_def puthead_small)
    finally show ?thesis using k cr by simp
  next
    case bigstr
    let ?n = "unat (b - 0xB7)"
    have "\<not> b < 0x80" using bigstr by (auto simp: word_less_nat_alt)
    then have k: "k = String_kind" "ts = ucast (b - 0xB7) + 1" and rs: "readSize rest ?n = Inr cs"
      using bigstr assms(1) by (auto simp: read_tag_def)
    note p = puthead_canonical(1) [OF rs, of "0x80" "0xB7"] puthead_canonical(2,3) [OF rs]
    have ts: "unat ts = Suc ?n"
      using k(2) p(3) by (simp add: unat_word_ariths unsigned_ucast_eq take_bit_eq_mod)
    have cr: "c = take (unat cs) (drop ?n rest)" "r = drop (?n + unat cs) rest" "length c = unat cs"
      using c r ts assms(2) by simp_all
    have "\<not> length c = 1"
      using readSize_canonical(1) [OF rs] cr(3) by (auto simp: word_le_nat_alt)
    then have "enc_string c = puthead 0x80 0xB7 cs @ c"
      using cr(3) by (simp add: enc_string_def str_head_def)
    then show ?thesis using k cr p by (simp add: add.commute flip: take_add)
  next
    case lst
    let ?n = "unat (b - 0xC0)"
    have "\<not> b < 0x80" "\<not> b < 0xB8" using lst by (auto simp: word_less_nat_alt)
    then have k: "k = List_kind" "ts = 1" "cs = ucast (b - 0xC0)"
      using lst assms(1) by (auto simp: read_tag_def)
    have n: "?n < 56" "b = 0xC0 + of_nat ?n"
      using lst by (auto simp: word_less_nat_alt unat_sub_noov word_le_nat_alt not_less)
    have cs: "unat cs = ?n" using k(3) n by (simp add: unsigned_ucast_eq take_bit_eq_mod)
    have cr: "c = take ?n rest" "r = drop ?n rest" "length c = ?n"
      using c r k cs assms(2) by simp_all
    have "list_head ?n = [b]"
      using puthead_small [OF n(1), of "0xC0" "0xF7"] unfolding list_head_def n(2) [symmetric] .
    then show ?thesis using k cr by simp
  next
    case biglst
    let ?n = "unat (b - 0xF7)"
    have "\<not> b < 0x80" "\<not> b < 0xB8" "\<not> b < 0xC0" using biglst by (auto simp: word_less_nat_alt)
    then have k: "k = List_kind" "ts = ucast (b - 0xF7) + 1" and rs: "readSize rest ?n = Inr cs"
      using biglst assms(1) by (auto simp: read_tag_def)
    note p = puthead_canonical(1) [OF rs, of "0xC0" "0xF7"] puthead_canonical(2,3) [OF rs]
    have ts: "unat ts = Suc ?n"
      using k(2) p(3) by (simp add: unat_word_ariths unsigned_ucast_eq take_bit_eq_mod)
    have cr: "c = take (unat cs) (drop ?n rest)" "r = drop (?n + unat cs) rest" "length c = unat cs"
      using c r ts assms(2) by simp_all
    then show ?thesis using k p by (simp add: list_head_def add.commute flip: take_add)
  qed
qed

lemma readKind_checked:
  assumes "readKind (b # rest) = Inr (k, ts, cs)" and "length (b # rest) < 2 ^ 64"
  shows "read_tag b rest = Inr (k, ts, cs)" and "unat ts + unat cs \<le> Suc (length rest)"
proof -
  have t: "read_tag b rest = Inr (k, ts, cs)" and c: "cs \<le> of_nat (length (b # rest)) - ts"
    using assms(1) by (auto simp: readKind_def split: if_splits)
  show "read_tag b rest = Inr (k, ts, cs)" by (rule t)
  have ts: "unat ts \<le> length (b # rest)"
  proof -
    have big: "unat (ucast d + 1 :: u64) \<le> length (b # rest)" if "readSize rest (unat d) = Inr s" for d :: byte and s
      using puthead_canonical(2,3) [OF that]
      by (simp add: unat_word_ariths unsigned_ucast_eq take_bit_eq_mod)
    have "length (b # rest) = Suc (length rest)" by simp
    note big = big [unfolded this]
    show ?thesis
      using t unfolding \<open>length (b # rest) = Suc (length rest)\<close>
      by (auto simp: read_tag_def Let_def split: if_splits intro: big)
  qed
  have "unat (of_nat (length (b # rest)) - ts) = length (b # rest) - unat ts"
    using ts assms(2) unat_u64_small [OF assms(2)] by (subst unat_sub_noov) (simp_all only: word_le_nat_alt)
  then show "unat ts + unat cs \<le> Suc (length rest)"
    using c ts by (simp add: word_le_nat_alt)
qed

lemma Split_canonical:
  assumes "Split b = Inr (k, c, r)" and "length b < 2 ^ 64"
  shows "b = (if k = List_kind then list_head (length c) @ c else enc_string c) @ r"
proof -
  obtain ts cs where rk: "readKind b = Inr (k, ts, cs)"
    and c: "c = take (unat cs) (drop (unat ts) b)" and r: "r = drop (unat ts + unat cs) b"
    using assms(1) by (auto simp: Split_def)
  obtain x rest where b: "b = x # rest" using rk by (cases b) (auto simp: readKind_def)
  note rc = readKind_checked [OF rk [unfolded b] assms(2) [unfolded b]]
  from read_tag_canonical [OF rc c [unfolded b] r [unfolded b]] show ?thesis unfolding b .
qed

lemma enc_readKind:
  assumes "length (enc x @ r) < 2 ^ 64"
  shows "\<exists>k h n. readKind (enc x @ r) = Inr (k, of_nat h, of_nat n) \<and> h + n = length (enc x)"
proof (cases x rule: enc_cases)
  case (string b)
  show ?thesis
  proof (cases "length b = 1 \<and> hd b \<le> 0x7F")
    case True
    then obtain y where "b = [y]" "y \<le> 0x7F" by (cases b) auto
    then show ?thesis
      using string assms readKind_byte [of y r] by (intro exI [of _ Byte_kind] exI [of _ 0] exI [of _ 1])
        (simp add: enc_string_def)
  next
    case False
    then show ?thesis
      using string assms readKind_str [OF _ False, of r] enc_string_head [OF False] by auto
  qed
next
  case (list xs)
  then show ?thesis using readKind_list [of "concat (map enc xs)" r] assms by auto
qed

lemma count_values_enc:
  "length (concat (map enc xs)) \<le> fuel \<Longrightarrow> length (concat (map enc xs)) < 2 ^ 64 \<Longrightarrow>
     count_values fuel (concat (map enc xs)) i = Inr (i + length xs)"
proof (induction xs arbitrary: fuel i)
  case Nil
  then show ?case by (cases fuel) simp_all
next
  case (Cons x xs)
  have ne: "0 < length (enc x)" by simp
  then obtain f where f: "fuel = Suc f" using Cons.prems(1) by (cases fuel) auto
  obtain k h n where rk: "readKind (enc x @ concat (map enc xs)) = Inr (k, of_nat h, of_nat n)"
    and hn: "h + n = length (enc x)"
    using enc_readKind [of x "concat (map enc xs)"] Cons.prems(2) by auto
  have "unat (of_nat h + of_nat n :: u64) = length (enc x)"
    using Cons.prems(2) unat_u64_small [of "length (enc x)"] by (simp flip: of_nat_add add: hn)
  moreover have "count_values f (concat (map enc xs)) (i + 1) = Inr (i + 1 + length xs)"
    using Cons.prems f ne unfolding list.map concat.simps length_append by (intro Cons.IH) linarith+
  ultimately show ?case using f rk by simp
qed

lemma AppendUint64_enc: "AppendUint64 b i = b @ enc (RUint i)"
proof -
  have a: "eb_str (encodeUint i \<lparr>eb_str = b, eb_lheads = [], eb_lhsize = 0\<rparr>) = b @ enc (RUint i)"
    by (simp add: encodeUint_append eb_append_def)
  have "eb_str (encodeUint i \<lparr>eb_str = b, eb_lheads = [], eb_lhsize = 0\<rparr>) = AppendUint64 b i"
    by (simp add: encodeUint_def eb_append_def AppendUint64_def putint_def Let_def)
  then show ?thesis using a by simp
qed

section \<open>Properties\<close>

text \<open>
  C34. The encoding buffer computes the reference encoding: for a value whose encoding fits the
  address space, \<open>EncodeToBytes\<close> fails exactly for a negative big integer somewhere inside, and
  otherwise returns the bytes given by recursion on the value, with every list header in its place
  and of the right size.
\<close>

theorem EncodeToBytes_correct:
  assumes "length (enc x) < 2 ^ 64"
  shows "EncodeToBytes x = (if encodable x then Some (enc x) else None)"
  using assms by (rule EncodeToBytes_enc)

theorem EncodeToBytes_correct_witness:
  "EncodeToBytes (RList [RStr [1, 2], RList [RUint 5]]) = Some [0xC5, 0x82, 1, 2, 0xC1, 5]"
proof -
  have e: "enc (RList [RStr [1, 2], RList [RUint 5]]) = [0xC5, 0x82, 1, 2, 0xC1, 5]"
    by (simp add: enc_string_def str_head_def list_head_def puthead_def be_min.simps)
  show ?thesis using EncodeToBytes_correct [of "RList [RStr [1, 2], RList [RUint 5]]"] unfolding e by simp
qed

text \<open>
  C35. Splitting inverts encoding and accepts nothing else. A string or list followed by any bytes
  splits into its content and those bytes; and whenever \<open>Split\<close> succeeds, its input is the canonical
  encoding of the content it returns, so no value has two accepted encodings.
\<close>

theorem Split_exactly_canonical:
  assumes "length b < 2 ^ 64"
  shows "(Split b = Inr (List_kind, c, r) \<longleftrightarrow> b = list_head (length c) @ c @ r) \<and>
         ((\<exists>k. k \<noteq> List_kind \<and> Split b = Inr (k, c, r)) \<longleftrightarrow> b = enc_string c @ r)"
proof
  show "Split b = Inr (List_kind, c, r) \<longleftrightarrow> b = list_head (length c) @ c @ r"
    using Split_canonical [OF _ assms, of List_kind c r] Split_list [of c r] assms by auto
  show "(\<exists>k. k \<noteq> List_kind \<and> Split b = Inr (k, c, r)) \<longleftrightarrow> b = enc_string c @ r"
    using Split_canonical [OF _ assms, of _ c r] Split_string [of c r] assms by auto
qed

theorem Split_exactly_canonical_witness:
  "Split [0xC2, 1, 2, 9] = Inr (List_kind, [1, 2], [9]) \<and> Split [0x81, 5] = Inl ErrCanonSize"
proof
  have "list_head 2 = [0xC2]" by (simp add: list_head_def puthead_def)
  then show "Split [0xC2, 1, 2, 9] = Inr (List_kind, [1, 2], [9])"
    using Split_exactly_canonical [of "[0xC2, 1, 2, 9]" "[1, 2]" "[9]"]
    by (simp add: numeral_2_eq_2 [symmetric] Suc_1 del: numeral_2_eq_2)
  show "Split [0x81, 5] = Inl ErrCanonSize"
    by (simp add: Split_def readKind_def read_tag_def)
qed

text \<open>
  Integers and sequences of values round trip: \<open>AppendUint64\<close> writes what the encoder writes,
  in \<open>IntSize\<close> bytes, and \<open>SplitUint64\<close> reads the integer back and leaves the rest; \<open>CountValues\<close> of
  a sequence of encoded values is their number.
\<close>

theorem integers_roundtrip:
  assumes "length r + 9 < 2 ^ 64" and "length (concat (map enc xs)) < 2 ^ 64"
  shows "AppendUint64 b i = b @ enc (RUint i) \<and> length (AppendUint64 [] i) = IntSize i \<and>
         SplitUint64 (AppendUint64 [] i @ r) = Inr (i, r) \<and>
         CountValues (concat (map enc xs)) = Inr (length xs)"
proof (intro conjI)
  show "AppendUint64 b i = b @ enc (RUint i)" by (rule AppendUint64_enc)
  show "CountValues (concat (map enc xs)) = Inr (length xs)"
    using count_values_enc [of xs _ 0] assms(2) by (simp add: CountValues_def)
  let ?c = "be_min (unat i)"
  have len: "length ?c \<le> 8" by (rule length_be_min_u64)
  have size: "length (enc_string ?c) = IntSize i"
  proof -
    have "length (eb_str (encodeUint i eb_reset)) = IntSize i"
      by (simp add: encodeUint_def eb_append_def eb_reset_def IntSize_def length_putint Let_def)
    then show ?thesis by (simp add: encodeUint_append eb_append_def eb_reset_def)
  qed
  then show "length (AppendUint64 [] i) = IntSize i" by (simp add: AppendUint64_enc)
  have "length (enc_string ?c) \<le> 9"
    using len by (simp add: enc_string_def str_head_def length_puthead headsize_def word_less_nat_alt unat_u64_small)
  then obtain k where "k \<noteq> List_kind" "Split (enc_string ?c @ r) = Inr (k, ?c, r)"
    using Split_string [of ?c r] assms(1) by auto
  then have s: "SplitString (AppendUint64 [] i @ r) = Inr (?c, r)"
    by (simp add: SplitString_def AppendUint64_enc)
  show "SplitUint64 (AppendUint64 [] i @ r) = Inr (i, r)"
  proof (cases "length ?c \<le> 1")
    case True
    then show ?thesis
    proof (cases ?c)
      case Nil
      then have "unat i = 0" by (metis be_nat_Nil be_nat_be_min)
      then show ?thesis using s Nil by (simp add: SplitUint64_def unat_eq_0)
    next
      case (Cons y ys)
      then have c: "?c = [y]" using True by simp
      then have i: "unat i = unat y" by (metis be_nat_Nil be_nat_be_min be_nat_Cons add.right_neutral list.size(3) mult.right_neutral power_0)
      have "unat y mod 2 ^ 64 = unat y" using unat_u8_bound [of y] by simp
      then have "ucast y = i" using i by (simp add: word_unat_eq_iff unsigned_ucast_eq take_bit_eq_mod)
      moreover have "y \<noteq> 0" using c hd_be_min [of "unat i"] by (cases "unat i = 0") auto
      ultimately show ?thesis using s c by (simp add: SplitUint64_def)
    qed
  next
    case False
    then have "256 \<le> unat i" using length_be_min [of "unat i" 1] by simp
    then have "readSize (?c @ []) (length ?c) = Inr (of_nat (unat i))"
      using unat_u64_bound [of i] by (intro readSize_be_min) simp_all
    moreover have "?c \<noteq> []" using False by auto
    ultimately show ?thesis using s False len by (simp add: SplitUint64_def)
  qed
qed

theorem integers_roundtrip_witness:
  "SplitUint64 (AppendUint64 [] 300 @ [7]) = Inr (300, [7]) \<and>
   CountValues (concat (map enc [RUint 300, RStr []])) = Inr (length [RUint 300, RStr []])"
proof -
  have "length [7 :: byte] + 9 < 2 ^ 64" "length (concat (map enc [RUint 300, RStr []])) < 2 ^ 64"
    by (simp_all add: enc_string_def str_head_def puthead_def be_min.simps)
  from integers_roundtrip [OF this, of "[]" 300] show ?thesis by blast
qed

end
