(* ===== verification/Header.thy ===== *)
theory Header
  imports RLP
begin

text \<open>
  Block headers (\<open>src/core/types/block.go\<close>): the header with its behaviour proofs and
  acknowledgement counts, the bytes its hash and its signature are computed over
  (\<open>Header.Hash\<close>, and \<open>PobRLP\<close>, \<open>PobAckRLP\<close> of \<open>src/consensus/pob/pob.go\<close>), and the sanity checks.

  The hash function (Keccak-256, a third-party package) is the parameter \<open>keccak\<close>. A
  \<open>BlockNonce\<close> (\<^verbatim>\<open>[8]byte\<close>) is a 64-bit word read big-endian, a \<open>Bloom\<close> a 2048-bit word. Pointers
  that the code tests for nil are options: \<open>Difficulty\<close>, \<open>BaseFee\<close> and the slice \<open>AtomicTime\<close>.
\<close>

section \<open>Headers\<close>

type_synonym AckType = u8

definition AckTypeAgree :: AckType where "AckTypeAgree = 0"
definition AckTypeOppose :: AckType where "AckTypeOppose = 1"
definition AckTypeAll :: AckType where "AckTypeAll = 255"

record BehaviorProof =
  bp_Number :: int
  bp_MixDigest :: hash
  bp_Nonce :: u64
  bp_Miner :: address
  bp_BlockHash :: hash

record Ack =
  ack_EpochPosition :: u8
  ack_Number :: int
  ack_BlockHash :: hash
  ack_AckType :: AckType
  ack_WitnessSig :: bytes

record AckCount =
  ac_BlockNumber :: int
  ac_AckCount :: u64

record Header =
  h_ValidatorAddr :: address
  h_ValidatorSig :: bytes
  h_AckCountList :: "AckCount list"
  h_AcksHash :: hash
  h_BehaviorProofs :: "BehaviorProof list"
  h_ParentHash :: hash
  h_UncleHash :: hash
  h_Coinbase :: address
  h_Root :: hash
  h_TxHash :: hash
  h_ReceiptHash :: hash
  h_Bloom :: "2048 word"
  h_Difficulty :: "int option"
  h_Number :: int
  h_GasLimit :: u64
  h_GasUsed :: u64
  h_Time :: u64
  h_Extra :: bytes
  h_MixDigest :: hash
  h_Nonce :: u64
  h_BaseFee :: "int option"
  h_AtomicTime :: "bytes option"

definition EncodeNonce :: "u64 \<Rightarrow> bytes" where
  "EncodeNonce i = be_bytes 8 i"

definition BlockNonce_Uint64 :: "bytes \<Rightarrow> u64" where
  "BlockNonce_Uint64 n = be_word n"

text \<open>\<open>big.Int.Uint64\<close>: the low 64 bits of the absolute value.\<close>

definition big_uint64 :: "int \<Rightarrow> u64" where
  "big_uint64 x = word_of_int \<bar>x\<bar>"

section \<open>Encodings\<close>

definition opt_big :: "int option \<Rightarrow> rlp_value" where
  "opt_big v = (case v of None \<Rightarrow> RStr [] | Some x \<Rightarrow> RBig x)"

definition AckCount_value :: "AckCount \<Rightarrow> rlp_value" where
  "AckCount_value a = RList [RBig (ac_BlockNumber a), RUint (ac_AckCount a)]"

definition BehaviorProof_value :: "BehaviorProof \<Rightarrow> rlp_value" where
  "BehaviorProof_value p =
     RList ([RBig (bp_Number p), RStr (hash_bytes (bp_MixDigest p)), RStr (EncodeNonce (bp_Nonce p)),
             RStr (addr_bytes (bp_Miner p))] @
            (if bp_BlockHash p = 0 then [] else [RStr (hash_bytes (bp_BlockHash p))]))"

definition Header_value :: "Header \<Rightarrow> rlp_value" where
  "Header_value h =
     RList ([RStr (addr_bytes (h_ValidatorAddr h)), RStr (h_ValidatorSig h),
             RList (map AckCount_value (h_AckCountList h)), RStr (hash_bytes (h_AcksHash h)),
             RList (map BehaviorProof_value (h_BehaviorProofs h)), RStr (hash_bytes (h_ParentHash h)),
             RStr (hash_bytes (h_UncleHash h)), RStr (addr_bytes (h_Coinbase h)),
             RStr (hash_bytes (h_Root h)), RStr (hash_bytes (h_TxHash h)),
             RStr (hash_bytes (h_ReceiptHash h)), RStr (be_bytes 256 (h_Bloom h)),
             opt_big (h_Difficulty h), RBig (h_Number h), RUint (h_GasLimit h), RUint (h_GasUsed h),
             RUint (h_Time h), RStr (h_Extra h), RStr (hash_bytes (h_MixDigest h)),
             RStr (EncodeNonce (h_Nonce h))] @
            (case h_AtomicTime h of
               Some t \<Rightarrow> [opt_big (h_BaseFee h), RStr t]
             | None \<Rightarrow> (case h_BaseFee h of Some f \<Rightarrow> [RBig f] | None \<Rightarrow> [])))"

text \<open>\<open>rlpHash\<close> ignores the error of the encoder, which then has written nothing.\<close>

definition rlpHash :: "(bytes \<Rightarrow> hash) \<Rightarrow> rlp_value \<Rightarrow> hash" where
  "rlpHash keccak x = keccak (case EncodeToBytes x of Some b \<Rightarrow> b | None \<Rightarrow> [])"

definition Header_Hash :: "(bytes \<Rightarrow> hash) \<Rightarrow> Header \<Rightarrow> hash" where
  "Header_Hash keccak h = rlpHash keccak (Header_value h)"

definition sig_header_values :: "Header \<Rightarrow> rlp_value list" where
  "sig_header_values h =
     [RStr (addr_bytes (h_ValidatorAddr h)), RList (map AckCount_value (h_AckCountList h)),
      RStr (hash_bytes (h_AcksHash h)), RList (map BehaviorProof_value (h_BehaviorProofs h)),
      RStr (hash_bytes (h_ParentHash h)), RStr (hash_bytes (h_UncleHash h)),
      RStr (addr_bytes (h_Coinbase h)), RStr (hash_bytes (h_Root h)), RStr (hash_bytes (h_TxHash h)),
      RStr (hash_bytes (h_ReceiptHash h)), RStr (be_bytes 256 (h_Bloom h)),
      opt_big (h_Difficulty h), RBig (h_Number h), RUint (h_GasLimit h), RUint (h_GasUsed h),
      RUint (h_Time h), RStr (butlast (h_Extra h))] @
     (case h_BaseFee h of Some f \<Rightarrow> [RBig f] | None \<Rightarrow> [])"

text \<open>
  \<open>encodeSigHeader\<close> slices \<open>Extra[:len(Extra)-1]\<close>, which panics on empty extra data, and panics
  when the encoder fails.
\<close>

definition encodeSigHeader :: "Header \<Rightarrow> panic + bytes" where
  "encodeSigHeader h =
     (if h_Extra h = [] then Inl PanicIndex
      else case EncodeToBytes (RList (sig_header_values h)) of
             None \<Rightarrow> Inl PanicExplicit
           | Some b \<Rightarrow> Inr b)"

definition PobRLP :: "Header \<Rightarrow> panic + bytes" where
  "PobRLP h = encodeSigHeader h"

definition SealHash :: "(bytes \<Rightarrow> hash) \<Rightarrow> Header \<Rightarrow> panic + hash" where
  "SealHash keccak h = bindE (encodeSigHeader h) (\<lambda>b. Inr (keccak b))"

definition encodeSigAck :: "Ack \<Rightarrow> panic + bytes" where
  "encodeSigAck a =
     (case EncodeToBytes (RList [RUint (ucast (ack_EpochPosition a)), RBig (ack_Number a),
                                 RStr (hash_bytes (ack_BlockHash a)), RUint (ucast (ack_AckType a))]) of
        None \<Rightarrow> Inl PanicExplicit
      | Some b \<Rightarrow> Inr b)"

definition PobAckRLP :: "Ack \<Rightarrow> panic + bytes" where
  "PobAckRLP a = encodeSigAck a"

definition Ack_Hash :: "(bytes \<Rightarrow> hash) \<Rightarrow> Ack \<Rightarrow> panic + hash" where
  "Ack_Hash keccak a = bindE (encodeSigAck a) (\<lambda>b. Inr (keccak b))"

definition Ack_Id :: "Ack \<Rightarrow> hash" where
  "Ack_Id a = be_word (drop (length (ack_WitnessSig a) - 32) (ack_WitnessSig a))"

section \<open>Checks and copies\<close>

definition VisualBlockExtra :: hash where
  "VisualBlockExtra = 0x76aefdbcb7691c71da412a5670f2"

definition IsVisual :: "Header \<Rightarrow> bool" where
  "IsVisual h = (h_Extra h = hash_bytes VisualBlockExtra)"

datatype sanity_error = TooLargeNumber | TooLargeDifficulty | TooLargeExtra

definition SanityCheck :: "Header \<Rightarrow> sanity_error option" where
  "SanityCheck h =
     (if h_Number h < 0 \<or> bitlen (nat \<bar>h_Number h\<bar>) > 64 then Some TooLargeNumber
      else if (case h_Difficulty h of None \<Rightarrow> False | Some d \<Rightarrow> bitlen (nat \<bar>d\<bar>) > 80) then Some TooLargeDifficulty
      else if length (h_Extra h) > 100 * 1024 then Some TooLargeExtra
      else None)"

definition EmptyRootHash :: hash where
  "EmptyRootHash = 0x56e81f171bcc55a6ff8345e692c0f86e5b48e01b996cadc001622fb5e363b421"

definition EmptyUncleHash :: "(bytes \<Rightarrow> hash) \<Rightarrow> hash" where
  "EmptyUncleHash keccak = rlpHash keccak (RList [])"

definition EmptyBody :: "(bytes \<Rightarrow> hash) \<Rightarrow> Header \<Rightarrow> bool" where
  "EmptyBody keccak h = (h_TxHash h = EmptyRootHash \<and> h_UncleHash h = EmptyUncleHash keccak)"

definition EmptyReceipts :: "Header \<Rightarrow> bool" where
  "EmptyReceipts h = (h_ReceiptHash h = EmptyRootHash)"

text \<open>\<open>CopyHeader\<close> copies every field; a nil difficulty becomes 0.\<close>

definition CopyHeader :: "Header \<Rightarrow> Header" where
  "CopyHeader h = h\<lparr>h_Difficulty := Some (case h_Difficulty h of None \<Rightarrow> 0 | Some d \<Rightarrow> d)\<rparr>"

definition SetValidatorSig :: "Header \<Rightarrow> bytes \<Rightarrow> Header" where
  "SetValidatorSig h sig = h\<lparr>h_ValidatorSig := h_ValidatorSig h @ sig\<rparr>"

section \<open>What a signature covers\<close>

definition nil_zero :: "int option \<Rightarrow> int" where
  "nil_zero v = (case v of None \<Rightarrow> 0 | Some x \<Rightarrow> x)"

definition signed_fields where
  "signed_fields h =
     (h_ValidatorAddr h, h_AckCountList h, h_AcksHash h, h_BehaviorProofs h, h_ParentHash h,
      h_UncleHash h, h_Coinbase h, h_Root h, h_TxHash h, h_ReceiptHash h, h_Bloom h,
      nil_zero (h_Difficulty h), h_Number h, h_GasLimit h, h_GasUsed h, h_Time h,
      butlast (h_Extra h), h_BaseFee h)"

lemma length_enc_member: "x \<in> set xs \<Longrightarrow> length (enc x) \<le> length (concat (map enc xs))"
  by (induction xs) auto

lemma length_enc_string_small:
  "length b < 56 \<Longrightarrow> length b \<noteq> 1 \<Longrightarrow> length (enc_string b) = Suc (length b)"
  by (simp add: enc_string_def str_head_def puthead_small)

lemma length_list_head: "n < 2 ^ 64 \<Longrightarrow> length (list_head n) \<le> 9"
  using puthead_large(3) [of n]
  by (cases "n < 56") (simp_all add: list_head_def puthead_small puthead_large(1) not_less)

lemma length_enc_string_large:
  "56 \<le> length b \<Longrightarrow> length b < 2 ^ 64 \<Longrightarrow>
     length (enc_string b) = Suc (length (be_min (length b)) + length b)"
  by (simp add: enc_string_def str_head_def puthead_large(1))

text \<open>\<open>same_enc\<close>: two values with the same encoding, short enough to be split.\<close>

definition same_enc :: "rlp_value \<Rightarrow> rlp_value \<Rightarrow> bool" where
  "same_enc x y \<longleftrightarrow> enc x = enc y \<and> length (enc x) < 2 ^ 64"

lemma length_enc_string_le: "length b < 2 ^ 64 \<Longrightarrow> length (enc_string b) \<le> length b + 9"
  using puthead_large(3) [of "length b"]
  by (cases "length b < 56") (auto simp: enc_string_def str_head_def puthead_small puthead_large(1) not_less)

lemma length_enc_number: "n < 2 ^ 64 \<Longrightarrow> length (enc_string (be_min n)) \<le> 17"
  using length_enc_string_le [of "be_min n"] length_be_min [of n 8] by simp

lemma be_min_inj: "be_min m = be_min n \<longleftrightarrow> m = n"
  by (metis be_nat_be_min)

lemma same_enc_string:
  "same_enc x y \<Longrightarrow> enc x = enc_string a \<Longrightarrow> enc y = enc_string b \<Longrightarrow> a = b"
  unfolding same_enc_def by (metis enc_string_inj)

lemma same_enc_RStr: "same_enc (RStr a) (RStr b) \<Longrightarrow> a = b"
  by (rule same_enc_string [OF _ enc.simps(1) enc.simps(1)])

lemma same_enc_RUint: "same_enc (RUint a) (RUint b) \<Longrightarrow> a = b"
  using same_enc_string [OF _ enc.simps(2) enc.simps(2), of a b] by (metis be_min_inj word_unat_eq_iff)

lemma same_enc_RBig: "same_enc (RBig a) (RBig b) \<Longrightarrow> 0 \<le> a \<Longrightarrow> 0 \<le> b \<Longrightarrow> a = b"
  using same_enc_string [OF _ enc.simps(3) enc.simps(3), of a b] by (simp add: be_min_inj)

lemma enc_opt_big: "enc (opt_big v) = enc (RBig (nil_zero v))"
  by (simp add: opt_big_def nil_zero_def split: option.splits)

lemma encodable_opt_big: "encodable (opt_big v) \<longleftrightarrow> 0 \<le> nil_zero v"
  by (simp add: opt_big_def nil_zero_def split: option.splits)

lemma same_enc_opt_big:
  "same_enc (opt_big a) (opt_big b) \<Longrightarrow> encodable (opt_big a) \<Longrightarrow> encodable (opt_big b) \<Longrightarrow>
     nil_zero a = nil_zero b"
  using same_enc_RBig [of "nil_zero a" "nil_zero b"]
  unfolding same_enc_def enc_opt_big encodable_opt_big by blast

lemma same_enc_RList:
  assumes "same_enc (RList xs) (RList ys)"
  shows "list_all2 same_enc xs ys"
proof -
  have eq: "map enc xs = map enc ys" using enc_list_inj assms unfolding same_enc_def by blast
  then have len: "length xs = length ys" by (metis length_map)
  have "same_enc (xs ! i) (ys ! i)" if "i < length xs" for i
    using that eq len length_enc_member [of "xs ! i" xs] assms
    unfolding same_enc_def by (metis enc.simps(4) le_add2 length_append nth_map nth_mem order_le_less_trans)
  then show ?thesis using len by (auto simp: list_all2_conv_all_nth)
qed

lemma list_all2_map_inj:
  "list_all2 P (map f xs) (map f ys) \<Longrightarrow>
     (\<And>x y. x \<in> set xs \<Longrightarrow> y \<in> set ys \<Longrightarrow> P (f x) (f y) \<Longrightarrow> x = y) \<Longrightarrow> xs = ys"
proof (induction xs arbitrary: ys)
  case Nil
  then show ?case by simp
next
  case (Cons x xs)
  then show ?case by (cases ys) auto
qed

lemma hash_bytes_inj [simp]: "hash_bytes a = hash_bytes b \<longleftrightarrow> a = b"
  by (metis be_word_hash_bytes)

lemma EncodeNonce_inj [simp]: "EncodeNonce a = EncodeNonce b \<longleftrightarrow> a = b"
  by (simp add: EncodeNonce_def be_bytes_inj)

lemma AckCount_value_inj:
  assumes "same_enc (AckCount_value a) (AckCount_value b)"
    and "encodable (AckCount_value a)" and "encodable (AckCount_value b)"
  shows "a = b"
  using same_enc_RList [OF assms(1) [unfolded AckCount_value_def]] assms(2,3)
  by (auto simp: AckCount_value_def dest!: same_enc_RUint same_enc_RBig)

lemma BehaviorProof_value_inj:
  assumes "same_enc (BehaviorProof_value a) (BehaviorProof_value b)"
    and "encodable (BehaviorProof_value a)" and "encodable (BehaviorProof_value b)"
  shows "a = b"
proof -
  have "list_all2 same_enc
     (if bp_BlockHash a = 0 then [] else [RStr (hash_bytes (bp_BlockHash a))])
     (if bp_BlockHash b = 0 then [] else [RStr (hash_bytes (bp_BlockHash b))])"
    and n: "same_enc (RBig (bp_Number a)) (RBig (bp_Number b))"
    and f: "bp_MixDigest a = bp_MixDigest b" "bp_Nonce a = bp_Nonce b" "bp_Miner a = bp_Miner b"
    using same_enc_RList [OF assms(1) [unfolded BehaviorProof_value_def]]
    by (auto dest!: same_enc_RStr)
  then have "bp_BlockHash a = bp_BlockHash b"
    by (auto split: if_splits dest!: same_enc_RStr)
  moreover have "bp_Number a = bp_Number b"
    using same_enc_RBig [OF n] assms(2,3) by (simp add: BehaviorProof_value_def)
  ultimately show ?thesis using f by (simp add: BehaviorProof.equality)
qed

lemma encodeSigHeader_enc:
  assumes "encodeSigHeader h = Inr b" and "length (enc (RList (sig_header_values h))) < 2 ^ 64"
  shows "b = enc (RList (sig_header_values h))" and "\<forall>x \<in> set (sig_header_values h). encodable x"
  using assms EncodeToBytes_enc [OF assms(2)]
  by (auto simp: encodeSigHeader_def split: if_splits option.splits)

lemma sig_header_values_inj:
  assumes "same_enc (RList (sig_header_values h)) (RList (sig_header_values h'))"
    and "\<forall>x \<in> set (sig_header_values h). encodable x" and "\<forall>x \<in> set (sig_header_values h'). encodable x"
  shows "signed_fields h = signed_fields h'"
proof -
  note e = same_enc_RList [OF assms(1), unfolded sig_header_values_def]
  have acks: "same_enc (RList (map AckCount_value (h_AckCountList h))) (RList (map AckCount_value (h_AckCountList h')))"
    and proofs: "same_enc (RList (map BehaviorProof_value (h_BehaviorProofs h)))
                   (RList (map BehaviorProof_value (h_BehaviorProofs h')))"
    and diff: "same_enc (opt_big (h_Difficulty h)) (opt_big (h_Difficulty h'))"
    and num: "same_enc (RBig (h_Number h)) (RBig (h_Number h'))"
    and fee: "list_all2 same_enc (case h_BaseFee h of Some f \<Rightarrow> [RBig f] | None \<Rightarrow> [])
                (case h_BaseFee h' of Some f \<Rightarrow> [RBig f] | None \<Rightarrow> [])"
    using e by simp_all
  have bloom: "h_Bloom h = h_Bloom h'"
  proof -
    have "be_bytes 256 (h_Bloom h) = be_bytes 256 (h_Bloom h')"
      by (rule same_enc_RStr) (use e in simp)
    then show ?thesis by (simp add: be_bytes_inj del: be_bytes.simps)
  qed
  have f: "h_ValidatorAddr h = h_ValidatorAddr h'" "h_AcksHash h = h_AcksHash h'"
    "h_ParentHash h = h_ParentHash h'" "h_UncleHash h = h_UncleHash h'" "h_Coinbase h = h_Coinbase h'"
    "h_Root h = h_Root h'" "h_TxHash h = h_TxHash h'" "h_ReceiptHash h = h_ReceiptHash h'"
    "butlast (h_Extra h) = butlast (h_Extra h')" "h_GasLimit h = h_GasLimit h'"
    "h_GasUsed h = h_GasUsed h'" "h_Time h = h_Time h'"
    using e by (auto dest!: same_enc_RStr same_enc_RUint)
  have "h_AckCountList h = h_AckCountList h'"
    using same_enc_RList [OF acks] assms(2,3)
    by (rule_tac list_all2_map_inj [where P = same_enc and f = AckCount_value])
       (auto simp: sig_header_values_def intro: AckCount_value_inj)
  moreover have "h_BehaviorProofs h = h_BehaviorProofs h'"
    using same_enc_RList [OF proofs] assms(2,3)
    by (rule_tac list_all2_map_inj [where P = same_enc and f = BehaviorProof_value])
       (auto simp: sig_header_values_def intro: BehaviorProof_value_inj)
  moreover have "nil_zero (h_Difficulty h) = nil_zero (h_Difficulty h')" "h_Number h = h_Number h'"
    using same_enc_opt_big [OF diff] same_enc_RBig [OF num] assms(2,3)
    by (simp_all add: sig_header_values_def)
  moreover have "h_BaseFee h = h_BaseFee h'"
    using fee assms(2,3) same_enc_RBig by (auto simp: sig_header_values_def split: option.splits)
  ultimately show ?thesis using f bloom by (simp add: signed_fields_def)
qed

section \<open>Properties\<close>

text \<open>
  C36. A signature covers exactly the signed fields: two headers have the same bytes to sign if
  and only if they agree on the producer, the acknowledgement counts and their hash, the behaviour
  proofs, the parent, uncle, state, transaction and receipt hashes, the vote target, the bloom
  filter, the difficulty (nil counting as 0), the number, both gas fields, the time, the extra data
  up to its last byte and the base fee. The nonce (the direction of the vote), the mix digest, the
  atomic time and the last byte of the extra data are not covered.
\<close>

theorem PobRLP_covers:
  assumes "PobRLP h = Inr b" and "PobRLP h' = Inr b'"
    and "length (enc (RList (sig_header_values h))) < 2 ^ 64"
    and "length (enc (RList (sig_header_values h'))) < 2 ^ 64"
  shows "b = b' \<longleftrightarrow> signed_fields h = signed_fields h'"
proof
  note 1 = encodeSigHeader_enc [OF assms(1) [unfolded PobRLP_def] assms(3)]
  note 2 = encodeSigHeader_enc [OF assms(2) [unfolded PobRLP_def] assms(4)]
  show "signed_fields h = signed_fields h'" if "b = b'"
    using that 1 2 assms(3) by (intro sig_header_values_inj) (simp_all only: same_enc_def simp_thms)
  show "b = b'" if "signed_fields h = signed_fields h'"
  proof -
    have "map enc (sig_header_values h) = map enc (sig_header_values h')"
      using that unfolding signed_fields_def sig_header_values_def
      by (simp del: enc.simps add: enc_opt_big)
    then have "enc (RList (sig_header_values h)) = enc (RList (sig_header_values h'))"
      by (simp only: enc.simps)
    then show ?thesis using 1(1) 2(1) by simp
  qed
qed

text \<open>A header used by the witnesses here and in the theories that build on this one.\<close>

definition exampleHeader :: Header where
  "exampleHeader =
     \<lparr>h_ValidatorAddr = 1, h_ValidatorSig = [], h_AckCountList = [], h_AcksHash = 0,
      h_BehaviorProofs = [], h_ParentHash = 0, h_UncleHash = 0, h_Coinbase = 0, h_Root = 0,
      h_TxHash = 0, h_ReceiptHash = 0, h_Bloom = 0, h_Difficulty = None, h_Number = 1, h_GasLimit = 0,
      h_GasUsed = 0, h_Time = 0, h_Extra = [0], h_MixDigest = 0, h_Nonce = 0, h_BaseFee = None,
      h_AtomicTime = None\<rparr>"

lemma exampleHeader_small:
  assumes "h = exampleHeader\<lparr>h_Nonce := n, h_Coinbase := c\<rparr>"
  shows "length (enc (RList (sig_header_values h))) < 2 ^ 64" and "PobRLP h = Inr (enc (RList (sig_header_values h)))"
proof -
  have be1: "be_min (Suc 0) = [1]" "be_min 256 = [1, 0]" by (simp_all add: be_min.simps)
  have one: "enc_string [1 :: byte] = [1]" "enc_string [] = [0x80 :: byte]"
    by (simp_all add: enc_string_def str_head_def puthead_def)
  have "length (concat (map enc (sig_header_values h))) < 1000"
    unfolding assms sig_header_values_def exampleHeader_def opt_big_def
    by (simp add: length_enc_string_small length_enc_string_large be1 one list_head_def puthead_def
        del: be_bytes.simps)
  then show small: "length (enc (RList (sig_header_values h))) < 2 ^ 64"
    using length_list_head [of "length (concat (map enc (sig_header_values h)))"] by simp
  have "encodable (RList (sig_header_values h))"
    unfolding assms sig_header_values_def exampleHeader_def opt_big_def by simp
  then show "PobRLP h = Inr (enc (RList (sig_header_values h)))"
    using EncodeToBytes_enc [OF small] assms
    by (simp add: PobRLP_def encodeSigHeader_def exampleHeader_def del: enc.simps)
qed

theorem PobRLP_covers_witness:
  "\<exists>b b'. PobRLP exampleHeader = Inr b \<and>
     PobRLP (exampleHeader\<lparr>h_Nonce := 0xffffffffffffffff\<rparr>) = Inr b \<and>
     PobRLP (exampleHeader\<lparr>h_Coinbase := 7\<rparr>) = Inr b' \<and> b \<noteq> b'"
proof -
  let ?n = "exampleHeader\<lparr>h_Nonce := 0xffffffffffffffff\<rparr>"
  let ?c = "exampleHeader\<lparr>h_Coinbase := 7\<rparr>"
  note e = exampleHeader_small [where h = exampleHeader and n = 0 and c = 0]
  note n = exampleHeader_small [where h = ?n and n = "0xffffffffffffffff" and c = 0]
  note c = exampleHeader_small [where h = ?c and n = 0 and c = 7]
  have eqs: "exampleHeader = exampleHeader\<lparr>h_Nonce := 0, h_Coinbase := 0\<rparr>"
    "?n = exampleHeader\<lparr>h_Nonce := 0xffffffffffffffff, h_Coinbase := 0\<rparr>"
    "?c = exampleHeader\<lparr>h_Nonce := 0, h_Coinbase := 7\<rparr>"
    by (simp_all add: exampleHeader_def)
  have "signed_fields exampleHeader = signed_fields ?n" "signed_fields exampleHeader \<noteq> signed_fields ?c"
    by (simp_all add: signed_fields_def exampleHeader_def)
  then show ?thesis
    using PobRLP_covers [OF e(2) n(2) e(1) n(1), OF eqs(1,2,1,2)]
      PobRLP_covers [OF e(2) c(2) e(1) c(1), OF eqs(1,3,1,3)] e(2) [OF eqs(1)] n(2) [OF eqs(2)] c(2) [OF eqs(3)]
    by metis
qed

end
