(* ===== verification/PobSnapshot.thy ===== *)
theory PobSnapshot
  imports Relay Params Header
begin

text \<open>
  The authorization snapshot of \<open>src/consensus/pob/snapshot.go\<close>: the validator set with its scores,
  the votes that change it, the registries of SmartLight, agent and physical nodes, the weighted
  choice of a block producer, and the data that checkpoint and registration blocks carry in their
  extra field.

  The maps that \<open>newSnapshot\<close> and \<open>copy\<close> make and that are stored without \<open>omitempty\<close> are
  association lists; those that can be nil in a snapshot read back from the database (an empty map
  is omitted from the JSON text) are \<open>gomap\<close>s. \<open>keccak\<close> stands for the hash function of
  \<open>golang.org/x/crypto/sha3\<close>. Log output and its timing are left out.
\<close>

section \<open>Types\<close>

definition extraVanity :: nat where "extraVanity = 32"
definition extraSeal :: nat where "extraSeal = 65"
definition nonceAuthVote :: u64 where "nonceAuthVote = 0xffffffffffffffff"
definition nonceDropVote :: u64 where "nonceDropVote = 0"
definition NodeTypeAgent :: u8 where "NodeTypeAgent = 1"
definition NodeTypePhysical :: u8 where "NodeTypePhysical = 2"

record TestnetRegistration =
  tr_Address :: address
  tr_NodeType :: u8

record PobVote =
  pv_Signer :: address
  pv_Block :: u64
  pv_Address :: address
  pv_Authorize :: bool

record Tally =
  ta_Authorize :: bool
  ta_Votes :: int

record PobSnapshot =
  sn_config :: PobConfig
  sn_Number :: u64
  sn_Hash :: hash
  sn_Validators :: "(address, BehaviorScore) entries"
  sn_Histories :: "(address, ValidatorHistory) entries"
  sn_Recents :: "(u64, address) entries"
  sn_Votes :: "PobVote list"
  sn_Tally :: "(address, Tally) entries"
  sn_PubKeys :: "(address, bytes) gomap"
  sn_SmartLights :: "(address, SmartLightScore) gomap"
  sn_SLHistories :: "(address, SmartLightHistory) gomap"
  sn_SLPubKeys :: "(address, bytes) gomap"
  sn_Agents :: "(address, AgentScore) gomap"
  sn_AgentHistories :: "(address, AgentHistory) gomap"
  sn_AgentPubKeys :: "(address, bytes) gomap"
  sn_RelayInfos :: "(address, RelayInfo) gomap"
  sn_PhysicalNodes :: "(address, PhysicalNodeScore) gomap"
  sn_PhysicalHistories :: "(address, PhysicalNodeHistory) gomap"
  sn_GoldReserveOZ :: "int option"
  sn_CumulativeGDPWei :: "int option"

definition initial_score :: "PobConfig \<Rightarrow> u64" where
  "initial_score config =
     (if pob_InitialScore config = 0 then defaultInitialScore else pob_InitialScore config)"

definition newSnapshot :: "PobConfig \<Rightarrow> u64 \<Rightarrow> hash \<Rightarrow> address list \<Rightarrow> PobSnapshot" where
  "newSnapshot config number hash validators =
     \<lparr>sn_config = config, sn_Number = number, sn_Hash = hash,
      sn_Validators =
        fold (\<lambda>v. AList.update v (DefaultBehaviorScore (initial_score config) number)) validators [],
      sn_Histories = fold (\<lambda>v. AList.update v zeroValidatorHistory) validators [],
      sn_Recents = [], sn_Votes = [], sn_Tally = [], sn_PubKeys = gm_make,
      sn_SmartLights = gm_make, sn_SLHistories = gm_make, sn_SLPubKeys = gm_make,
      sn_Agents = gm_make, sn_AgentHistories = gm_make, sn_AgentPubKeys = gm_make,
      sn_RelayInfos = gm_make, sn_PhysicalNodes = gm_make, sn_PhysicalHistories = gm_make,
      sn_GoldReserveOZ = Some 0, sn_CumulativeGDPWei = Some 0\<rparr>"

text \<open>
  \<open>copy\<close> fills new maps entry by entry and copies what the pointers point to. It does not set
  \<open>PubKeys\<close>, which is nil in the copy.
\<close>

definition gm_copy :: "('k, 'v) gomap \<Rightarrow> ('k, 'v) gomap" where
  "gm_copy m = GoMap (entries m)"

definition copy_snapshot :: "PobSnapshot \<Rightarrow> PobSnapshot" where
  "copy_snapshot s = s
     \<lparr>sn_PubKeys := NilMap, sn_SmartLights := gm_copy (sn_SmartLights s),
      sn_SLHistories := gm_copy (sn_SLHistories s), sn_SLPubKeys := gm_copy (sn_SLPubKeys s),
      sn_Agents := gm_copy (sn_Agents s), sn_AgentHistories := gm_copy (sn_AgentHistories s),
      sn_AgentPubKeys := gm_copy (sn_AgentPubKeys s), sn_RelayInfos := gm_copy (sn_RelayInfos s),
      sn_PhysicalNodes := gm_copy (sn_PhysicalNodes s),
      sn_PhysicalHistories := gm_copy (sn_PhysicalHistories s),
      sn_GoldReserveOZ := Some (case sn_GoldReserveOZ s of None \<Rightarrow> 0 | Some g \<Rightarrow> g),
      sn_CumulativeGDPWei := Some (case sn_CumulativeGDPWei s of None \<Rightarrow> 0 | Some g \<Rightarrow> g)\<rparr>"

section \<open>Votes\<close>

definition IsValidator :: "PobSnapshot \<Rightarrow> address \<Rightarrow> bool" where
  "IsValidator s a = (a \<in> set (keys (sn_Validators s)))"

definition validVote :: "PobSnapshot \<Rightarrow> address \<Rightarrow> bool \<Rightarrow> bool" where
  "validVote s addr authorize =
     (IsValidator s addr \<and> \<not> authorize \<or> \<not> IsValidator s addr \<and> authorize)"

definition cast :: "PobSnapshot \<Rightarrow> address \<Rightarrow> bool \<Rightarrow> bool \<times> PobSnapshot" where
  "cast s addr authorize =
     (if \<not> validVote s addr authorize then (False, s)
      else (True, s\<lparr>sn_Tally := AList.update addr
                      (case map_of (sn_Tally s) addr of
                         Some old \<Rightarrow> old\<lparr>ta_Votes := ta_Votes old + 1\<rparr>
                       | None \<Rightarrow> \<lparr>ta_Authorize = authorize, ta_Votes = 1\<rparr>) (sn_Tally s)\<rparr>))"

definition uncast :: "PobSnapshot \<Rightarrow> address \<Rightarrow> bool \<Rightarrow> bool \<times> PobSnapshot" where
  "uncast s addr authorize =
     (case map_of (sn_Tally s) addr of
        None \<Rightarrow> (False, s)
      | Some tally \<Rightarrow>
          if ta_Authorize tally \<noteq> authorize then (False, s)
          else if ta_Votes tally > 1 then
            (True, s\<lparr>sn_Tally := AList.update addr (tally\<lparr>ta_Votes := ta_Votes tally - 1\<rparr>) (sn_Tally s)\<rparr>)
          else (True, s\<lparr>sn_Tally := AList.delete addr (sn_Tally s)\<rparr>))"

definition uncast_vote :: "PobVote \<Rightarrow> PobSnapshot \<Rightarrow> PobSnapshot" where
  "uncast_vote v s = snd (uncast s (pv_Address v) (pv_Authorize v))"

section \<open>Node registries\<close>

definition RegisterSmartLight :: "address \<Rightarrow> bytes \<Rightarrow> u64 \<Rightarrow> PobSnapshot \<Rightarrow> panic + PobSnapshot" where
  "RegisterSmartLight addr pubKey blockNumber s0 =
     (let s = (if sn_SmartLights s0 = NilMap
               then s0\<lparr>sn_SmartLights := gm_make, sn_SLHistories := gm_make, sn_SLPubKeys := gm_make\<rparr>
               else s0)
      in bindE (gm_put (sn_SmartLights s) addr (DefaultSmartLightScore blockNumber)) (\<lambda>nodes.
         bindE (gm_put (sn_SLHistories s) addr zeroSmartLightHistory) (\<lambda>hists.
         bindE (if length pubKey > 0 then gm_put (sn_SLPubKeys s) addr pubKey else Inr (sn_SLPubKeys s)) (\<lambda>pubs.
           Inr (s\<lparr>sn_SmartLights := nodes, sn_SLHistories := hists, sn_SLPubKeys := pubs\<rparr>)))))"

definition UnregisterSmartLight :: "address \<Rightarrow> PobSnapshot \<Rightarrow> PobSnapshot" where
  "UnregisterSmartLight addr s = s
     \<lparr>sn_SmartLights := gm_del (sn_SmartLights s) addr, sn_SLHistories := gm_del (sn_SLHistories s) addr,
      sn_SLPubKeys := gm_del (sn_SLPubKeys s) addr\<rparr>"

definition IsSmartLight :: "PobSnapshot \<Rightarrow> address \<Rightarrow> bool" where
  "IsSmartLight s addr = (gm_get (sn_SmartLights s) addr \<noteq> None)"

definition SmartLightCount :: "PobSnapshot \<Rightarrow> nat" where
  "SmartLightCount s = gm_len (sn_SmartLights s)"

definition SmartLightTotalScore :: "PobSnapshot \<Rightarrow> u64" where
  "SmartLightTotalScore s = sum_list (map (sls_Total \<circ> snd) (entries (sn_SmartLights s)))"

definition RegisterAgent :: "address \<Rightarrow> bytes \<Rightarrow> u64 \<Rightarrow> PobSnapshot \<Rightarrow> panic + PobSnapshot" where
  "RegisterAgent addr pubKey blockNumber s0 =
     (let s = (if sn_Agents s0 = NilMap
               then s0\<lparr>sn_Agents := gm_make, sn_AgentHistories := gm_make, sn_AgentPubKeys := gm_make\<rparr>
               else s0)
      in bindE (gm_put (sn_Agents s) addr (DefaultAgentScore blockNumber)) (\<lambda>nodes.
         bindE (gm_put (sn_AgentHistories s) addr zeroAgentHistory) (\<lambda>hists.
         bindE (if length pubKey > 0 then gm_put (sn_AgentPubKeys s) addr pubKey else Inr (sn_AgentPubKeys s)) (\<lambda>pubs.
           Inr (s\<lparr>sn_Agents := nodes, sn_AgentHistories := hists, sn_AgentPubKeys := pubs\<rparr>)))))"

definition UnregisterAgent :: "address \<Rightarrow> PobSnapshot \<Rightarrow> PobSnapshot" where
  "UnregisterAgent addr s = s
     \<lparr>sn_Agents := gm_del (sn_Agents s) addr, sn_AgentHistories := gm_del (sn_AgentHistories s) addr,
      sn_AgentPubKeys := gm_del (sn_AgentPubKeys s) addr\<rparr>"

definition IsAgent :: "PobSnapshot \<Rightarrow> address \<Rightarrow> bool" where
  "IsAgent s addr = (gm_get (sn_Agents s) addr \<noteq> None)"

definition AgentCount :: "PobSnapshot \<Rightarrow> nat" where
  "AgentCount s = gm_len (sn_Agents s)"

definition AgentTotalScore :: "PobSnapshot \<Rightarrow> u64" where
  "AgentTotalScore s = sum_list (map (as_Total \<circ> snd) (entries (sn_Agents s)))"

definition RegisterPhysicalNode :: "address \<Rightarrow> u64 \<Rightarrow> PobSnapshot \<Rightarrow> panic + PobSnapshot" where
  "RegisterPhysicalNode addr blockNumber s =
     (let nodes0 = (if sn_PhysicalNodes s = NilMap then gm_make else sn_PhysicalNodes s);
          hists0 = (if sn_PhysicalHistories s = NilMap then gm_make else sn_PhysicalHistories s)
      in bindE (gm_put nodes0 addr (DefaultPhysicalNodeScore blockNumber)) (\<lambda>nodes.
         bindE (gm_put hists0 addr zeroPhysicalNodeHistory) (\<lambda>hists.
           Inr (s\<lparr>sn_PhysicalNodes := nodes, sn_PhysicalHistories := hists\<rparr>))))"

definition UnregisterPhysicalNode :: "address \<Rightarrow> PobSnapshot \<Rightarrow> PobSnapshot" where
  "UnregisterPhysicalNode addr s = s
     \<lparr>sn_PhysicalNodes := gm_del (sn_PhysicalNodes s) addr,
      sn_PhysicalHistories := gm_del (sn_PhysicalHistories s) addr\<rparr>"

definition IsPhysicalNode :: "PobSnapshot \<Rightarrow> address \<Rightarrow> bool" where
  "IsPhysicalNode s addr = (gm_get (sn_PhysicalNodes s) addr \<noteq> None)"

definition PhysicalNodeCount :: "PobSnapshot \<Rightarrow> nat" where
  "PhysicalNodeCount s = gm_len (sn_PhysicalNodes s)"

definition PhysicalNodeTotalScore :: "PobSnapshot \<Rightarrow> u64" where
  "PhysicalNodeTotalScore s = sum_list (map (ps_Total \<circ> snd) (entries (sn_PhysicalNodes s)))"

definition TotalNodeCount :: "PobSnapshot \<Rightarrow> u64" where
  "TotalNodeCount s = of_nat (gm_len (sn_Agents s) + gm_len (sn_PhysicalNodes s))"

definition GetRelayInfo :: "address \<Rightarrow> PobSnapshot \<Rightarrow> RelayInfo \<times> PobSnapshot" where
  "GetRelayInfo addr s =
     (case gm_get (sn_RelayInfos s) addr of
        Some info \<Rightarrow> (info, s)
      | None \<Rightarrow>
          (NewRelayInfo, s\<lparr>sn_RelayInfos := GoMap (AList.update addr NewRelayInfo (entries (sn_RelayInfos s)))\<rparr>))"

text \<open>
  \<open>GetRelayInfo\<close> returns the pointer stored in the map, so \<open>AddAgent\<close> on it changes the map's entry.
  On a nil map it makes the map even when the entry is then created at once; the result is the same.
\<close>

definition AssignAgentToRelay :: "address \<Rightarrow> PobSnapshot \<Rightarrow> address \<times> PobSnapshot" where
  "AssignAgentToRelay agentAddr s =
     (case AssignRelay agentAddr (keys (entries (sn_SmartLights s))) of
        (relay, ok) \<Rightarrow>
          if \<not> ok then (0, s)
          else (case GetRelayInfo relay s of
                  (info, s') \<Rightarrow>
                    (relay, s'\<lparr>sn_RelayInfos :=
                       GoMap (AList.update relay (AddAgent info agentAddr) (entries (sn_RelayInfos s')))\<rparr>)))"

definition RelayCount :: "PobSnapshot \<Rightarrow> nat" where
  "RelayCount s = length (filter (\<lambda>e. RelayInfo_AgentCount (snd e) > 0) (entries (sn_RelayInfos s)))"

section \<open>Data in the extra field\<close>

datatype snap_error =
    ErrInvalidVotingChain | ErrInvalidCheckpointValidators | ErrRegistrationLength
  | ErrRegistrationType nat | SnapPanic panic

definition reg_bytes :: "TestnetRegistration \<Rightarrow> bytes" where
  "reg_bytes r = addr_bytes (tr_Address r) @ [tr_NodeType r]"

text \<open>The nil slice that encodes no registration is the empty list.\<close>

definition encodeRegistrations :: "TestnetRegistration list \<Rightarrow> bytes" where
  "encodeRegistrations regs =
     (if length regs = 0 then []
      else let n = (if length regs > 255 then 255 else length regs)
           in of_nat n # concat (map reg_bytes (take n regs)))"

fun decode_regs :: "nat \<Rightarrow> nat \<Rightarrow> bytes \<Rightarrow> snap_error + TestnetRegistration list" where
  "decode_regs i 0 data = Inr []"
| "decode_regs i (Suc n) data =
     (let r = \<lparr>tr_Address = be_word (take 20 data), tr_NodeType = data ! 20\<rparr>
      in if tr_NodeType r \<noteq> NodeTypeAgent \<and> tr_NodeType r \<noteq> NodeTypePhysical then Inl (ErrRegistrationType i)
         else bindE (decode_regs (Suc i) n (drop 21 data)) (\<lambda>rs. Inr (r # rs)))"

definition decodeRegistrations :: "bytes \<Rightarrow> snap_error + TestnetRegistration list" where
  "decodeRegistrations data =
     (case data of
        [] \<Rightarrow> Inr []
      | c # rest \<Rightarrow>
          if length data \<noteq> 1 + unat c * 21 then Inl ErrRegistrationLength
          else decode_regs 0 (unat c) rest)"

definition isValidRegistrationData :: "bytes \<Rightarrow> bool" where
  "isValidRegistrationData data = (case decodeRegistrations data of Inl e \<Rightarrow> False | Inr r \<Rightarrow> True)"

definition InjectRegistrations :: "bytes \<Rightarrow> TestnetRegistration list \<Rightarrow> bytes" where
  "InjectRegistrations extra regs =
     (let regData = encodeRegistrations regs
      in if length regData = 0 then extra
         else take extraVanity (extra @ replicate extraVanity 0) @ regData @ replicate extraSeal 0)"

section \<open>Applying headers\<close>

definition checkpoint_reset :: "u64 \<Rightarrow> PobSnapshot \<Rightarrow> PobSnapshot" where
  "checkpoint_reset number s =
     (if number mod pob_Epoch (sn_config s) = 0 then s\<lparr>sn_Votes := [], sn_Tally := []\<rparr> else s)"

definition drop_recent :: "u64 \<Rightarrow> PobSnapshot \<Rightarrow> PobSnapshot" where
  "drop_recent number s =
     (let limit = of_nat (length (sn_Validators s) div 2 + 1) :: u64
      in if number \<ge> limit then s\<lparr>sn_Recents := AList.delete (number - limit) (sn_Recents s)\<rparr> else s)"

definition track_producer :: "u64 \<Rightarrow> address \<Rightarrow> PobSnapshot \<Rightarrow> PobSnapshot" where
  "track_producer number producer s =
     (if IsValidator s producer then
        s\<lparr>sn_Recents := AList.update number producer (sn_Recents s),
          sn_Histories :=
            (case map_of (sn_Histories s) producer of
               Some hist \<Rightarrow> AList.update producer (hist\<lparr>vh_BlocksProposed := vh_BlocksProposed hist + 1\<rparr>) (sn_Histories s)
             | None \<Rightarrow> sn_Histories s)\<rparr>
      else s)"

fun discard_vote :: "address \<Rightarrow> address \<Rightarrow> PobVote list \<Rightarrow> PobVote option \<times> PobVote list" where
  "discard_vote producer target [] = (None, [])"
| "discard_vote producer target (v # vs) =
     (if pv_Signer v = producer \<and> pv_Address v = target then (Some v, vs)
      else (case discard_vote producer target vs of (r, vs') \<Rightarrow> (r, v # vs')))"

definition discard_previous :: "address \<Rightarrow> address \<Rightarrow> PobSnapshot \<Rightarrow> PobSnapshot" where
  "discard_previous producer target s =
     (case discard_vote producer target (sn_Votes s) of
        (None, vs) \<Rightarrow> s
      | (Some v, vs) \<Rightarrow> (uncast_vote v s)\<lparr>sn_Votes := vs\<rparr>)"

definition tally_vote :: "u64 \<Rightarrow> address \<Rightarrow> address \<Rightarrow> bool \<Rightarrow> PobSnapshot \<Rightarrow> PobSnapshot" where
  "tally_vote number producer target authorize s =
     (case cast s target authorize of
        (False, s') \<Rightarrow> s'
      | (True, s') \<Rightarrow>
          s'\<lparr>sn_Votes := sn_Votes s' @ [\<lparr>pv_Signer = producer, pv_Block = number, pv_Address = target,
                                        pv_Authorize = authorize\<rparr>]\<rparr>)"

text \<open>Drop the votes a removed validator cast, taking each back from the tally.\<close>

definition drop_signer :: "address \<Rightarrow> PobSnapshot \<Rightarrow> PobSnapshot" where
  "drop_signer target s =
     (fold uncast_vote (filter (\<lambda>v. pv_Signer v = target) (sn_Votes s)) s)
       \<lparr>sn_Votes := filter (\<lambda>v. pv_Signer v \<noteq> target) (sn_Votes s)\<rparr>"

definition drop_target :: "address \<Rightarrow> PobSnapshot \<Rightarrow> PobSnapshot" where
  "drop_target target s =
     s\<lparr>sn_Votes := filter (\<lambda>v. pv_Address v \<noteq> target) (sn_Votes s),
       sn_Tally := AList.delete target (sn_Tally s)\<rparr>"

definition settle_vote :: "u64 \<Rightarrow> address \<Rightarrow> PobSnapshot \<Rightarrow> PobSnapshot" where
  "settle_vote number target s =
     (case map_of (sn_Tally s) target of
        None \<Rightarrow> s
      | Some tally \<Rightarrow>
          if ta_Votes tally > int (length (sn_Validators s) div 2) then
            drop_target target
              (if ta_Authorize tally then
                 s\<lparr>sn_Validators := AList.update target
                      (DefaultBehaviorScore (initial_score (sn_config s)) number) (sn_Validators s),
                   sn_Histories := AList.update target zeroValidatorHistory (sn_Histories s)\<rparr>
               else
                 drop_signer target
                   (drop_recent number
                      (s\<lparr>sn_Validators := AList.delete target (sn_Validators s),
                         sn_Histories := AList.delete target (sn_Histories s)\<rparr>)))
          else s)"

definition register_node :: "u64 \<Rightarrow> TestnetRegistration \<Rightarrow> PobSnapshot \<Rightarrow> panic + PobSnapshot" where
  "register_node number reg s =
     (if tr_NodeType reg = NodeTypeAgent then
        (if \<not> IsAgent s (tr_Address reg) then RegisterAgent (tr_Address reg) [] number s else Inr s)
      else if tr_NodeType reg = NodeTypePhysical then
        (if \<not> IsPhysicalNode s (tr_Address reg) then RegisterPhysicalNode (tr_Address reg) number s else Inr s)
      else Inr s)"

definition reg_data :: "bytes \<Rightarrow> bytes" where
  "reg_data extra = take (length extra - extraVanity - extraSeal) (drop extraVanity extra)"

definition apply_registrations :: "u64 \<Rightarrow> bytes \<Rightarrow> PobSnapshot \<Rightarrow> panic + PobSnapshot" where
  "apply_registrations number extra s =
     (if number mod pob_Epoch (sn_config s) \<noteq> 0 \<and> length extra > extraVanity + extraSeal then
        (case decodeRegistrations (reg_data extra) of
           Inl e \<Rightarrow> Inr s
         | Inr regs \<Rightarrow> foldE (register_node number) regs s)
      else Inr s)"

definition vote_header :: "Header \<Rightarrow> PobSnapshot \<Rightarrow> PobSnapshot" where
  "vote_header h s =
     (let number = big_uint64 (h_Number h);
          producer = h_ValidatorAddr h
      in settle_vote number (h_Coinbase h)
           (tally_vote number producer (h_Coinbase h) (h_Nonce h = nonceAuthVote)
              (discard_previous producer (h_Coinbase h)
                 (track_producer number producer
                    (drop_recent number (checkpoint_reset number s))))))"

definition apply_header :: "Header \<Rightarrow> PobSnapshot \<Rightarrow> panic + PobSnapshot" where
  "apply_header h s =
     (if pob_Epoch (sn_config s) = 0 then Inl PanicDivide
      else apply_registrations (big_uint64 (h_Number h)) (h_Extra h) (vote_header h s))"

fun consecutive :: "u64 list \<Rightarrow> bool" where
  "consecutive (m # n # ns) = (n = m + 1 \<and> consecutive (n # ns))"
| "consecutive _ = True"

definition apply_snapshot ::
  "(Header \<Rightarrow> hash) \<Rightarrow> Header list \<Rightarrow> PobSnapshot \<Rightarrow> snap_error + PobSnapshot" where
  "apply_snapshot header_hash headers s =
     (if headers = [] then Inr s
      else if \<not> consecutive (map (big_uint64 \<circ> h_Number) headers) then Inl ErrInvalidVotingChain
      else if big_uint64 (h_Number (hd headers)) \<noteq> sn_Number s + 1 then Inl ErrInvalidVotingChain
      else (case foldE apply_header headers (copy_snapshot s) of
              Inl p \<Rightarrow> Inl (SnapPanic p)
            | Inr snap \<Rightarrow>
                Inr (snap\<lparr>sn_Number := sn_Number snap + of_nat (length headers),
                          sn_Hash := header_hash (last headers)\<rparr>)))"

section \<open>Choosing a producer\<close>

definition validators :: "PobSnapshot \<Rightarrow> address list" where
  "validators s = go_sort (\<lambda>a b. bytes_compare (addr_bytes a) (addr_bytes b) < 0) (keys (sn_Validators s))"

definition totalScore :: "PobSnapshot \<Rightarrow> u64" where
  "totalScore s = sum_list (map (bs_Total \<circ> snd) (sn_Validators s))"

definition makeSeed :: "(bytes \<Rightarrow> hash) \<Rightarrow> hash \<Rightarrow> u64 \<Rightarrow> u64" where
  "makeSeed keccak parentHash number =
     be_word (take 8 (hash_bytes (keccak (hash_bytes parentHash @ u64_bytes number))))"

definition score_of :: "PobSnapshot \<Rightarrow> address \<Rightarrow> u64" where
  "score_of s v = (case map_of (sn_Validators s) v of Some sc \<Rightarrow> bs_Total sc | None \<Rightarrow> 0)"

fun select_loop :: "(address \<Rightarrow> u64) \<Rightarrow> u64 \<Rightarrow> u64 \<Rightarrow> address list \<Rightarrow> address option" where
  "select_loop score target cumulative [] = None"
| "select_loop score target cumulative (v # vs) =
     (let cumulative' = cumulative + score v
      in if target < cumulative' then Some v else select_loop score target cumulative' vs)"

definition selectProducer :: "(bytes \<Rightarrow> hash) \<Rightarrow> PobSnapshot \<Rightarrow> u64 \<Rightarrow> hash \<Rightarrow> address" where
  "selectProducer keccak s number parentHash =
     (let vals = validators s
      in if length vals = 0 then 0
         else if length vals = 1 then vals ! 0
         else (let tot = totalScore s
               in if tot = 0 then vals ! unat (number mod of_nat (length vals))
                  else (case select_loop (score_of s) (makeSeed keccak parentHash number mod tot) 0 vals of
                          Some v \<Rightarrow> v
                        | None \<Rightarrow> vals ! (length vals - 1))))"

definition inturn :: "(bytes \<Rightarrow> hash) \<Rightarrow> PobSnapshot \<Rightarrow> u64 \<Rightarrow> hash \<Rightarrow> address \<Rightarrow> bool" where
  "inturn keccak s number parentHash validator = (selectProducer keccak s number parentHash = validator)"

section \<open>Checkpoint data\<close>

definition encodeBehaviorData :: "PobSnapshot \<Rightarrow> bytes" where
  "encodeBehaviorData snap =
     (let vals = validators snap
      in of_nat (length vals) # concat (map (\<lambda>v. addr_bytes v @ u64_bytes (score_of snap v)) vals))"

fun decode_scores :: "nat \<Rightarrow> bytes \<Rightarrow> (address, u64) entries \<Rightarrow> (address, u64) entries" where
  "decode_scores 0 data m = m"
| "decode_scores (Suc n) data m =
     decode_scores n (drop 28 data) (AList.update (be_word (take 20 data)) (be_word (take 8 (drop 20 data))) m)"

definition decodeBehaviorData :: "bytes \<Rightarrow> snap_error + (address, u64) entries" where
  "decodeBehaviorData data =
     (case data of
        [] \<Rightarrow> Inl ErrInvalidCheckpointValidators
      | c # rest \<Rightarrow>
          if length data \<noteq> 1 + unat c * 28 then Inl ErrInvalidCheckpointValidators
          else Inr (decode_scores (unat c) rest []))"

section \<open>The tally counts the pending votes\<close>

definition tally_of :: "(address \<Rightarrow> bool) \<Rightarrow> PobVote list \<Rightarrow> address \<Rightarrow> Tally option" where
  "tally_of isv vs a =
     (let n = length (filter (\<lambda>v. pv_Address v = a) vs)
      in if n = 0 then None else Some \<lparr>ta_Authorize = (\<not> isv a), ta_Votes = int n\<rparr>)"

definition vote_key :: "PobVote \<Rightarrow> address \<times> address" where
  "vote_key v = (pv_Signer v, pv_Address v)"

definition votes_ok :: "PobSnapshot \<Rightarrow> bool" where
  "votes_ok s \<longleftrightarrow>
     wf_entries (sn_Validators s) \<and> set (keys (sn_Histories s)) = set (keys (sn_Validators s)) \<and>
     distinct (map vote_key (sn_Votes s)) \<and>
     (\<forall>v \<in> set (sn_Votes s). pv_Authorize v = (\<not> IsValidator s (pv_Address v))) \<and>
     map_of (sn_Tally s) = tally_of (IsValidator s) (sn_Votes s)"

lemma tally_of_mset: "mset vs = mset ws \<Longrightarrow> tally_of isv vs = tally_of isv ws"
  unfolding tally_of_def by (rule ext) (metis mset_filter size_mset)

lemma length_filter_split:
  "x \<in> set xs \<Longrightarrow> length (filter P xs) = length (filter P (remove1 x xs)) + (if P x then 1 else 0)"
  by (induction xs) auto

lemma length_filter_remove1:
  "x \<in> set xs \<Longrightarrow> length (filter P (remove1 x xs)) = (if P x then length (filter P xs) - 1 else length (filter P xs))"
  using length_filter_split [of x xs P] by simp

lemma uncast_vote_fields [simp]:
  "sn_config (uncast_vote v s) = sn_config s" "sn_Validators (uncast_vote v s) = sn_Validators s"
  "sn_Histories (uncast_vote v s) = sn_Histories s" "sn_Votes (uncast_vote v s) = sn_Votes s"
  by (simp_all add: uncast_vote_def uncast_def split: option.splits)

lemma uncast_vote_tally:
  assumes "map_of (sn_Tally s) = tally_of isv vs" and "v \<in> set vs"
    and "pv_Authorize v = (\<not> isv (pv_Address v))"
  shows "map_of (sn_Tally (uncast_vote v s)) = tally_of isv (remove1 v vs)"
proof
  fix a
  let ?n = "length (filter (\<lambda>w. pv_Address w = pv_Address v) vs)"
  have "0 < ?n" using assms(2) by (auto simp: length_greater_0_conv filter_empty_conv simp del: length_greater_0_conv intro!: length_pos_if_in_set [of v])
  then have t: "map_of (sn_Tally s) (pv_Address v) = Some \<lparr>ta_Authorize = pv_Authorize v, ta_Votes = int ?n\<rparr>"
    using assms(1,3) by (simp add: tally_of_def)
  show "map_of (sn_Tally (uncast_vote v s)) a = tally_of isv (remove1 v vs) a"
  proof (cases "a = pv_Address v")
    case True
    then show ?thesis
      using t assms \<open>0 < ?n\<close>
      by (auto simp: uncast_vote_def uncast_def tally_of_def length_filter_remove1 Let_def of_nat_diff)
  next
    case False
    then show ?thesis
      using t assms by (auto simp: uncast_vote_def uncast_def tally_of_def length_filter_remove1 Let_def)
  qed
qed

lemma fold_uncast_fields [simp]:
  "sn_config (fold uncast_vote ws s) = sn_config s" "sn_Validators (fold uncast_vote ws s) = sn_Validators s"
  "sn_Histories (fold uncast_vote ws s) = sn_Histories s" "sn_Votes (fold uncast_vote ws s) = sn_Votes s"
  by (induction ws arbitrary: s) simp_all

lemma fold_uncast_tally:
  assumes "map_of (sn_Tally s) = tally_of isv vs" and "mset ws \<subseteq># mset vs"
    and "\<forall>v \<in> set ws. pv_Authorize v = (\<not> isv (pv_Address v))"
  shows "\<exists>us. mset us = mset vs - mset ws \<and> map_of (sn_Tally (fold uncast_vote ws s)) = tally_of isv us"
  using assms
proof (induction ws arbitrary: s vs)
  case Nil
  then show ?case by auto
next
  case (Cons w ws)
  have w: "w \<in> set vs" using Cons.prems(2) by (metis mset_subset_eqD set_mset_mset list.set_intros(1))
  have t: "map_of (sn_Tally (uncast_vote w s)) = tally_of isv (remove1 w vs)"
    using uncast_vote_tally [OF Cons.prems(1) w] Cons.prems(3) by simp
  have "mset ws \<subseteq># mset (remove1 w vs)" using Cons.prems(2) by (simp add: insert_subset_eq_iff)
  from Cons.IH [OF t this] Cons.prems(3) show ?case by (auto simp: diff_diff_eq)
qed

lemma discard_vote_None: "discard_vote p c vs = (None, ws) \<Longrightarrow> (p, c) \<notin> set (map vote_key vs)"
  by (induction vs arbitrary: ws) (auto simp: vote_key_def split: if_splits prod.splits)

lemma discard_vote_Some:
  "discard_vote p c vs = (Some v, ws) \<Longrightarrow>
     v \<in> set vs \<and> vote_key v = (p, c) \<and> ws = remove1 v vs"
  by (induction vs arbitrary: ws) (auto simp: vote_key_def split: if_splits prod.splits)

lemma distinct_key_remove1:
  "distinct (map f xs) \<Longrightarrow> x \<in> set xs \<Longrightarrow> set (map f (remove1 x xs)) = set (map f xs) - {f x} \<and> distinct (map f (remove1 x xs))"
  by (induction xs) auto

section \<open>Every step keeps the tally exact\<close>

lemma votes_ok_cong:
  assumes "votes_ok s" and "sn_Validators s' = sn_Validators s"
    and "set (keys (sn_Histories s')) = set (keys (sn_Histories s))"
    and "sn_Votes s' = sn_Votes s" and "sn_Tally s' = sn_Tally s"
  shows "votes_ok s'"
proof -
  have "IsValidator s' = IsValidator s" using assms(2) by (simp add: IsValidator_def fun_eq_iff)
  then show ?thesis using assms by (simp add: votes_ok_def)
qed

lemma checkpoint_reset_ok: "votes_ok s \<Longrightarrow> votes_ok (checkpoint_reset number s)"
  by (auto simp: votes_ok_def checkpoint_reset_def tally_of_def IsValidator_def)

lemma drop_recent_ok: "votes_ok s \<Longrightarrow> votes_ok (drop_recent number s)"
  by (erule votes_ok_cong) (simp_all add: drop_recent_def Let_def)

lemma track_producer_ok: "votes_ok s \<Longrightarrow> votes_ok (track_producer number producer s)"
  by (erule votes_ok_cong)
     (auto simp: track_producer_def keys_update in_keys_iff split: option.splits if_splits)

lemma discard_previous_ok:
  assumes "votes_ok s"
  shows "votes_ok (discard_previous p c s) \<and> (p, c) \<notin> set (map vote_key (sn_Votes (discard_previous p c s)))
    \<and> sn_Validators (discard_previous p c s) = sn_Validators s
    \<and> set (sn_Votes (discard_previous p c s)) \<subseteq> set (sn_Votes s)"
proof (cases "discard_vote p c (sn_Votes s)")
  case (Pair r ws)
  show ?thesis
  proof (cases r)
    case None
    then show ?thesis using Pair discard_vote_None assms by (simp add: discard_previous_def)
  next
    case (Some v)
    have v: "v \<in> set (sn_Votes s)" "vote_key v = (p, c)" and ws: "ws = remove1 v (sn_Votes s)"
      using discard_vote_Some Pair Some by auto
    note d = distinct_key_remove1 [of vote_key "sn_Votes s" v, OF _ v(1)]
    have D: "distinct (map vote_key (sn_Votes s))" using assms by (simp add: votes_ok_def)
    have r: "discard_previous p c s = (uncast_vote v s)\<lparr>sn_Votes := ws\<rparr>"
      using Pair Some by (simp add: discard_previous_def)
    have iv: "IsValidator (discard_previous p c s) = IsValidator s"
      by (simp add: r IsValidator_def fun_eq_iff)
    have "map_of (sn_Tally (uncast_vote v s)) = tally_of (IsValidator s) ws"
      using uncast_vote_tally [of s "IsValidator s" "sn_Votes s" v] assms v ws by (simp add: votes_ok_def)
    moreover have "set ws \<subseteq> set (sn_Votes s)" using ws by (simp add: set_remove1_subset)
    ultimately show ?thesis
      using assms d [OF D] v unfolding votes_ok_def iv by (auto simp: r ws)
  qed
qed

lemma tally_of_snoc:
  "tally_of isv (vs @ [v]) a =
     (if a = pv_Address v
      then Some \<lparr>ta_Authorize = (\<not> isv a), ta_Votes = (case tally_of isv vs a of None \<Rightarrow> 0 | Some t \<Rightarrow> ta_Votes t) + 1\<rparr>
      else tally_of isv vs a)"
  by (auto simp: tally_of_def Let_def)

lemma tally_vote_ok:
  assumes "votes_ok s" and "(p, c) \<notin> set (map vote_key (sn_Votes s))"
  shows "votes_ok (tally_vote n p c auth s)"
proof (cases "validVote s c auth")
  case False
  then show ?thesis using assms by (simp add: tally_vote_def cast_def)
next
  case True
  then have auth: "auth = (\<not> IsValidator s c)" by (auto simp: validVote_def)
  let ?v = "\<lparr>pv_Signer = p, pv_Block = n, pv_Address = c, pv_Authorize = auth\<rparr>"
  let ?s = "tally_vote n p c auth s"
  have votes: "sn_Votes ?s = sn_Votes s @ [?v]" "sn_Validators ?s = sn_Validators s"
    "sn_Histories ?s = sn_Histories s"
    using True by (simp_all add: tally_vote_def cast_def)
  have iv: "IsValidator ?s = IsValidator s" using votes by (simp add: IsValidator_def fun_eq_iff)
  have T: "map_of (sn_Tally s) = tally_of (IsValidator s) (sn_Votes s)" using assms by (simp add: votes_ok_def)
  have old: "ta_Authorize t = (\<not> IsValidator s c)" if "map_of (sn_Tally s) c = Some t" for t
    using that T by (auto simp: tally_of_def Let_def split: if_splits)
  have "map_of (sn_Tally ?s) a = tally_of (IsValidator s) (sn_Votes s @ [?v]) a" for a
    using True T auth old unfolding tally_of_snoc
    by (auto simp: tally_vote_def cast_def split: option.splits)
  then show ?thesis
    using assms auth unfolding votes_ok_def iv votes by (auto simp: vote_key_def)
qed

lemma tally_of_other:
  assumes "\<And>a. a \<noteq> c \<Longrightarrow> isv' a = isv a"
  shows "tally_of isv' (filter (\<lambda>v. pv_Address v \<noteq> c) vs) a = (if a = c then None else tally_of isv vs a)"
proof (cases "a = c")
  case True
  have "filter (\<lambda>v. pv_Address v = c) (filter (\<lambda>v. pv_Address v \<noteq> c) vs) = []"
    by (simp add: filter_empty_conv)
  then show ?thesis using True by (simp add: tally_of_def)
next
  case False
  then have "filter (\<lambda>v. pv_Address v = a) (filter (\<lambda>v. pv_Address v \<noteq> c) vs) = filter (\<lambda>v. pv_Address v = a) vs"
    by (auto intro: filter_cong)
  then show ?thesis using False assms by (simp add: tally_of_def)
qed

text \<open>Settling a vote, from any validator test that only differs at the target.\<close>

lemma drop_target_ok:
  assumes "wf_entries (sn_Validators s)" and "set (keys (sn_Histories s)) = set (keys (sn_Validators s))"
    and "distinct (map vote_key (sn_Votes s))"
    and "\<forall>v \<in> set (sn_Votes s). pv_Authorize v = (\<not> isv (pv_Address v))"
    and "map_of (sn_Tally s) = tally_of isv (sn_Votes s)"
    and "\<And>a. a \<noteq> c \<Longrightarrow> IsValidator s a = isv a"
  shows "votes_ok (drop_target c s)"
proof -
  let ?s = "drop_target c s"
  have iv: "IsValidator ?s = IsValidator s" by (simp add: drop_target_def IsValidator_def fun_eq_iff)
  have "map_of (sn_Tally ?s) = tally_of (IsValidator s) (sn_Votes ?s)"
    using assms(5) tally_of_other [of c "IsValidator s" isv "sn_Votes s"] assms(6)
    by (auto simp: drop_target_def)
  moreover have "distinct (map vote_key (sn_Votes ?s))"
    using assms(3) by (simp add: drop_target_def distinct_map_filter)
  ultimately show ?thesis
    using assms unfolding votes_ok_def iv by (auto simp: drop_target_def)
qed

lemma settle_vote_ok:
  assumes "votes_ok s"
  shows "votes_ok (settle_vote n c s)"
proof (cases "map_of (sn_Tally s) c")
  case None
  then show ?thesis using assms by (simp add: settle_vote_def)
next
  case (Some t)
  have V: "wf_entries (sn_Validators s)" "set (keys (sn_Histories s)) = set (keys (sn_Validators s))"
    "distinct (map vote_key (sn_Votes s))"
    "\<forall>v \<in> set (sn_Votes s). pv_Authorize v = (\<not> IsValidator s (pv_Address v))"
    "map_of (sn_Tally s) = tally_of (IsValidator s) (sn_Votes s)"
    using assms by (simp_all add: votes_ok_def)
  let ?auth = "s\<lparr>sn_Validators := AList.update c (DefaultBehaviorScore (initial_score (sn_config s)) n) (sn_Validators s),
                 sn_Histories := AList.update c zeroValidatorHistory (sn_Histories s)\<rparr>"
  let ?del = "drop_recent n (s\<lparr>sn_Validators := AList.delete c (sn_Validators s),
                               sn_Histories := AList.delete c (sn_Histories s)\<rparr>)"
  have "votes_ok (drop_target c ?auth)"
    using V by (intro drop_target_ok [where isv = "IsValidator s"]) (auto simp: IsValidator_def keys_update)
  moreover have "votes_ok (drop_target c (drop_signer c ?del))"
  proof -
    let ?ws = "filter (\<lambda>v. pv_Signer v = c) (sn_Votes s)"
    let ?us = "filter (\<lambda>v. pv_Signer v \<noteq> c) (sn_Votes s)"
    have del: "sn_Votes ?del = sn_Votes s" "sn_Tally ?del = sn_Tally s"
      "sn_Validators ?del = AList.delete c (sn_Validators s)" "sn_Histories ?del = AList.delete c (sn_Histories s)"
      by (simp_all add: drop_recent_def Let_def)
    have t: "map_of (sn_Tally ?del) = tally_of (IsValidator s) (sn_Votes s)"
      using V(5) by (simp add: del)
    have m: "mset ?ws \<subseteq># mset (sn_Votes s)" by simp
    have a: "\<forall>v \<in> set ?ws. pv_Authorize v = (\<not> IsValidator s (pv_Address v))" using V(4) by simp
    obtain us where us: "mset us = mset (sn_Votes s) - mset ?ws"
        "map_of (sn_Tally (fold uncast_vote ?ws ?del)) = tally_of (IsValidator s) us"
      using fold_uncast_tally [OF t m a] by blast
    have "mset us = mset ?us"
      using us(1) multiset_partition [of "mset (sn_Votes s)" "\<lambda>v. pv_Signer v = c"]
      by (metis add_diff_cancel_left' mset_filter)
    then have "map_of (sn_Tally (drop_signer c ?del)) = tally_of (IsValidator s) ?us"
      using us(2) by (simp add: drop_signer_def del tally_of_mset)
    then show ?thesis
      using V by (intro drop_target_ok [where isv = "IsValidator s"])
        (auto simp: drop_signer_def del IsValidator_def keys_delete distinct_map_filter)
  qed
  ultimately show ?thesis using assms Some by (simp add: settle_vote_def)
qed

lemma vote_header_ok: "votes_ok s \<Longrightarrow> votes_ok (vote_header h s)"
  unfolding vote_header_def Let_def
  by (intro settle_vote_ok tally_vote_ok) (use discard_previous_ok track_producer_ok drop_recent_ok checkpoint_reset_ok in blast)+

section \<open>Applying headers always succeeds\<close>

text \<open>
  Snapshots as \<open>copy\<close> leaves them, kept by every header: every map of the registries is made, and
  \<open>PubKeys\<close>, which \<open>copy\<close> neither makes nor fills, is nil (\<open>made_iff\<close> spells it out).
\<close>

definition made :: "PobSnapshot \<Rightarrow> bool" where
  "made s \<longleftrightarrow> copy_snapshot s = s"

lemma gm_copy_simps [simp]:
  "gm_copy (gm_copy m) = gm_copy m" "gm_copy (GoMap es) = GoMap es" "gm_copy m \<noteq> NilMap"
  "entries (gm_copy m) = entries m" "gm_get (gm_copy m) k = gm_get m k"
  by (simp_all add: gm_copy_def gm_get_def)

lemma gm_copy_eq: "gm_copy m = m \<longleftrightarrow> m \<noteq> NilMap"
  by (cases m) (simp_all add: gm_copy_def)

lemma made_iff:
  "made s \<longleftrightarrow> sn_PubKeys s = NilMap \<and> sn_SmartLights s \<noteq> NilMap \<and> sn_SLHistories s \<noteq> NilMap \<and>
     sn_SLPubKeys s \<noteq> NilMap \<and> sn_Agents s \<noteq> NilMap \<and> sn_AgentHistories s \<noteq> NilMap \<and>
     sn_AgentPubKeys s \<noteq> NilMap \<and> sn_RelayInfos s \<noteq> NilMap \<and> sn_PhysicalNodes s \<noteq> NilMap \<and>
     sn_PhysicalHistories s \<noteq> NilMap \<and> sn_GoldReserveOZ s \<noteq> None \<and> sn_CumulativeGDPWei s \<noteq> None"
proof -
  have "Some (case v of None \<Rightarrow> 0 | Some g \<Rightarrow> g) = v \<longleftrightarrow> v \<noteq> None" for v :: "int option"
    by (cases v) auto
  then show ?thesis
    by (cases s) (auto simp: made_def copy_snapshot_def gm_copy_eq)
qed

lemma made_copy: "made (copy_snapshot s)"
  by (simp add: made_iff copy_snapshot_def)

text \<open>What the vote part of a header leaves alone: the configuration and every registry.\<close>

definition registries where
  "registries s = (sn_config s, sn_Number s, sn_Hash s, sn_PubKeys s, sn_SmartLights s, sn_SLHistories s,
     sn_SLPubKeys s, sn_Agents s, sn_AgentHistories s, sn_AgentPubKeys s, sn_RelayInfos s,
     sn_PhysicalNodes s, sn_PhysicalHistories s, sn_GoldReserveOZ s, sn_CumulativeGDPWei s)"

lemma registries_made: "registries s = registries s' \<Longrightarrow> made s = made s'"
  by (simp add: registries_def made_iff)

lemma registries_uncast [simp]: "registries (uncast_vote v s) = registries s"
  by (simp add: registries_def uncast_vote_def uncast_def split: option.splits)

lemma registries_fold_uncast [simp]: "registries (fold uncast_vote vs s) = registries s"
  by (induction vs arbitrary: s) simp_all

lemma registries_steps [simp]:
  "registries (checkpoint_reset n s) = registries s"
  "registries (drop_recent n s) = registries s"
  "registries (track_producer n p s) = registries s"
  "registries (discard_previous p c s) = registries s"
  "registries (tally_vote n p c b s) = registries s"
  "registries (drop_signer c s) = registries s"
  "registries (drop_target c s) = registries s"
proof -
  have upd: "registries (s\<lparr>sn_Votes := vs\<rparr>) = registries s" for s vs by (simp add: registries_def)
  show "registries (checkpoint_reset n s) = registries s" "registries (drop_recent n s) = registries s"
    "registries (track_producer n p s) = registries s" "registries (tally_vote n p c b s) = registries s"
    "registries (drop_target c s) = registries s"
    by (simp_all add: registries_def checkpoint_reset_def drop_recent_def track_producer_def
        tally_vote_def cast_def drop_target_def Let_def)
  show "registries (discard_previous p c s) = registries s"
    by (auto simp: discard_previous_def upd split: prod.splits option.splits)
  show "registries (drop_signer c s) = registries s"
    by (simp add: drop_signer_def upd)
qed

lemma registries_settle [simp]: "registries (settle_vote n c s) = registries s"
proof -
  have upd: "registries (s\<lparr>sn_Validators := vs, sn_Histories := hs\<rparr>) = registries s" for vs hs
    by (simp add: registries_def)
  show ?thesis by (simp add: settle_vote_def upd split: option.splits)
qed

lemma registries_vote_header [simp]: "registries (vote_header h s) = registries s"
  by (simp add: vote_header_def Let_def)

lemma vote_header_config [simp]: "sn_config (vote_header h s) = sn_config s"
  using registries_vote_header [of h s] by (simp add: registries_def)

text \<open>What a registration leaves alone: everything but the registry it is for.\<close>

definition voting where
  "voting s = (sn_config s, sn_Number s, sn_Hash s, sn_Validators s, sn_Histories s, sn_Recents s,
     sn_Votes s, sn_Tally s)"

lemma voting_ok: "voting s = voting s' \<Longrightarrow> votes_ok s = votes_ok s'"
  by (simp add: voting_def votes_ok_def IsValidator_def [abs_def])

lemma register_node_total:
  assumes "made s"
  shows "\<exists>s'. register_node n reg s = Inr s' \<and> made s' \<and> voting s' = voting s"
proof -
  obtain a1 a2 a3 p1 p2 where m: "sn_Agents s = GoMap a1" "sn_AgentHistories s = GoMap a2"
      "sn_AgentPubKeys s = GoMap a3" "sn_PhysicalNodes s = GoMap p1" "sn_PhysicalHistories s = GoMap p2"
    using assms unfolding made_iff by (metis gomap.exhaust)
  show ?thesis
    using assms by (auto simp: register_node_def RegisterAgent_def RegisterPhysicalNode_def m made_iff
        voting_def Let_def)
qed

lemma foldE_register_total:
  "made s \<Longrightarrow> \<exists>s'. foldE (register_node n) regs s = Inr s' \<and> made s' \<and> voting s' = voting s"
proof (induction regs arbitrary: s)
  case Nil
  then show ?case by simp
next
  case (Cons reg regs)
  obtain s1 where s1: "register_node n reg s = Inr s1" "made s1" "voting s1 = voting s"
    using register_node_total [OF Cons.prems] by blast
  then show ?case using Cons.IH [OF s1(2)] by auto
qed

lemma apply_registrations_total:
  assumes "made s"
  shows "\<exists>s'. apply_registrations n extra s = Inr s' \<and> made s' \<and> voting s' = voting s"
  using assms foldE_register_total
  by (auto simp: apply_registrations_def split: sum.splits)

lemma apply_header_total:
  assumes "made s" and "pob_Epoch (sn_config s) \<noteq> 0"
  shows "\<exists>s'. apply_header h s = Inr s' \<and> made s' \<and> sn_config s' = sn_config s \<and>
           sn_Number s' = sn_Number s \<and> sn_Hash s' = sn_Hash s \<and> (votes_ok s \<longrightarrow> votes_ok s') \<and>
           sn_Validators s' = sn_Validators (vote_header h s)"
proof -
  have r: "registries (vote_header h s) = registries s" by simp
  then have "made (vote_header h s)" using assms(1) registries_made by blast
  then obtain s' where s': "apply_registrations (big_uint64 (h_Number h)) (h_Extra h) (vote_header h s) = Inr s'"
      "made s'" "voting s' = voting (vote_header h s)"
    using apply_registrations_total by blast
  moreover have "votes_ok s \<longrightarrow> votes_ok s'"
    using s'(3) voting_ok vote_header_ok by blast
  ultimately show ?thesis
    using assms(2) r by (auto simp: apply_header_def voting_def registries_def)
qed

lemma foldE_apply_total:
  assumes "made s" and "pob_Epoch (sn_config s) \<noteq> 0"
  shows "\<exists>s'. foldE apply_header hs s = Inr s' \<and> made s' \<and> sn_config s' = sn_config s \<and>
           sn_Number s' = sn_Number s \<and> sn_Hash s' = sn_Hash s \<and> (votes_ok s \<longrightarrow> votes_ok s')"
  using assms
proof (induction hs arbitrary: s)
  case Nil
  then show ?case by simp
next
  case (Cons h hs)
  obtain s1 where s1: "apply_header h s = Inr s1" "made s1" "sn_config s1 = sn_config s"
      "sn_Number s1 = sn_Number s" "sn_Hash s1 = sn_Hash s" "votes_ok s \<longrightarrow> votes_ok s1"
    using apply_header_total [OF Cons.prems] by blast
  then show ?case using Cons.IH [of s1] Cons.prems by auto
qed

section \<open>Batches of headers\<close>

text \<open>Number and hash of a snapshot play no part while headers are applied.\<close>

definition stamp :: "u64 \<Rightarrow> hash \<Rightarrow> PobSnapshot \<Rightarrow> PobSnapshot" where
  "stamp n x s = s\<lparr>sn_Number := n, sn_Hash := x\<rparr>"

lemma stamp_fields [simp]:
  "sn_config (stamp n x s) = sn_config s" "sn_Validators (stamp n x s) = sn_Validators s"
  "sn_Histories (stamp n x s) = sn_Histories s" "sn_Recents (stamp n x s) = sn_Recents s"
  "sn_Votes (stamp n x s) = sn_Votes s" "sn_Tally (stamp n x s) = sn_Tally s"
  "sn_Agents (stamp n x s) = sn_Agents s" "sn_AgentHistories (stamp n x s) = sn_AgentHistories s"
  "sn_AgentPubKeys (stamp n x s) = sn_AgentPubKeys s" "sn_PhysicalNodes (stamp n x s) = sn_PhysicalNodes s"
  "sn_PhysicalHistories (stamp n x s) = sn_PhysicalHistories s" "sn_Number (stamp n x s) = n"
  "IsValidator (stamp n x s) = IsValidator s" "stamp m y (stamp n x s) = stamp m y s"
  "made (stamp n x s) = made s"
  by (simp_all add: stamp_def IsValidator_def fun_eq_iff made_iff)

lemma stamp_updates:
  "(stamp n x s)\<lparr>sn_Votes := v\<rparr> = stamp n x (s\<lparr>sn_Votes := v\<rparr>)"
  "(stamp n x s)\<lparr>sn_Tally := t\<rparr> = stamp n x (s\<lparr>sn_Tally := t\<rparr>)"
  "(stamp n x s)\<lparr>sn_Recents := r\<rparr> = stamp n x (s\<lparr>sn_Recents := r\<rparr>)"
  "(stamp n x s)\<lparr>sn_Validators := vv\<rparr> = stamp n x (s\<lparr>sn_Validators := vv\<rparr>)"
  "(stamp n x s)\<lparr>sn_Histories := hh\<rparr> = stamp n x (s\<lparr>sn_Histories := hh\<rparr>)"
  "(stamp n x s)\<lparr>sn_Agents := a\<rparr> = stamp n x (s\<lparr>sn_Agents := a\<rparr>)"
  "(stamp n x s)\<lparr>sn_AgentHistories := ah\<rparr> = stamp n x (s\<lparr>sn_AgentHistories := ah\<rparr>)"
  "(stamp n x s)\<lparr>sn_AgentPubKeys := ak\<rparr> = stamp n x (s\<lparr>sn_AgentPubKeys := ak\<rparr>)"
  "(stamp n x s)\<lparr>sn_PhysicalNodes := p\<rparr> = stamp n x (s\<lparr>sn_PhysicalNodes := p\<rparr>)"
  "(stamp n x s)\<lparr>sn_PhysicalHistories := ph\<rparr> = stamp n x (s\<lparr>sn_PhysicalHistories := ph\<rparr>)"
  by (simp_all add: stamp_def)

lemma stamp_uncast: "uncast_vote v (stamp n x s) = stamp n x (uncast_vote v s)"
  by (auto simp: uncast_vote_def uncast_def stamp_updates split: option.splits)

lemma stamp_fold_uncast: "fold uncast_vote vs (stamp n x s) = stamp n x (fold uncast_vote vs s)"
  by (induction vs arbitrary: s) (simp_all add: stamp_uncast)

lemma stamp_steps:
  "checkpoint_reset m (stamp n x s) = stamp n x (checkpoint_reset m s)"
  "drop_recent m (stamp n x s) = stamp n x (drop_recent m s)"
  "track_producer m p (stamp n x s) = stamp n x (track_producer m p s)"
  "discard_previous p c (stamp n x s) = stamp n x (discard_previous p c s)"
  "tally_vote m p c b (stamp n x s) = stamp n x (tally_vote m p c b s)"
  "drop_signer c (stamp n x s) = stamp n x (drop_signer c s)"
  "drop_target c (stamp n x s) = stamp n x (drop_target c s)"
  by (auto simp: checkpoint_reset_def drop_recent_def track_producer_def discard_previous_def
      tally_vote_def cast_def validVote_def drop_signer_def drop_target_def Let_def stamp_updates
      stamp_uncast stamp_fold_uncast split: option.splits prod.splits)

lemma stamp_settle: "settle_vote m c (stamp n x s) = stamp n x (settle_vote m c s)"
  by (simp add: settle_vote_def stamp_updates stamp_steps split: option.splits)

lemma stamp_vote_header: "vote_header h (stamp n x s) = stamp n x (vote_header h s)"
  by (simp add: vote_header_def stamp_steps stamp_settle Let_def)

definition map_result :: "('a \<Rightarrow> 'b) \<Rightarrow> 'e + 'a \<Rightarrow> 'e + 'b" where
  "map_result f r = bindE r (\<lambda>x. Inr (f x))"

lemma map_result_simps [simp]: "map_result f (Inr x) = Inr (f x)" "map_result f (Inl e) = Inl e"
  by (simp_all add: map_result_def)

lemma stamp_register: "register_node m reg (stamp n x s) = map_result (stamp n x) (register_node m reg s)"
proof -
  have "RegisterAgent a k m (stamp n x s) = map_result (stamp n x) (RegisterAgent a k m s)" for a k
    by (cases "sn_Agents s"; cases "sn_AgentHistories s"; cases "sn_AgentPubKeys s")
       (auto simp: RegisterAgent_def Let_def stamp_updates)
  moreover have "RegisterPhysicalNode a m (stamp n x s) = map_result (stamp n x) (RegisterPhysicalNode a m s)" for a
    by (cases "sn_PhysicalNodes s"; cases "sn_PhysicalHistories s")
       (auto simp: RegisterPhysicalNode_def Let_def stamp_updates)
  ultimately show ?thesis by (simp add: register_node_def IsAgent_def IsPhysicalNode_def)
qed

lemma foldE_map_result:
  assumes "\<And>x s. f x (g s) = map_result g (f x s)"
  shows "foldE f xs (g s) = map_result g (foldE f xs s)"
proof (induction xs arbitrary: s)
  case Nil
  then show ?case by simp
next
  case (Cons x xs)
  then show ?case by (cases "f x s") (simp_all add: assms)
qed

lemma stamp_apply_header: "apply_header h (stamp n x s) = map_result (stamp n x) (apply_header h s)"
proof -
  have "foldE (register_node m) regs (stamp n x s) = map_result (stamp n x) (foldE (register_node m) regs s)"
    for m regs s
    by (rule foldE_map_result) (rule stamp_register)
  then have "apply_registrations m e (stamp n x s) = map_result (stamp n x) (apply_registrations m e s)" for m e s
    by (simp add: apply_registrations_def split: sum.splits)
  then show ?thesis by (simp add: apply_header_def stamp_vote_header)
qed

lemma stamp_foldE_apply:
  "foldE apply_header hs (stamp n x s) = map_result (stamp n x) (foldE apply_header hs s)"
  by (rule foldE_map_result) (rule stamp_apply_header)

lemma consecutive_append:
  "consecutive (ms @ ns) \<longleftrightarrow>
     consecutive ms \<and> consecutive ns \<and> (ms \<noteq> [] \<and> ns \<noteq> [] \<longrightarrow> hd ns = last ms + 1)"
proof (induction ms rule: consecutive.induct)
  case (1 m n ms)
  then show ?case by auto
next
  case "2_1"
  then show ?case by simp
qed (cases ns; auto)

lemma consecutive_last:
  "consecutive ms \<Longrightarrow> ms \<noteq> [] \<Longrightarrow> last ms = hd ms + of_nat (length ms) - 1"
  by (induction ms rule: consecutive.induct) auto

lemma apply_snapshot_stamp:
  assumes "headers \<noteq> []"
  shows "apply_snapshot hh headers s =
    (if consecutive (map (big_uint64 \<circ> h_Number) headers) \<and> big_uint64 (h_Number (hd headers)) = sn_Number s + 1
     then (case foldE apply_header headers (copy_snapshot s) of
             Inl p \<Rightarrow> Inl (SnapPanic p)
           | Inr snap \<Rightarrow> Inr (stamp (sn_Number snap + of_nat (length headers)) (hh (last headers)) snap))
     else Inl ErrInvalidVotingChain)"
  using assms by (auto simp: apply_snapshot_def stamp_def split: sum.splits)

lemma apply_append:
  assumes "pob_Epoch (sn_config s) \<noteq> 0" and "xs \<noteq> []" and "ys \<noteq> []"
  shows "apply_snapshot hh (xs @ ys) s = bindE (apply_snapshot hh xs s) (apply_snapshot hh ys)"
proof (cases "consecutive (map (big_uint64 \<circ> h_Number) xs) \<and> big_uint64 (h_Number (hd xs)) = sn_Number s + 1")
  case False
  then show ?thesis using assms by (auto simp: apply_snapshot_stamp consecutive_append)
next
  case True
  let ?num = "big_uint64 \<circ> h_Number"
  have c: "made (copy_snapshot s)" "pob_Epoch (sn_config (copy_snapshot s)) \<noteq> 0"
      "sn_Number (copy_snapshot s) = sn_Number s"
    using assms(1) made_copy by (simp_all add: copy_snapshot_def)
  obtain s1 where s1: "foldE apply_header xs (copy_snapshot s) = Inr s1" "made s1"
      "sn_config s1 = sn_config s" "sn_Number s1 = sn_Number s"
    using foldE_apply_total [OF c(1,2), of xs] c(3) by (auto simp: copy_snapshot_def)
  let ?s1 = "stamp (sn_Number s + of_nat (length xs)) (hh (last xs)) s1"
  have first: "apply_snapshot hh xs s = Inr ?s1"
    using True assms(2) s1 by (simp add: apply_snapshot_stamp)
  have made: "copy_snapshot ?s1 = ?s1" using s1(2) made_def stamp_fields(15) by blast
  have "last (map ?num xs) = sn_Number s + of_nat (length xs)"
    using consecutive_last [of "map ?num xs"] True assms(2) by (simp add: hd_map)
  then have junction: "consecutive (map ?num (xs @ ys)) \<longleftrightarrow>
      consecutive (map ?num ys) \<and> big_uint64 (h_Number (hd ys)) = sn_Number ?s1 + 1"
    using True assms by (simp add: consecutive_append hd_map)
  obtain s2 where s2: "foldE apply_header ys s1 = Inr s2" "sn_Number s2 = sn_Number s"
    using foldE_apply_total [OF s1(2), of ys] assms(1) s1 by auto
  have "foldE apply_header (xs @ ys) (copy_snapshot s) = Inr s2"
    using s1(1) s2(1) by (simp add: foldE_append)
  then show ?thesis
    using True assms s2 first made junction unfolding apply_snapshot_stamp [OF assms(3)]
    by (simp add: apply_snapshot_stamp stamp_foldE_apply add.assoc del: stamp_fields(15))
qed

end
