(* ===== verification/SnapshotProps.thy ===== *)
theory SnapshotProps
  imports PobSnapshot
begin

text \<open>
  What the snapshot of \<open>PobSnapshot\<close> guarantees: the contract of the three node registries, the
  round trips of the data in the extra field, the fairness of the producer choice, and the
  properties of voting over every reachable snapshot.
\<close>

section \<open>Registries\<close>

text \<open>
  What the three node registries promise: on a snapshot whose maps are usable a registration
  succeeds and adds exactly one node with a fresh score, and an unregistration removes exactly it.
\<close>

locale node_registry =
  fixes nodes :: "'s \<Rightarrow> (address, 'v) gomap"
    and ready :: "'s \<Rightarrow> bool"
    and register :: "address \<Rightarrow> u64 \<Rightarrow> 's \<Rightarrow> panic + 's"
    and unregister :: "address \<Rightarrow> 's \<Rightarrow> 's"
    and is_node :: "'s \<Rightarrow> address \<Rightarrow> bool"
    and count :: "'s \<Rightarrow> nat"
    and fresh :: "u64 \<Rightarrow> 'v"
  assumes register_nodes:
      "ready s \<Longrightarrow> \<exists>s'. register a n s = Inr s' \<and> ready s' \<and>
         entries (nodes s') = AList.update a (fresh n) (entries (nodes s))"
    and unregister_nodes: "nodes (unregister a s) = gm_del (nodes s) a"
    and unregister_ready: "ready s \<Longrightarrow> ready (unregister a s)"
    and is_node_get: "is_node s a \<longleftrightarrow> gm_get (nodes s) a \<noteq> None"
    and count_len: "count s = gm_len (nodes s)"
begin

lemma register_effect:
  assumes "ready s"
  shows "\<exists>s'. register a n s = Inr s' \<and> ready s' \<and> (\<forall>b. is_node s' b \<longleftrightarrow> b = a \<or> is_node s b) \<and>
           gm_get (nodes s') a = Some (fresh n) \<and>
           count s' = (if is_node s a then count s else Suc (count s))"
proof -
  obtain s' where s': "register a n s = Inr s'" "ready s'"
      "entries (nodes s') = AList.update a (fresh n) (entries (nodes s))"
    using register_nodes [OF assms] by blast
  then show ?thesis
    by (intro exI [of _ s'])
       (auto simp: is_node_get gm_get_def count_len gm_len_def length_update in_keys_iff)
qed

lemma unregister_is: "is_node (unregister a s) b \<longleftrightarrow> b \<noteq> a \<and> is_node s b"
  by (simp add: is_node_get unregister_nodes gm.get_del)

lemma register_unregister:
  assumes "register a n s = Inr s'" and "ready s" and "\<not> is_node s a"
  shows "is_node (unregister a s') b \<longleftrightarrow> is_node s b"
  using register_effect [OF assms(2), of a n] assms by (auto simp: unregister_is)

lemma register_keeps_contract:
  assumes "ready s"
  shows "\<exists>s'. register a n s = Inr s' \<and> (\<forall>b. is_node s' b \<longleftrightarrow> b = a \<or> is_node s b) \<and>
           gm_get (nodes s') a = Some (fresh n) \<and>
           (\<not> is_node s a \<longrightarrow> is_node (unregister a s') = is_node s)"
proof -
  obtain s' where "register a n s = Inr s'" "\<forall>b. is_node s' b \<longleftrightarrow> b = a \<or> is_node s b"
      "gm_get (nodes s') a = Some (fresh n)"
    using register_effect [OF assms, of a n] by blast
  moreover from this(1) have "\<not> is_node s a \<longrightarrow> is_node (unregister a s') = is_node s"
    using register_unregister [OF _ assms] by (simp add: fun_eq_iff)
  ultimately show ?thesis by blast
qed

end

definition sl_ready :: "PobSnapshot \<Rightarrow> bool" where
  "sl_ready s \<longleftrightarrow> sn_SmartLights s = NilMap \<or> sn_SLHistories s \<noteq> NilMap \<and> sn_SLPubKeys s \<noteq> NilMap"

definition agent_ready :: "PobSnapshot \<Rightarrow> bool" where
  "agent_ready s \<longleftrightarrow> sn_Agents s = NilMap \<or> sn_AgentHistories s \<noteq> NilMap \<and> sn_AgentPubKeys s \<noteq> NilMap"

lemma gm_make_not_NilMap [simp]: "gm_make \<noteq> NilMap"
  by (simp add: gm_make_def)

lemma gm_del_NilMap [simp]: "gm_del m k = NilMap \<longleftrightarrow> m = NilMap"
  by (cases m) simp_all

interpretation smartlights: node_registry sn_SmartLights sl_ready "\<lambda>a. RegisterSmartLight a pubKey"
    UnregisterSmartLight IsSmartLight SmartLightCount DefaultSmartLightScore
  for pubKey
proof
  show "\<exists>s'. RegisterSmartLight a pubKey n s = Inr s' \<and> sl_ready s' \<and>
      entries (sn_SmartLights s') = AList.update a (DefaultSmartLightScore n) (entries (sn_SmartLights s))"
    if "sl_ready s" for s a n
    using that by (cases "sn_SmartLights s"; cases "sn_SLHistories s"; cases "sn_SLPubKeys s")
      (auto simp: RegisterSmartLight_def sl_ready_def Let_def)
qed (auto simp: UnregisterSmartLight_def sl_ready_def IsSmartLight_def SmartLightCount_def)

interpretation agents: node_registry sn_Agents agent_ready "\<lambda>a. RegisterAgent a pubKey"
    UnregisterAgent IsAgent AgentCount DefaultAgentScore
  for pubKey
proof
  show "\<exists>s'. RegisterAgent a pubKey n s = Inr s' \<and> agent_ready s' \<and>
      entries (sn_Agents s') = AList.update a (DefaultAgentScore n) (entries (sn_Agents s))"
    if "agent_ready s" for s a n
    using that by (cases "sn_Agents s"; cases "sn_AgentHistories s"; cases "sn_AgentPubKeys s")
      (auto simp: RegisterAgent_def agent_ready_def Let_def)
qed (auto simp: UnregisterAgent_def agent_ready_def IsAgent_def AgentCount_def)

interpretation physical: node_registry sn_PhysicalNodes "\<lambda>s. True" RegisterPhysicalNode
    UnregisterPhysicalNode IsPhysicalNode PhysicalNodeCount DefaultPhysicalNodeScore
proof
  show "\<exists>s'. RegisterPhysicalNode a n s = Inr s' \<and> True \<and>
      entries (sn_PhysicalNodes s') = AList.update a (DefaultPhysicalNodeScore n) (entries (sn_PhysicalNodes s))"
    for s a n
    by (cases "sn_PhysicalNodes s"; cases "sn_PhysicalHistories s") (auto simp: RegisterPhysicalNode_def Let_def)
qed (auto simp: UnregisterPhysicalNode_def IsPhysicalNode_def PhysicalNodeCount_def)

section \<open>Encoded data\<close>

definition valid_reg :: "TestnetRegistration \<Rightarrow> bool" where
  "valid_reg r \<longleftrightarrow> tr_NodeType r = NodeTypeAgent \<or> tr_NodeType r = NodeTypePhysical"

lemma length_reg_bytes [simp]: "length (reg_bytes r) = 21"
  by (simp add: reg_bytes_def)

lemma length_concat_const: "(\<And>x. x \<in> set xs \<Longrightarrow> length (f x) = k) \<Longrightarrow> length (concat (map f xs)) = length xs * k"
  by (induction xs) auto

lemma decode_regs_concat:
  "\<forall>r \<in> set rs. valid_reg r \<Longrightarrow> decode_regs i (length rs) (concat (map reg_bytes rs)) = Inr rs"
proof (induction rs arbitrary: i)
  case Nil
  then show ?case by simp
next
  case (Cons r rs)
  have "take 20 (reg_bytes r @ x) = addr_bytes (tr_Address r)" "(reg_bytes r @ x) ! 20 = tr_NodeType r"
    "drop 21 (reg_bytes r @ x) = x" for x
    by (simp_all add: reg_bytes_def nth_append)
  then show ?case using Cons by (simp add: valid_reg_def Let_def)
qed

lemma encodeRegistrations_take:
  "regs \<noteq> [] \<Longrightarrow> encodeRegistrations regs =
     of_nat (length (take 255 regs)) # concat (map reg_bytes (take 255 regs))"
  by (simp add: encodeRegistrations_def Let_def min_def)

lemma decode_encodeRegistrations:
  assumes "\<forall>r \<in> set regs. valid_reg r"
  shows "decodeRegistrations (encodeRegistrations regs) = Inr (take 255 regs)"
proof (cases "regs = []")
  case True
  then show ?thesis by (simp add: encodeRegistrations_def decodeRegistrations_def)
next
  case False
  let ?rs = "take 255 regs"
  have n: "unat (of_nat (length ?rs) :: byte) = length ?rs"
    by (simp add: unat_of_nat)
  have "length (concat (map reg_bytes ?rs)) = length ?rs * 21" by (rule length_concat_const) simp
  moreover have "decode_regs 0 (length ?rs) (concat (map reg_bytes ?rs)) = Inr ?rs"
    using assms by (intro decode_regs_concat) (meson in_set_takeD)
  ultimately show ?thesis
    using False n unfolding encodeRegistrations_take [OF False] decodeRegistrations_def by simp
qed

lemma reg_data_Inject:
  "regs \<noteq> [] \<Longrightarrow> reg_data (InjectRegistrations extra regs) = encodeRegistrations regs \<and>
     length (InjectRegistrations extra regs) > extraVanity + extraSeal"
proof -
  assume "regs \<noteq> []"
  then have ne: "encodeRegistrations regs \<noteq> []" by (simp add: encodeRegistrations_take)
  define v where "v = take extraVanity (extra @ replicate extraVanity (0 :: byte))"
  have v: "length v = extraVanity" by (simp add: v_def)
  have e: "InjectRegistrations extra regs = v @ encodeRegistrations regs @ replicate extraSeal 0"
    using ne by (simp add: InjectRegistrations_def v_def Let_def)
  show ?thesis using ne v unfolding e reg_data_def by simp
qed

lemma decode_scores_concat:
  "decode_scores (length vs) (concat (map (\<lambda>v. addr_bytes v @ u64_bytes (f v)) vs)) m =
     fold (\<lambda>v. AList.update v (f v)) vs m"
  by (induction vs arbitrary: m) simp_all

section \<open>Choice of a producer\<close>

lemma validators_sorted: "validators s = sort (keys (sn_Validators s))"
proof -
  have "(\<lambda>a b. bytes_compare (addr_bytes a) (addr_bytes b) < 0) = (<)"
    by (auto simp: fun_eq_iff bytes_compare_addr)
  then show ?thesis by (simp add: validators_def go_sort_less)
qed

lemma select_loop_mem: "select_loop f t c vs = Some v \<Longrightarrow> v \<in> set vs"
  by (induction vs arbitrary: c) (auto simp: Let_def split: if_splits)

text \<open>A validator is chosen for the targets of an interval as long as its score.\<close>

lemma select_loop_interval:
  assumes "distinct vs" and "v \<in> set vs" and "unat c + sum_list (map (unat \<circ> f) vs) < 2 ^ 64"
  shows "\<exists>lo. unat c \<le> lo \<and> lo + unat (f v) \<le> unat c + sum_list (map (unat \<circ> f) vs) \<and>
           (\<forall>t. c \<le> t \<longrightarrow> (select_loop f t c vs = Some v \<longleftrightarrow> lo \<le> unat t \<and> unat t < lo + unat (f v)))"
  using assms
proof (induction vs arbitrary: c)
  case Nil
  then show ?case by simp
next
  case (Cons w vs)
  have c': "unat (c + f w) = unat c + unat (f w)"
    using Cons.prems(3) by (intro unat_add_noov) simp
  have lt: "t < c + f w \<longleftrightarrow> unat t < unat c + unat (f w)" for t by (simp add: word_less_nat_alt c')
  show ?case
  proof (cases "v = w")
    case True
    have "select_loop f t (c + f w) vs \<noteq> Some w" for t
      using select_loop_mem Cons.prems(1) by fastforce
    then show ?thesis using True lt
      by (intro exI [of _ "unat c"]) (auto simp: Let_def word_le_nat_alt)
  next
    case False
    then have v: "v \<in> set vs" using Cons.prems(2) by simp
    have d: "distinct vs" "unat (c + f w) + sum_list (map (unat \<circ> f) vs) < 2 ^ 64"
      using Cons.prems c' by (simp_all add: comp_def add.assoc)
    obtain lo where lo: "unat (c + f w) \<le> lo" "lo + unat (f v) \<le> unat (c + f w) + sum_list (map (unat \<circ> f) vs)"
        "\<forall>t. c + f w \<le> t \<longrightarrow> (select_loop f t (c + f w) vs = Some v \<longleftrightarrow> lo \<le> unat t \<and> unat t < lo + unat (f v))"
      using Cons.IH [OF d(1) v d(2)] by blast
    have "select_loop f t c (w # vs) = Some v \<longleftrightarrow> lo \<le> unat t \<and> unat t < lo + unat (f v)" if "c \<le> t" for t
      using False lo lt [of t] c' by (cases "t < c + f w") (auto simp: Let_def not_less)
    then show ?thesis using lo c' by (intro exI [of _ lo]) (auto simp: comp_def add.assoc)
  qed
qed

lemma select_loop_covers:
  "unat c + sum_list (map (unat \<circ> f) vs) < 2 ^ 64 \<Longrightarrow> unat t < unat c + sum_list (map (unat \<circ> f) vs) \<Longrightarrow>
     c \<le> t \<Longrightarrow> \<exists>v. select_loop f t c vs = Some v"
proof (induction vs arbitrary: c)
  case Nil
  then show ?case by (simp add: word_le_nat_alt)
next
  case (Cons w vs)
  have "unat (c + f w) = unat c + unat (f w)"
    using Cons.prems(1) by (intro unat_add_noov) simp
  then show ?case using Cons.IH [of "c + f w"] Cons.prems by (auto simp: Let_def comp_def add.assoc not_less)
qed

lemma card_u64_interval:
  assumes "lo + k \<le> 2 ^ 64"
  shows "card {t :: u64. lo \<le> unat t \<and> unat t < lo + k} = k"
proof -
  let ?A = "{t :: u64. lo \<le> unat t \<and> unat t < lo + k}"
  have "inj_on unat ?A" by (rule inj_onI) (simp add: word_unat_eq_iff)
  moreover have "unat ` ?A = {lo..<lo + k}"
  proof -
    have "y \<in> unat ` ?A" if "y \<in> {lo..<lo + k}" for y
      using that assms by (intro image_eqI [of _ _ "of_nat y"]) (simp_all add: unat_of_nat)
    then show ?thesis by auto
  qed
  ultimately show ?thesis using card_image by fastforce
qed

section \<open>Properties\<close>

text \<open>Snapshots an engine can hold: the genesis snapshot and what applying headers makes of it.\<close>

inductive reachable_snapshot :: "(Header \<Rightarrow> hash) \<Rightarrow> PobConfig \<Rightarrow> PobSnapshot \<Rightarrow> bool"
  for header_hash :: "Header \<Rightarrow> hash" and config :: PobConfig where
  genesis: "reachable_snapshot header_hash config (newSnapshot config 0 h vals)"
| applied: "reachable_snapshot header_hash config s \<Longrightarrow> apply_snapshot header_hash headers s = Inr s' \<Longrightarrow>
            reachable_snapshot header_hash config s'"

inductive_cases applied_cases: "reachable_snapshot header_hash config s"

lemma newSnapshot_ok: "votes_ok (newSnapshot config n h vals)"
  by (simp add: votes_ok_def newSnapshot_def fold_update_entries tally_of_def fun_eq_iff)

lemma apply_snapshot_ok:
  assumes "apply_snapshot hh headers s = Inr s'" and "votes_ok s" and "pob_Epoch (sn_config s) \<noteq> 0"
  shows "votes_ok s' \<and> sn_config s' = sn_config s \<and> sn_Number s' = sn_Number s + of_nat (length headers)"
proof (cases "headers = []")
  case True
  then show ?thesis using assms by (simp add: apply_snapshot_def)
next
  case False
  let ?c = "copy_snapshot s"
  have c: "made ?c" "sn_config ?c = sn_config s" "sn_Number ?c = sn_Number s" "votes_ok ?c"
    using assms(2) made_copy
    by (simp_all add: copy_snapshot_def votes_ok_def IsValidator_def [abs_def])
  obtain t where "foldE apply_header headers ?c = Inr t" "sn_config t = sn_config s"
      "sn_Number t = sn_Number s" "votes_ok t"
    using foldE_apply_total [OF c(1)] c assms(3) by metis
  moreover have "votes_ok (stamp n x t) = votes_ok t" for n x by (simp add: votes_ok_def)
  ultimately show ?thesis
    using assms(1) False by (auto simp: apply_snapshot_stamp split: if_splits)
qed

text \<open>
  C4. In every snapshot reachable from genesis the tally is exact: an address has an entry if and
  only if votes on it are pending, the entry's count is their number and its direction is the only
  one possible (add a non-validator, remove a validator); no signer has two pending votes on one
  address; validators and histories have the same keys; and the configuration is unchanged.
\<close>

theorem reachable_votes_exact:
  assumes "reachable_snapshot header_hash config s" and "pob_Epoch config \<noteq> 0"
  shows "votes_ok s \<and> sn_config s = config"
  using assms
proof (induction rule: reachable_snapshot.induct)
  case (genesis h vals)
  then show ?case using newSnapshot_ok by (simp add: newSnapshot_def)
next
  case (applied s headers s')
  then show ?case using apply_snapshot_ok by blast
qed

definition exampleConfig :: PobConfig where
  "exampleConfig =
     \<lparr>pob_Period = 15, pob_TickIntervalMs = 0, pob_Epoch = 100, pob_InitialScore = 0,
      pob_SlashFraction = 1000, pob_DemotionThreshold = 1000, pob_ValidatorList = []\<rparr>"

theorem reachable_votes_exact_witness:
  "votes_ok (newSnapshot exampleConfig 0 0 [1, 2, 3])"
  using reachable_votes_exact [OF reachable_snapshot.genesis [of "\<lambda>h. 0" exampleConfig 0 "[1, 2, 3]"]]
  by (simp add: exampleConfig_def)

text \<open>
  Whether the pending votes are all votes of validators: so it stays as long as validators produce the
  blocks, since a removed validator's votes are dropped with it.
\<close>

definition validators_vote :: "PobSnapshot \<Rightarrow> bool" where
  "validators_vote s \<longleftrightarrow> (\<forall>v \<in> set (sn_Votes s). IsValidator s (pv_Signer v))"

lemma discard_vote_subset: "set (snd (discard_vote p c vs)) \<subseteq> set vs"
  by (induction vs) (auto split: prod.splits)

lemma settle_validators_vote: "validators_vote s \<Longrightarrow> validators_vote (settle_vote n c s)"
  by (auto simp: validators_vote_def settle_vote_def drop_target_def drop_signer_def drop_recent_def Let_def IsValidator_def
      keys_update keys_delete split: option.splits)

lemma vote_header_validators_vote:
  assumes "IsValidator s (h_ValidatorAddr h)" and "validators_vote s"
  shows "validators_vote (vote_header h s)"
proof -
  let ?n = "big_uint64 (h_Number h)" and ?p = "h_ValidatorAddr h" and ?c = "h_Coinbase h"
  define s0 where "s0 = track_producer ?n ?p (drop_recent ?n (checkpoint_reset ?n s))"
  have s0: "sn_Validators s0 = sn_Validators s" "set (sn_Votes s0) \<subseteq> set (sn_Votes s)"
    by (auto simp: s0_def track_producer_def drop_recent_def checkpoint_reset_def Let_def split: if_splits)
  define s1 where "s1 = discard_previous ?p ?c s0"
  have s1: "sn_Validators s1 = sn_Validators s" "set (sn_Votes s1) \<subseteq> set (sn_Votes s)"
    using s0 discard_vote_subset [of ?p ?c "sn_Votes s0"] by (auto simp: s1_def discard_previous_def split: prod.splits option.splits)
  have "validators_vote (tally_vote ?n ?p ?c (h_Nonce h = nonceAuthVote) s1)"
    using s1 assms by (auto simp: validators_vote_def tally_vote_def cast_def IsValidator_def)
  then show ?thesis
    using settle_validators_vote by (simp add: vote_header_def Let_def s0_def s1_def)
qed

text \<open>
  C3. The validator set changes only by enough votes. If applying the votes of a header changes the
  set, the change is the address the header votes on, added if it was no validator and removed if
  it was one, and votes of pairwise different signers in that direction, pending ones or the producer's own, number
  strictly more than half of the validators. Applying does not ask that the signers be validators:
  they all are when the producer and the signers of the pending votes are, and the pending votes
  then stay with validators; the example after the theorem has a stranger's vote admit a validator.
\<close>

theorem validator_change_needs_majority:
  assumes "votes_ok s"
    and "set (keys (sn_Validators (vote_header h s))) \<noteq> set (keys (sn_Validators s))"
  shows "set (keys (sn_Validators (vote_header h s))) =
           (if IsValidator s (h_Coinbase h) then set (keys (sn_Validators s)) - {h_Coinbase h}
            else insert (h_Coinbase h) (set (keys (sn_Validators s)))) \<and>
         (\<exists>signers. distinct signers \<and> length signers > length (sn_Validators s) div 2 \<and>
            (\<forall>x \<in> set signers.
               (x = h_ValidatorAddr h \<and> (h_Nonce h = nonceAuthVote) = (\<not> IsValidator s (h_Coinbase h))) \<or>
               (\<exists>v \<in> set (sn_Votes s). pv_Signer v = x \<and> pv_Address v = h_Coinbase h \<and>
                  pv_Authorize v = (\<not> IsValidator s (h_Coinbase h)))) \<and>
            (IsValidator s (h_ValidatorAddr h) \<and> validators_vote s \<longrightarrow> (\<forall>x \<in> set signers. IsValidator s x))) \<and>
         (IsValidator s (h_ValidatorAddr h) \<and> validators_vote s \<longrightarrow> validators_vote (vote_header h s))"
proof -
  let ?n = "big_uint64 (h_Number h)" and ?p = "h_ValidatorAddr h" and ?c = "h_Coinbase h"
  let ?auth = "h_Nonce h = nonceAuthVote"
  define s0 where "s0 = track_producer ?n ?p (drop_recent ?n (checkpoint_reset ?n s))"
  define s1 where "s1 = discard_previous ?p ?c s0"
  define s2 where "s2 = tally_vote ?n ?p ?c ?auth s1"
  have ok0: "votes_ok s0" unfolding s0_def using assms(1) by (intro track_producer_ok drop_recent_ok checkpoint_reset_ok)
  have v0: "sn_Validators s0 = sn_Validators s" "set (sn_Votes s0) \<subseteq> set (sn_Votes s)"
    by (auto simp: s0_def track_producer_def drop_recent_def checkpoint_reset_def Let_def split: if_splits)
  note ok1 = discard_previous_ok [OF ok0, of ?p ?c, folded s1_def]
  have ok2: "votes_ok s2" unfolding s2_def using ok1 by (intro tally_vote_ok) auto
  have v2: "sn_Validators s2 = sn_Validators s"
    using ok1 v0 by (simp add: s2_def tally_vote_def cast_def)
  then have iv: "IsValidator s2 = IsValidator s" by (simp add: IsValidator_def fun_eq_iff)
  have final: "vote_header h s = settle_vote ?n ?c s2"
    by (simp add: vote_header_def Let_def s0_def s1_def s2_def)
  have "\<exists>t. map_of (sn_Tally s2) ?c = Some t \<and> ta_Votes t > int (length (sn_Validators s2) div 2)"
    using assms(2) v2 unfolding final settle_vote_def by (auto split: option.splits if_splits)
  then obtain t where t: "map_of (sn_Tally s2) ?c = Some t" "ta_Votes t > int (length (sn_Validators s) div 2)"
    using v2 by auto
  let ?vs = "filter (\<lambda>v. pv_Address v = ?c) (sn_Votes s2)"
  have T: "ta_Authorize t = (\<not> IsValidator s ?c)" "ta_Votes t = int (length ?vs)"
    using t(1) ok2 iv by (auto simp: votes_ok_def tally_of_def Let_def split: if_splits)
  have keys: "set (keys (sn_Validators (vote_header h s))) =
      (if IsValidator s ?c then set (keys (sn_Validators s)) - {?c} else insert ?c (set (keys (sn_Validators s))))"
    using t T v2 unfolding final settle_vote_def
    by (auto simp: drop_target_def drop_signer_def drop_recent_def Let_def keys_update keys_delete IsValidator_def)
  have "distinct (map pv_Signer ?vs)"
  proof -
    have "distinct (map vote_key ?vs)" using ok2 by (simp add: votes_ok_def distinct_map_filter)
    moreover have "inj_on pv_Signer (set ?vs) = inj_on vote_key (set ?vs)"
      by (auto simp: inj_on_def vote_key_def)
    ultimately show ?thesis by (simp add: distinct_map)
  qed
  moreover have "length (map pv_Signer ?vs) > length (sn_Validators s) div 2"
    using t(2) T(2) by simp
  moreover have "(x = ?p \<and> ?auth = (\<not> IsValidator s ?c)) \<or>
      (\<exists>v \<in> set (sn_Votes s). pv_Signer v = x \<and> pv_Address v = ?c \<and> pv_Authorize v = (\<not> IsValidator s ?c))"
    if x: "x \<in> set (map pv_Signer ?vs)" for x
  proof -
    obtain v where v: "v \<in> set (sn_Votes s2)" "pv_Address v = ?c" "pv_Signer v = x" using x by auto
    have a: "pv_Authorize v = (\<not> IsValidator s ?c)" using v ok2 iv by (auto simp: votes_ok_def)
    have "v \<in> set (sn_Votes s1) \<or> (x = ?p \<and> pv_Authorize v = ?auth)"
      using v by (auto simp: s2_def tally_vote_def cast_def split: if_splits)
    then show ?thesis using a v ok1 v0(2) by auto
  qed
  ultimately have "\<exists>signers. distinct signers \<and> length signers > length (sn_Validators s) div 2 \<and>
      (\<forall>x \<in> set signers. (x = ?p \<and> ?auth = (\<not> IsValidator s ?c)) \<or>
         (\<exists>v \<in> set (sn_Votes s). pv_Signer v = x \<and> pv_Address v = ?c \<and> pv_Authorize v = (\<not> IsValidator s ?c)))"
    by blast
  then obtain signers where sg: "distinct signers" "length signers > length (sn_Validators s) div 2"
      "\<forall>x \<in> set signers. (x = ?p \<and> ?auth = (\<not> IsValidator s ?c)) \<or>
         (\<exists>v \<in> set (sn_Votes s). pv_Signer v = x \<and> pv_Address v = ?c \<and> pv_Authorize v = (\<not> IsValidator s ?c))" by blast
  have "\<forall>x \<in> set signers. IsValidator s x" if "IsValidator s ?p" "validators_vote s"
    using sg(3) that by (auto simp: validators_vote_def)
  then show ?thesis using keys sg vote_header_validators_vote by blast
qed

theorem validator_change_needs_majority_witness:
  "let s = newSnapshot exampleConfig 0 0 [5];
       h = exampleHeader\<lparr>h_ValidatorAddr := 9, h_Coinbase := 7, h_Nonce := nonceAuthVote\<rparr>
   in \<not> IsValidator s 9 \<and> set (keys (sn_Validators (vote_header h s))) = {5, 7} \<and>
      (\<exists>signers. distinct signers \<and> length signers > 0 \<and> set signers \<subseteq> {9 :: address})"
proof -
  let ?s = "newSnapshot exampleConfig 0 0 [5]"
  let ?h = "exampleHeader\<lparr>h_ValidatorAddr := 9, h_Coinbase := 7, h_Nonce := nonceAuthVote\<rparr>"
  have n: "sn_Validators ?s = [(5, DefaultBehaviorScore defaultInitialScore 0)]" "sn_Votes ?s = []"
    "sn_Tally ?s = []" "pob_Epoch (sn_config ?s) = 100"
    by (simp_all add: newSnapshot_def initial_score_def exampleConfig_def)
  define s0 where "s0 = track_producer 1 9 (drop_recent 1 (checkpoint_reset 1 ?s))"
  have s0: "sn_Validators s0 = sn_Validators ?s" "sn_Votes s0 = []" "sn_Tally s0 = []"
    using n by (simp_all add: s0_def track_producer_def drop_recent_def checkpoint_reset_def Let_def)
  define s2 where "s2 = tally_vote 1 9 7 True (discard_previous 9 7 s0)"
  have s2: "sn_Validators s2 = sn_Validators ?s" "sn_Tally s2 = [(7, \<lparr>ta_Authorize = True, ta_Votes = 1\<rparr>)]"
    using s0 n by (simp_all add: s2_def discard_previous_def tally_vote_def cast_def validVote_def IsValidator_def)
  have "vote_header ?h ?s = settle_vote 1 7 s2"
    by (simp add: vote_header_def exampleHeader_def Let_def s2_def s0_def big_uint64_def)
  then have ch: "set (keys (sn_Validators (vote_header ?h ?s))) = {5, 7}"
    using s2 n by (simp add: settle_vote_def drop_target_def insert_commute)
  have "set (keys (sn_Validators (vote_header ?h ?s))) \<noteq> set (keys (sn_Validators ?s))"
    unfolding ch n(1) by auto
  from validator_change_needs_majority [OF newSnapshot_ok this] obtain signers where
    sg: "distinct signers" "length signers > length (sn_Validators ?s) div 2"
    "\<forall>x \<in> set signers. (x = h_ValidatorAddr ?h \<and> (h_Nonce ?h = nonceAuthVote) = (\<not> IsValidator ?s (h_Coinbase ?h))) \<or>
       (\<exists>v \<in> set (sn_Votes ?s). pv_Signer v = x \<and> pv_Address v = h_Coinbase ?h \<and>
          pv_Authorize v = (\<not> IsValidator ?s (h_Coinbase ?h)))"
    by blast
  from sg n(2) have "set signers \<subseteq> {9}" by auto
  moreover have "length signers > 0" using sg(2) by linarith
  moreover have "\<not> IsValidator ?s 9" using n(1) by (simp add: IsValidator_def)
  ultimately show ?thesis unfolding Let_def using ch sg(1) by blast
qed

text \<open>
  Headers can be applied in any batches: applying a chain at once gives the same snapshot,
  or the same error, as applying a first part and then the rest to the result, so it does not
  matter which snapshots of a chain an engine had cached. A chain whose numbers continue the
  snapshot's always applies.
\<close>

theorem apply_in_batches:
  assumes "pob_Epoch (sn_config s) \<noteq> 0"
  shows "apply_snapshot hh (xs @ ys) s = bindE (apply_snapshot hh xs s) (apply_snapshot hh ys) \<and>
         ((\<exists>s'. apply_snapshot hh xs s = Inr s') \<longleftrightarrow>
            xs = [] \<or> consecutive (map (big_uint64 \<circ> h_Number) xs) \<and>
                      big_uint64 (h_Number (hd xs)) = sn_Number s + 1)"
proof
  show "apply_snapshot hh (xs @ ys) s = bindE (apply_snapshot hh xs s) (apply_snapshot hh ys)"
  proof (cases "xs = [] \<or> ys = []")
    case True
    have "bindE r (apply_snapshot hh []) = r" for r
      by (cases r) (simp_all add: apply_snapshot_def)
    then show ?thesis using True by (auto simp: apply_snapshot_def [of hh "[]"])
  next
    case False
    then show ?thesis using apply_append [OF assms] by simp
  qed
  have "\<exists>t. foldE apply_header xs (copy_snapshot s) = Inr t"
    using foldE_apply_total [OF made_copy, of s xs] assms by (auto simp: copy_snapshot_def)
  then show "(\<exists>s'. apply_snapshot hh xs s = Inr s') \<longleftrightarrow>
      xs = [] \<or> consecutive (map (big_uint64 \<circ> h_Number) xs) \<and> big_uint64 (h_Number (hd xs)) = sn_Number s + 1"
    by (cases "xs = []") (auto simp: apply_snapshot_stamp, simp add: apply_snapshot_def)
qed

theorem apply_in_batches_witness:
  "\<exists>s'. apply_snapshot (\<lambda>h. 9) [exampleHeader] (newSnapshot exampleConfig 0 0 [5]) = Inr s'"
  using apply_in_batches [of "newSnapshot exampleConfig 0 0 [5]" "\<lambda>h. 9" "[exampleHeader]" "[]"]
  by (simp add: newSnapshot_def exampleConfig_def exampleHeader_def big_uint64_def)

text \<open>
  C5. The producer is chosen fairly and deterministically. With at least two validators and a
  positive total score that does not wrap, the choice is a function of the seed modulo the total,
  and each validator is chosen for exactly as many of the residues as its score. The chosen address
  is always a validator, and the choice does not depend on the order in which the map of validators
  is visited.
\<close>

theorem selectProducer_fair:
  assumes "wf_entries (sn_Validators s)" and "length (sn_Validators s) \<ge> 2"
    and "sum_list (map (unat \<circ> bs_Total \<circ> snd) (sn_Validators s)) < 2 ^ 64"
    and "totalScore s \<noteq> 0"
  shows "(\<exists>pick. (\<forall>number parentHash. selectProducer keccak s number parentHash =
                     pick (makeSeed keccak parentHash number mod totalScore s)) \<and>
            (\<forall>v \<in> set (keys (sn_Validators s)).
               card {t. t < totalScore s \<and> pick t = v} = unat (score_of s v))) \<and>
         (\<forall>number parentHash. IsValidator s (selectProducer keccak s number parentHash)) \<and>
         (\<forall>s' number parentHash. mset (sn_Validators s') = mset (sn_Validators s) \<longrightarrow>
            selectProducer keccak s' number parentHash = selectProducer keccak s number parentHash)"
proof (intro conjI allI impI)
  let ?vals = "validators s"
  let ?pick = "\<lambda>t. case select_loop (score_of s) t 0 ?vals of Some v \<Rightarrow> v | None \<Rightarrow> ?vals ! (length ?vals - 1)"
  have len: "length ?vals = length (sn_Validators s)" by (simp add: validators_sorted keys_def)
  have set: "set ?vals = set (keys (sn_Validators s))" by (simp add: validators_sorted)
  have dist: "distinct ?vals" using assms(1) by (simp add: validators_sorted wf_entries_def)
  have sc: "map (score_of s) (keys (sn_Validators s)) = map (bs_Total \<circ> snd) (sn_Validators s)"
    using assms(1) by (auto simp: score_of_def keys_def wf_entries_def)
  have "mset (map (unat \<circ> score_of s) ?vals) = mset (map unat (map (score_of s) (keys (sn_Validators s))))"
    by (simp add: validators_sorted)
  then have sums: "sum_list (map (unat \<circ> score_of s) ?vals) = sum_list (map (unat \<circ> bs_Total \<circ> snd) (sn_Validators s))"
    unfolding sc using sum_list_mset_cong by (fastforce simp: comp_assoc)
  have tot: "unat (totalScore s) = sum_list (map (unat \<circ> score_of s) ?vals)"
    unfolding sums totalScore_def using sum_list_u64_noov [of "map (bs_Total \<circ> snd) (sn_Validators s)"] assms(3)
    by (simp add: comp_assoc)
  have sel: "selectProducer keccak s number parentHash = ?pick (makeSeed keccak parentHash number mod totalScore s)"
    for number parentHash
  proof -
    have "length ?vals \<noteq> 0" "length ?vals \<noteq> 1" using assms(2) len by linarith+
    then show ?thesis using assms(4) by (simp only: selectProducer_def Let_def if_False)
  qed
  have total: "\<exists>v. select_loop (score_of s) t 0 ?vals = Some v" if "t < totalScore s" for t
    using that tot select_loop_covers [of 0 "score_of s" ?vals t] sums assms(3) by (simp add: word_less_nat_alt)
  have card: "card {t. t < totalScore s \<and> ?pick t = v} = unat (score_of s v)" if v: "v \<in> set ?vals" for v
  proof -
    obtain lo where lo: "lo + unat (score_of s v) \<le> sum_list (map (unat \<circ> score_of s) ?vals)"
        "\<forall>t. select_loop (score_of s) t 0 ?vals = Some v \<longleftrightarrow> lo \<le> unat t \<and> unat t < lo + unat (score_of s v)"
      using select_loop_interval [OF dist v, of 0 "score_of s"] sums assms(3) by auto
    have "{t. t < totalScore s \<and> ?pick t = v} = {t. lo \<le> unat t \<and> unat t < lo + unat (score_of s v)}"
    proof (intro Collect_cong)
      fix t
      show "t < totalScore s \<and> ?pick t = v \<longleftrightarrow> lo \<le> unat t \<and> unat t < lo + unat (score_of s v)"
      proof (cases "t < totalScore s")
        case True
        then obtain w where w: "select_loop (score_of s) t 0 ?vals = Some w" using total by blast
        then show ?thesis using True lo(2) by (metis option.inject option.simps(5))
      next
        case False
        then have "sum_list (map (unat \<circ> score_of s) ?vals) \<le> unat t"
          using tot by (simp add: word_less_nat_alt)
        then show ?thesis using False lo(1) by auto
      qed
    qed
    then show ?thesis using card_u64_interval [of lo "unat (score_of s v)"] lo(1) sums assms(3) by simp
  qed
  show "\<exists>pick. (\<forall>number parentHash. selectProducer keccak s number parentHash =
                   pick (makeSeed keccak parentHash number mod totalScore s)) \<and>
          (\<forall>v \<in> set (keys (sn_Validators s)). card {t. t < totalScore s \<and> pick t = v} = unat (score_of s v))"
    using sel card set by (intro exI [of _ ?pick]) auto
  show "IsValidator s (selectProducer keccak s number parentHash)" for number parentHash
    using select_loop_mem set len assms(2) unfolding sel IsValidator_def
    by (auto split: option.splits simp flip: set intro!: nth_mem)
  show "selectProducer keccak s' number parentHash = selectProducer keccak s number parentHash"
    if m: "mset (sn_Validators s') = mset (sn_Validators s)" for s' number parentHash
  proof -
    have "validators s' = ?vals"
      unfolding validators_sorted keys_def using m by (metis mset_map properties_for_sort sorted_sort mset_sort)
    moreover have "totalScore s' = totalScore s"
      unfolding totalScore_def using m by (intro sum_list_mset_cong) simp
    moreover have "score_of s' = score_of s"
      using map_of_mset_cong [OF assms(1) m [symmetric]] by (simp add: score_of_def fun_eq_iff)
    ultimately show ?thesis by (simp only: selectProducer_def)
  qed
qed

theorem selectProducer_fair_witness:
  "\<exists>pick. \<forall>v \<in> {1, 2 :: address}.
     card {t. t < totalScore (newSnapshot exampleConfig 0 0 [1, 2]) \<and> pick t = v} =
     unat (score_of (newSnapshot exampleConfig 0 0 [1, 2]) v)"
proof -
  let ?s = "newSnapshot exampleConfig 0 0 [1, 2]"
  let ?b = "DefaultBehaviorScore defaultInitialScore 0"
  have n: "sn_Validators ?s = [(1, ?b), (2, ?b)]"
    by (simp add: newSnapshot_def initial_score_def exampleConfig_def)
  have "wf_entries (sn_Validators ?s)" "2 \<le> length (sn_Validators ?s)"
    "sum_list (map (unat \<circ> bs_Total \<circ> snd) (sn_Validators ?s)) < 2 ^ 64" "totalScore ?s \<noteq> 0"
    unfolding totalScore_def n by (simp_all add: wf_entries_def DefaultBehaviorScore_def defaultInitialScore_def)
  from selectProducer_fair [OF this, of "\<lambda>b. 0"] show ?thesis unfolding n by auto
qed

text \<open>
  C38. Checkpoint data round trips up to 255 validators: decoding what \<open>encodeBehaviorData\<close>
  writes gives every validator its total score. With 256 or more validators the count byte wraps
  and the data is rejected.
\<close>

theorem behaviorData_roundtrip:
  assumes "wf_entries (sn_Validators s)"
  shows "if length (sn_Validators s) \<le> 255
         then \<exists>m. decodeBehaviorData (encodeBehaviorData s) = Inr m \<and>
                  map_of m = map_option bs_Total \<circ> map_of (sn_Validators s)
         else decodeBehaviorData (encodeBehaviorData s) = Inl ErrInvalidCheckpointValidators"
proof -
  let ?vals = "validators s"
  let ?body = "concat (map (\<lambda>v. addr_bytes v @ u64_bytes (score_of s v)) ?vals)"
  have len: "length ?vals = length (sn_Validators s)" by (simp add: validators_sorted keys_def)
  have body: "length ?body = length ?vals * 28" by (rule length_concat_const) simp
  have n: "unat (of_nat (length ?vals) :: byte) = length ?vals mod 256" by (simp add: unat_of_nat)
  have enc: "encodeBehaviorData s = of_nat (length ?vals) # ?body"
    by (simp add: encodeBehaviorData_def Let_def)
  have dec: "decodeBehaviorData (encodeBehaviorData s) =
      (if length ?vals = length ?vals mod 256 then Inr (decode_scores (length ?vals) ?body [])
       else Inl ErrInvalidCheckpointValidators)"
    using body n unfolding enc decodeBehaviorData_def by auto
  show ?thesis
  proof (cases "length (sn_Validators s) \<le> 255")
    case True
    then have "length ?vals = length ?vals mod 256" using len by simp
    then have d: "decodeBehaviorData (encodeBehaviorData s) = Inr (fold (\<lambda>v. AList.update v (score_of s v)) ?vals [])"
      using dec by (simp add: decode_scores_concat)
    have "map_of (fold (\<lambda>v. AList.update v (score_of s v)) ?vals []) a =
        (map_option bs_Total \<circ> map_of (sn_Validators s)) a" for a
    proof (cases "map_of (sn_Validators s) a")
      case None
      then have "a \<notin> set ?vals" by (simp add: validators_sorted in_keys_iff)
      then show ?thesis using None by (simp add: fold_update_entries(3))
    next
      case (Some b)
      then have "a \<in> set ?vals" by (simp add: validators_sorted in_keys_iff)
      then show ?thesis using Some by (simp add: fold_update_entries(3) score_of_def)
    qed
    then show ?thesis using True d by auto
  next
    case False
    then have "length ?vals \<noteq> length ?vals mod 256"
      using len mod_less_divisor [of 256 "length ?vals"] by linarith
    then show ?thesis using False dec by simp
  qed
qed

theorem behaviorData_roundtrip_witness:
  "\<exists>m. decodeBehaviorData (encodeBehaviorData (newSnapshot exampleConfig 0 0 [1, 2])) = Inr m"
proof -
  have n: "sn_Validators (newSnapshot exampleConfig 0 0 [1, 2]) =
      [(1, DefaultBehaviorScore defaultInitialScore 0), (2, DefaultBehaviorScore defaultInitialScore 0)]"
    by (simp add: newSnapshot_def initial_score_def exampleConfig_def)
  have "wf_entries (sn_Validators (newSnapshot exampleConfig 0 0 [1, 2]))"
    unfolding n by (simp add: wf_entries_def)
  from behaviorData_roundtrip [OF this] show ?thesis unfolding n by auto
qed

lemma register_node_effect:
  assumes "made s" and "register_node n reg s = Inr s'"
  shows "(IsAgent s' a \<longleftrightarrow> IsAgent s a \<or> tr_NodeType reg = NodeTypeAgent \<and> a = tr_Address reg) \<and>
         (IsPhysicalNode s' a \<longleftrightarrow> IsPhysicalNode s a \<or> tr_NodeType reg = NodeTypePhysical \<and> a = tr_Address reg) \<and>
         made s'"
proof -
  have r: "agent_ready s" using assms(1) by (simp add: made_iff agent_ready_def)
  have m: "made s'" using register_node_total [OF assms(1), of n reg] assms(2) by auto
  obtain a' where a': "RegisterAgent (tr_Address reg) [] n s = Inr a'"
      "\<forall>b. IsAgent a' b \<longleftrightarrow> b = tr_Address reg \<or> IsAgent s b"
    using agents.register_effect [OF r, of "tr_Address reg" "[]" n] by blast
  obtain p' where p': "RegisterPhysicalNode (tr_Address reg) n s = Inr p'"
      "\<forall>b. IsPhysicalNode p' b \<longleftrightarrow> b = tr_Address reg \<or> IsPhysicalNode s b"
    using physical.register_effect [OF TrueI, of "tr_Address reg" n s] by blast
  have "IsPhysicalNode a' = IsPhysicalNode s"
    using a'(1) by (auto simp: RegisterAgent_def IsPhysicalNode_def Let_def fun_eq_iff split: if_splits)
  moreover have "IsAgent p' = IsAgent s"
    using p'(1) by (auto simp: RegisterPhysicalNode_def IsAgent_def Let_def fun_eq_iff)
  ultimately show ?thesis
    using assms(2) a' p' m by (auto simp: register_node_def NodeTypeAgent_def NodeTypePhysical_def split: if_splits)
qed

lemma foldE_register_effect:
  "made s \<Longrightarrow> foldE (register_node n) regs s = Inr s' \<Longrightarrow>
     (IsAgent s' a \<longleftrightarrow> IsAgent s a \<or> (\<exists>r \<in> set regs. tr_NodeType r = NodeTypeAgent \<and> a = tr_Address r)) \<and>
     (IsPhysicalNode s' a \<longleftrightarrow> IsPhysicalNode s a \<or> (\<exists>r \<in> set regs. tr_NodeType r = NodeTypePhysical \<and> a = tr_Address r))"
proof (induction regs arbitrary: s)
  case Nil
  then show ?case by simp
next
  case (Cons r regs)
  then obtain t where t: "register_node n r s = Inr t" "foldE (register_node n) regs t = Inr s'" by auto
  then show ?case
    using register_node_effect [OF Cons.prems(1) t(1), of a] Cons.IH [OF _ t(2)] by auto
qed

text \<open>
  C37. Registrations survive the trip through a block: what \<open>InjectRegistrations\<close> puts into the
  extra field decodes to the (first 255) registrations, and applying a block off a checkpoint
  registers exactly those agents and physical nodes, on top of the ones there were.
\<close>

theorem registrations_applied:
  assumes "made s" and "regs \<noteq> []" and "\<forall>r \<in> set regs. valid_reg r"
    and "number mod pob_Epoch (sn_config s) \<noteq> 0"
  shows "decodeRegistrations (reg_data (InjectRegistrations extra regs)) = Inr (take 255 regs) \<and>
         (\<exists>s'. apply_registrations number (InjectRegistrations extra regs) s = Inr s' \<and>
            (\<forall>a. IsAgent s' a \<longleftrightarrow> IsAgent s a \<or>
               (\<exists>r \<in> set (take 255 regs). tr_NodeType r = NodeTypeAgent \<and> a = tr_Address r)) \<and>
            (\<forall>a. IsPhysicalNode s' a \<longleftrightarrow> IsPhysicalNode s a \<or>
               (\<exists>r \<in> set (take 255 regs). tr_NodeType r = NodeTypePhysical \<and> a = tr_Address r)))"
proof -
  note inj = reg_data_Inject [OF assms(2), of extra]
  have dec: "decodeRegistrations (reg_data (InjectRegistrations extra regs)) = Inr (take 255 regs)"
    using inj decode_encodeRegistrations [OF assms(3)] by simp
  obtain s' where s': "foldE (register_node number) (take 255 regs) s = Inr s'"
    using foldE_register_total [OF assms(1)] by blast
  then have "apply_registrations number (InjectRegistrations extra regs) s = Inr s'"
    using inj dec assms(4) by (simp add: apply_registrations_def)
  then show ?thesis using dec foldE_register_effect [OF assms(1) s'] by blast
qed

theorem registrations_applied_witness:
  "\<exists>s'. apply_registrations 1 (InjectRegistrations [] [\<lparr>tr_Address = 7, tr_NodeType = NodeTypeAgent\<rparr>])
      (copy_snapshot (newSnapshot exampleConfig 0 0 [1])) = Inr s' \<and> IsAgent s' 7"
proof -
  let ?r = "\<lparr>tr_Address = 7, tr_NodeType = NodeTypeAgent\<rparr>"
  have "[?r] \<noteq> []" "\<forall>r \<in> set [?r]. valid_reg r"
    "(1 :: u64) mod pob_Epoch (sn_config (copy_snapshot (newSnapshot exampleConfig 0 0 [1]))) \<noteq> 0"
    by (simp_all add: valid_reg_def copy_snapshot_def newSnapshot_def exampleConfig_def)
  from registrations_applied [OF made_copy this, of "[]"] show ?thesis by auto
qed

text \<open>
  C39. The registries keep their contract. On a snapshot whose maps are made, registering a node
  of any kind succeeds, makes exactly that address a node of the kind and gives it the default
  score; unregistering it again restores who is registered. A registration with a key on a snapshot
  that holds nodes but whose key map is nil, which is how an empty key map is read back from the
  database, panics.
\<close>

theorem registry_contract:
  "(made s \<longrightarrow>
      (\<exists>s'. RegisterSmartLight a k n s = Inr s' \<and> (\<forall>b. IsSmartLight s' b \<longleftrightarrow> b = a \<or> IsSmartLight s b) \<and>
         gm_get (sn_SmartLights s') a = Some (DefaultSmartLightScore n) \<and>
         (\<not> IsSmartLight s a \<longrightarrow> IsSmartLight (UnregisterSmartLight a s') = IsSmartLight s)) \<and>
      (\<exists>s'. RegisterAgent a k n s = Inr s' \<and> (\<forall>b. IsAgent s' b \<longleftrightarrow> b = a \<or> IsAgent s b) \<and>
         gm_get (sn_Agents s') a = Some (DefaultAgentScore n) \<and>
         (\<not> IsAgent s a \<longrightarrow> IsAgent (UnregisterAgent a s') = IsAgent s)) \<and>
      (\<exists>s'. RegisterPhysicalNode a n s = Inr s' \<and> (\<forall>b. IsPhysicalNode s' b \<longleftrightarrow> b = a \<or> IsPhysicalNode s b) \<and>
         gm_get (sn_PhysicalNodes s') a = Some (DefaultPhysicalNodeScore n) \<and>
         (\<not> IsPhysicalNode s a \<longrightarrow> IsPhysicalNode (UnregisterPhysicalNode a s') = IsPhysicalNode s))) \<and>
   (sn_Agents s \<noteq> NilMap \<and> sn_AgentHistories s \<noteq> NilMap \<and> sn_AgentPubKeys s = NilMap \<and> k \<noteq> [] \<longrightarrow>
      RegisterAgent a k n s = Inl PanicNilMap)"
proof (intro conjI impI)
  assume m: "made s"
  then have r: "sl_ready s" "agent_ready s" by (simp_all add: made_iff sl_ready_def agent_ready_def)
  show "\<exists>s'. RegisterSmartLight a k n s = Inr s' \<and> (\<forall>b. IsSmartLight s' b \<longleftrightarrow> b = a \<or> IsSmartLight s b) \<and>
      gm_get (sn_SmartLights s') a = Some (DefaultSmartLightScore n) \<and>
      (\<not> IsSmartLight s a \<longrightarrow> IsSmartLight (UnregisterSmartLight a s') = IsSmartLight s)"
    by (rule smartlights.register_keeps_contract [OF r(1)])
  show "\<exists>s'. RegisterAgent a k n s = Inr s' \<and> (\<forall>b. IsAgent s' b \<longleftrightarrow> b = a \<or> IsAgent s b) \<and>
      gm_get (sn_Agents s') a = Some (DefaultAgentScore n) \<and>
      (\<not> IsAgent s a \<longrightarrow> IsAgent (UnregisterAgent a s') = IsAgent s)"
    by (rule agents.register_keeps_contract [OF r(2)])
  show "\<exists>s'. RegisterPhysicalNode a n s = Inr s' \<and> (\<forall>b. IsPhysicalNode s' b \<longleftrightarrow> b = a \<or> IsPhysicalNode s b) \<and>
      gm_get (sn_PhysicalNodes s') a = Some (DefaultPhysicalNodeScore n) \<and>
      (\<not> IsPhysicalNode s a \<longrightarrow> IsPhysicalNode (UnregisterPhysicalNode a s') = IsPhysicalNode s)"
    by (rule physical.register_keeps_contract [OF TrueI])
next
  assume a: "sn_Agents s \<noteq> NilMap \<and> sn_AgentHistories s \<noteq> NilMap \<and> sn_AgentPubKeys s = NilMap \<and> k \<noteq> []"
  then show "RegisterAgent a k n s = Inl PanicNilMap"
    by (cases "sn_Agents s"; cases "sn_AgentHistories s") (auto simp: RegisterAgent_def Let_def)
qed

theorem registry_contract_witness:
  "\<exists>s'. RegisterAgent 7 [1] 3 (copy_snapshot (newSnapshot exampleConfig 0 0 [1])) = Inr s' \<and> IsAgent s' 7"
  using registry_contract [of "copy_snapshot (newSnapshot exampleConfig 0 0 [1])" 7 "[1]" 3] made_copy by blast

text \<open>
  C13. Applying headers is well typed. When the configured epoch is not zero, a non-empty run of headers that
  continues the snapshot's number is applied without a panic, whatever nil maps the snapshot was read back with. In
  the result the maps of the smart lights, agents and physical nodes, of their histories and keys and of
  the relays are all made and the two gold figures set; \<open>PubKeys\<close>, which \<open>copy\<close> leaves out, is nil; the configuration is kept, and the
  number and hash are those of the last header. A run with a gap, or that does not continue the
  snapshot, is refused with \<open>ErrInvalidVotingChain\<close>.
\<close>

theorem apply_well_formed:
  assumes "pob_Epoch (sn_config s) \<noteq> 0" and "headers \<noteq> []"
  shows "if consecutive (map (big_uint64 \<circ> h_Number) headers) \<and> big_uint64 (h_Number (hd headers)) = sn_Number s + 1
         then \<exists>s'. apply_snapshot hh headers s = Inr s' \<and>
                sn_SmartLights s' \<noteq> NilMap \<and> sn_SLHistories s' \<noteq> NilMap \<and> sn_SLPubKeys s' \<noteq> NilMap \<and>
                sn_Agents s' \<noteq> NilMap \<and> sn_AgentHistories s' \<noteq> NilMap \<and> sn_AgentPubKeys s' \<noteq> NilMap \<and>
                sn_RelayInfos s' \<noteq> NilMap \<and> sn_PhysicalNodes s' \<noteq> NilMap \<and> sn_PhysicalHistories s' \<noteq> NilMap \<and>
                sn_GoldReserveOZ s' \<noteq> None \<and> sn_CumulativeGDPWei s' \<noteq> None \<and> sn_PubKeys s' = NilMap \<and>
                sn_config s' = sn_config s \<and>
                sn_Number s' = big_uint64 (h_Number (last headers)) \<and> sn_Hash s' = hh (last headers)
         else apply_snapshot hh headers s = Inl ErrInvalidVotingChain"
proof (cases "consecutive (map (big_uint64 \<circ> h_Number) headers) \<and> big_uint64 (h_Number (hd headers)) = sn_Number s + 1")
  case True
  have c: "made (copy_snapshot s)" "pob_Epoch (sn_config (copy_snapshot s)) \<noteq> 0"
    using assms(1) made_copy by (simp_all add: copy_snapshot_def)
  obtain s' where s': "foldE apply_header headers (copy_snapshot s) = Inr s'" "made s'" "sn_config s' = sn_config s" "sn_Number s' = sn_Number s"
    using foldE_apply_total [OF c, of headers] by (auto simp: copy_snapshot_def)
  have "big_uint64 (h_Number (last headers)) = sn_Number s + of_nat (length headers)"
    using consecutive_last [of "map (big_uint64 \<circ> h_Number) headers"] True assms(2) by (simp add: hd_map last_map)
  then show ?thesis
    using True assms(2) s' stamp_fields(15) [of "sn_Number s + of_nat (length headers)" "hh (last headers)" s']
    by (simp add: apply_snapshot_stamp made_iff) (simp add: stamp_def)
qed (use assms(2) in \<open>auto simp: apply_snapshot_stamp\<close>)

theorem apply_well_formed_witness:
  "\<exists>s'. apply_snapshot (\<lambda>h. 5) [exampleHeader] (newSnapshot exampleConfig 0 0 [1, 2]) = Inr s' \<and>
     sn_Agents s' \<noteq> NilMap \<and> sn_PubKeys s' = NilMap \<and> sn_Number s' = 1"
proof -
  have "pob_Epoch (sn_config (newSnapshot exampleConfig 0 0 [1, 2])) \<noteq> 0" "[exampleHeader] \<noteq> []"
    by (simp_all add: newSnapshot_def exampleConfig_def)
  from apply_well_formed [OF this, of "\<lambda>h. 5"] show ?thesis
    by (auto simp: newSnapshot_def exampleHeader_def big_uint64_def)
qed

end
