(* ===== verification/Transaction.thy ===== *)
theory Transaction
  imports Header Params Accounts
begin

text \<open>
  Transactions and their signatures (\<open>src/core/types/transaction.go\<close>, \<open>legacy_tx.go\<close>,
  \<open>access_list_tx.go\<close>, \<open>dynamic_fee_tx.go\<close>, \<open>dilithium_tx.go\<close>, \<open>superlight_tx.go\<close>, \<open>agent_tx.go\<close>,
  \<open>transaction_signing.go\<close>): the six kinds of transaction data, their encodings and hashes, and the
  signers of the forks with the recovery of a sender.

  The inner data of a transaction is always a copy made by \<open>copy\<close>, which reads a nil number as
  zero, or decoded, which sets every field: numbers are plain integers. The curve secp256k1 and the
  Dilithium package of \<open>circl\<close> are the parameters of the record \<open>Crypto\<close>; a Dilithium public key is
  identified with its packed form. Of the caches of a transaction the one that holds the recovered
  sender is modelled; the hash cache only saves work, and the size cache is left out: a typed transaction
  that was decoded reports the size of its encoding, one byte more than a computed size.
\<close>

section \<open>Third-party cryptography\<close>

record Crypto =
  cy_keccak :: "bytes \<Rightarrow> hash"
  cy_ecrecover :: "bytes \<Rightarrow> bytes \<Rightarrow> bytes option"
  cy_sign :: "bytes \<Rightarrow> bytes \<Rightarrow> bytes option"
  cy_dil_unpack :: "bytes \<Rightarrow> bytes"
  cy_dil_verify :: "bytes \<Rightarrow> bytes \<Rightarrow> bytes \<Rightarrow> bool"
  cy_dil_sign :: "bytes \<Rightarrow> bytes \<Rightarrow> bytes"
  cy_dil_public :: "bytes \<Rightarrow> bytes"

definition secp256k1N :: int where
  "secp256k1N = 0xfffffffffffffffffffffffffffffffebaaedce6af48a03bbfd25e8cd0364141"

definition secp256k1halfN :: int where
  "secp256k1halfN = secp256k1N div 2"

definition SignatureLength :: nat where "SignatureLength = 65"

definition ValidateSignatureValues :: "byte \<Rightarrow> int \<Rightarrow> int \<Rightarrow> bool \<Rightarrow> bool" where
  "ValidateSignatureValues v r s homestead =
     (if r < 1 \<or> s < 1 then False
      else if homestead \<and> s > secp256k1halfN then False
      else r < secp256k1N \<and> s < secp256k1N \<and> (v = 0 \<or> v = 1))"

definition dilithium_PublicKeySize :: nat where "dilithium_PublicKeySize = 1312"
definition dilithium_SignatureSize :: nat where "dilithium_SignatureSize = 2420"

definition dilithium_UnmarshalPublicKey :: "Crypto \<Rightarrow> bytes \<Rightarrow> bytes option" where
  "dilithium_UnmarshalPublicKey cy data =
     (if length data \<noteq> dilithium_PublicKeySize then None else Some (cy_dil_unpack cy data))"

definition dilithium_Verify :: "Crypto \<Rightarrow> bytes \<Rightarrow> bytes \<Rightarrow> bytes \<Rightarrow> bool" where
  "dilithium_Verify cy pub msg sig =
     (if length sig \<noteq> dilithium_SignatureSize then False else cy_dil_verify cy pub msg sig)"

definition dilithium_PubkeyToAddress :: "Crypto \<Rightarrow> bytes \<Rightarrow> address" where
  "dilithium_PubkeyToAddress cy pub = be_word (drop 12 (hash_bytes (cy_keccak cy pub)))"

section \<open>Transaction data\<close>

record AccessTuple =
  at_Address :: address
  at_StorageKeys :: "hash list"

type_synonym AccessList = "AccessTuple list"

definition AccessList_StorageKeys :: "AccessList \<Rightarrow> nat" where
  "AccessList_StorageKeys al = sum_list (map (length \<circ> at_StorageKeys) al)"

record LegacyTx =
  ltx_Nonce :: u64
  ltx_GasPrice :: int
  ltx_Gas :: u64
  ltx_To :: "address option"
  ltx_Value :: int
  ltx_Data :: bytes
  ltx_V :: int
  ltx_R :: int
  ltx_S :: int

record AccessListTx =
  atx_ChainID :: int
  atx_Nonce :: u64
  atx_GasPrice :: int
  atx_Gas :: u64
  atx_To :: "address option"
  atx_Value :: int
  atx_Data :: bytes
  atx_AccessList :: AccessList
  atx_V :: int
  atx_R :: int
  atx_S :: int

record DynamicFeeTx =
  ftx_ChainID :: int
  ftx_Nonce :: u64
  ftx_GasTipCap :: int
  ftx_GasFeeCap :: int
  ftx_Gas :: u64
  ftx_To :: "address option"
  ftx_Value :: int
  ftx_Data :: bytes
  ftx_AccessList :: AccessList
  ftx_V :: int
  ftx_R :: int
  ftx_S :: int

record DilithiumTx =
  dtx_ChainID :: int
  dtx_Nonce :: u64
  dtx_GasTipCap :: int
  dtx_GasFeeCap :: int
  dtx_Gas :: u64
  dtx_To :: "address option"
  dtx_Value :: int
  dtx_Data :: bytes
  dtx_AccessList :: AccessList
  dtx_PubKey :: bytes
  dtx_Signature :: bytes

record SuperlightTx =
  stx_ChainID :: int
  stx_Nonce :: u64
  stx_GasTipCap :: int
  stx_GasFeeCap :: int
  stx_Gas :: u64
  stx_To :: "address option"
  stx_Value :: int
  stx_Data :: bytes
  stx_AccessList :: AccessList
  stx_V :: int
  stx_R :: int
  stx_S :: int

record AgentTx =
  gtx_ChainID :: int
  gtx_Nonce :: u64
  gtx_GasTipCap :: int
  gtx_GasFeeCap :: int
  gtx_Gas :: u64
  gtx_To :: "address option"
  gtx_Value :: int
  gtx_Data :: bytes
  gtx_AgentID :: hash
  gtx_OpCode :: u8
  gtx_AccessList :: AccessList
  gtx_V :: int
  gtx_R :: int
  gtx_S :: int

datatype TxData =
    LegacyD LegacyTx
  | AccessListD AccessListTx
  | DynamicFeeD DynamicFeeTx
  | DilithiumD DilithiumTx
  | SuperlightD SuperlightTx
  | AgentD AgentTx

definition LegacyTxType :: u8 where "LegacyTxType = 0"
definition AccessListTxType :: u8 where "AccessListTxType = 1"
definition DynamicFeeTxType :: u8 where "DynamicFeeTxType = 2"
definition DilithiumTxType :: u8 where "DilithiumTxType = 3"
definition SuperlightTxType :: u8 where "SuperlightTxType = 4"
definition AgentTxType :: u8 where "AgentTxType = 5"

lemmas tx_types = LegacyTxType_def AccessListTxType_def DynamicFeeTxType_def DilithiumTxType_def
  SuperlightTxType_def AgentTxType_def

fun txType :: "TxData \<Rightarrow> u8" where
  "txType (LegacyD t) = LegacyTxType"
| "txType (AccessListD t) = AccessListTxType"
| "txType (DynamicFeeD t) = DynamicFeeTxType"
| "txType (DilithiumD t) = DilithiumTxType"
| "txType (SuperlightD t) = SuperlightTxType"
| "txType (AgentD t) = AgentTxType"

text \<open>\<open>big.Int.BitLen\<close> is the bit length of the absolute value.\<close>

definition BitLen :: "int \<Rightarrow> nat" where
  "BitLen x = bitlen (nat \<bar>x\<bar>)"

definition deriveChainId :: "int \<Rightarrow> int" where
  "deriveChainId v =
     (if BitLen v \<le> 64 then
        (let w = big_uint64 v
         in if w = 27 \<or> w = 28 then 0 else uint ((w - 35) div 2))
      else (v - 35) div 2)"

fun tx_chainID :: "TxData \<Rightarrow> int" where
  "tx_chainID (LegacyD t) = deriveChainId (ltx_V t)"
| "tx_chainID (AccessListD t) = atx_ChainID t"
| "tx_chainID (DynamicFeeD t) = ftx_ChainID t"
| "tx_chainID (DilithiumD t) = dtx_ChainID t"
| "tx_chainID (SuperlightD t) = stx_ChainID t"
| "tx_chainID (AgentD t) = gtx_ChainID t"

fun tx_accessList :: "TxData \<Rightarrow> AccessList" where
  "tx_accessList (LegacyD t) = []"
| "tx_accessList (AccessListD t) = atx_AccessList t"
| "tx_accessList (DynamicFeeD t) = ftx_AccessList t"
| "tx_accessList (DilithiumD t) = dtx_AccessList t"
| "tx_accessList (SuperlightD t) = stx_AccessList t"
| "tx_accessList (AgentD t) = gtx_AccessList t"

fun tx_data :: "TxData \<Rightarrow> bytes" where
  "tx_data (LegacyD t) = ltx_Data t"
| "tx_data (AccessListD t) = atx_Data t"
| "tx_data (DynamicFeeD t) = ftx_Data t"
| "tx_data (DilithiumD t) = dtx_Data t"
| "tx_data (SuperlightD t) = stx_Data t"
| "tx_data (AgentD t) = gtx_Data t"

fun tx_gas :: "TxData \<Rightarrow> u64" where
  "tx_gas (LegacyD t) = ltx_Gas t"
| "tx_gas (AccessListD t) = atx_Gas t"
| "tx_gas (DynamicFeeD t) = ftx_Gas t"
| "tx_gas (DilithiumD t) = dtx_Gas t"
| "tx_gas (SuperlightD t) = stx_Gas t"
| "tx_gas (AgentD t) = gtx_Gas t"

fun tx_gasPrice :: "TxData \<Rightarrow> int" where
  "tx_gasPrice (LegacyD t) = ltx_GasPrice t"
| "tx_gasPrice (AccessListD t) = atx_GasPrice t"
| "tx_gasPrice (DynamicFeeD t) = ftx_GasFeeCap t"
| "tx_gasPrice (DilithiumD t) = dtx_GasFeeCap t"
| "tx_gasPrice (SuperlightD t) = stx_GasFeeCap t"
| "tx_gasPrice (AgentD t) = gtx_GasFeeCap t"

fun tx_gasTipCap :: "TxData \<Rightarrow> int" where
  "tx_gasTipCap (LegacyD t) = ltx_GasPrice t"
| "tx_gasTipCap (AccessListD t) = atx_GasPrice t"
| "tx_gasTipCap (DynamicFeeD t) = ftx_GasTipCap t"
| "tx_gasTipCap (DilithiumD t) = dtx_GasTipCap t"
| "tx_gasTipCap (SuperlightD t) = stx_GasTipCap t"
| "tx_gasTipCap (AgentD t) = gtx_GasTipCap t"

fun tx_gasFeeCap :: "TxData \<Rightarrow> int" where
  "tx_gasFeeCap (LegacyD t) = ltx_GasPrice t"
| "tx_gasFeeCap (AccessListD t) = atx_GasPrice t"
| "tx_gasFeeCap (DynamicFeeD t) = ftx_GasFeeCap t"
| "tx_gasFeeCap (DilithiumD t) = dtx_GasFeeCap t"
| "tx_gasFeeCap (SuperlightD t) = stx_GasFeeCap t"
| "tx_gasFeeCap (AgentD t) = gtx_GasFeeCap t"

fun tx_value :: "TxData \<Rightarrow> int" where
  "tx_value (LegacyD t) = ltx_Value t"
| "tx_value (AccessListD t) = atx_Value t"
| "tx_value (DynamicFeeD t) = ftx_Value t"
| "tx_value (DilithiumD t) = dtx_Value t"
| "tx_value (SuperlightD t) = stx_Value t"
| "tx_value (AgentD t) = gtx_Value t"

fun tx_nonce :: "TxData \<Rightarrow> u64" where
  "tx_nonce (LegacyD t) = ltx_Nonce t"
| "tx_nonce (AccessListD t) = atx_Nonce t"
| "tx_nonce (DynamicFeeD t) = ftx_Nonce t"
| "tx_nonce (DilithiumD t) = dtx_Nonce t"
| "tx_nonce (SuperlightD t) = stx_Nonce t"
| "tx_nonce (AgentD t) = gtx_Nonce t"

fun tx_to :: "TxData \<Rightarrow> address option" where
  "tx_to (LegacyD t) = ltx_To t"
| "tx_to (AccessListD t) = atx_To t"
| "tx_to (DynamicFeeD t) = ftx_To t"
| "tx_to (DilithiumD t) = dtx_To t"
| "tx_to (SuperlightD t) = stx_To t"
| "tx_to (AgentD t) = gtx_To t"

text \<open>The three values in the order \<open>V\<close>, \<open>R\<close>, \<open>S\<close>.\<close>

fun rawSignatureValues :: "TxData \<Rightarrow> int \<times> int \<times> int" where
  "rawSignatureValues (LegacyD t) = (ltx_V t, ltx_R t, ltx_S t)"
| "rawSignatureValues (AccessListD t) = (atx_V t, atx_R t, atx_S t)"
| "rawSignatureValues (DynamicFeeD t) = (ftx_V t, ftx_R t, ftx_S t)"
| "rawSignatureValues (DilithiumD t) = (0, 0, 0)"
| "rawSignatureValues (SuperlightD t) = (stx_V t, stx_R t, stx_S t)"
| "rawSignatureValues (AgentD t) = (gtx_V t, gtx_R t, gtx_S t)"

fun setSignatureValues :: "int \<Rightarrow> int \<Rightarrow> int \<Rightarrow> int \<Rightarrow> TxData \<Rightarrow> TxData" where
  "setSignatureValues chainID v r s (LegacyD t) = LegacyD (t\<lparr>ltx_V := v, ltx_R := r, ltx_S := s\<rparr>)"
| "setSignatureValues chainID v r s (AccessListD t) =
     AccessListD (t\<lparr>atx_ChainID := chainID, atx_V := v, atx_R := r, atx_S := s\<rparr>)"
| "setSignatureValues chainID v r s (DynamicFeeD t) =
     DynamicFeeD (t\<lparr>ftx_ChainID := chainID, ftx_V := v, ftx_R := r, ftx_S := s\<rparr>)"
| "setSignatureValues chainID v r s (DilithiumD t) = DilithiumD (t\<lparr>dtx_ChainID := chainID\<rparr>)"
| "setSignatureValues chainID v r s (SuperlightD t) =
     SuperlightD (t\<lparr>stx_ChainID := chainID, stx_V := v, stx_R := r, stx_S := s\<rparr>)"
| "setSignatureValues chainID v r s (AgentD t) =
     AgentD (t\<lparr>gtx_ChainID := chainID, gtx_V := v, gtx_R := r, gtx_S := s\<rparr>)"

section \<open>Encodings\<close>

definition to_value :: "address option \<Rightarrow> rlp_value" where
  "to_value t = RStr (case t of None \<Rightarrow> [] | Some a \<Rightarrow> addr_bytes a)"

definition AccessTuple_value :: "AccessTuple \<Rightarrow> rlp_value" where
  "AccessTuple_value t =
     RList [RStr (addr_bytes (at_Address t)), RList (map (RStr \<circ> hash_bytes) (at_StorageKeys t))]"

definition AccessList_value :: "AccessList \<Rightarrow> rlp_value" where
  "AccessList_value al = RList (map AccessTuple_value al)"

fun TxData_values :: "TxData \<Rightarrow> rlp_value list" where
  "TxData_values (LegacyD t) =
     [RUint (ltx_Nonce t), RBig (ltx_GasPrice t), RUint (ltx_Gas t), to_value (ltx_To t),
      RBig (ltx_Value t), RStr (ltx_Data t), RBig (ltx_V t), RBig (ltx_R t), RBig (ltx_S t)]"
| "TxData_values (AccessListD t) =
     [RBig (atx_ChainID t), RUint (atx_Nonce t), RBig (atx_GasPrice t), RUint (atx_Gas t),
      to_value (atx_To t), RBig (atx_Value t), RStr (atx_Data t), AccessList_value (atx_AccessList t),
      RBig (atx_V t), RBig (atx_R t), RBig (atx_S t)]"
| "TxData_values (DynamicFeeD t) =
     [RBig (ftx_ChainID t), RUint (ftx_Nonce t), RBig (ftx_GasTipCap t), RBig (ftx_GasFeeCap t),
      RUint (ftx_Gas t), to_value (ftx_To t), RBig (ftx_Value t), RStr (ftx_Data t),
      AccessList_value (ftx_AccessList t), RBig (ftx_V t), RBig (ftx_R t), RBig (ftx_S t)]"
| "TxData_values (DilithiumD t) =
     [RBig (dtx_ChainID t), RUint (dtx_Nonce t), RBig (dtx_GasTipCap t), RBig (dtx_GasFeeCap t),
      RUint (dtx_Gas t), to_value (dtx_To t), RBig (dtx_Value t), RStr (dtx_Data t),
      AccessList_value (dtx_AccessList t), RStr (dtx_PubKey t), RStr (dtx_Signature t)]"
| "TxData_values (SuperlightD t) =
     [RBig (stx_ChainID t), RUint (stx_Nonce t), RBig (stx_GasTipCap t), RBig (stx_GasFeeCap t),
      RUint (stx_Gas t), to_value (stx_To t), RBig (stx_Value t), RStr (stx_Data t),
      AccessList_value (stx_AccessList t), RBig (stx_V t), RBig (stx_R t), RBig (stx_S t)]"
| "TxData_values (AgentD t) =
     [RBig (gtx_ChainID t), RUint (gtx_Nonce t), RBig (gtx_GasTipCap t), RBig (gtx_GasFeeCap t),
      RUint (gtx_Gas t), to_value (gtx_To t), RBig (gtx_Value t), RStr (gtx_Data t),
      RStr (hash_bytes (gtx_AgentID t)), RUint (ucast (gtx_OpCode t)),
      AccessList_value (gtx_AccessList t), RBig (gtx_V t), RBig (gtx_R t), RBig (gtx_S t)]"

definition prefixedRlpHash :: "(bytes \<Rightarrow> hash) \<Rightarrow> byte \<Rightarrow> rlp_value \<Rightarrow> hash" where
  "prefixedRlpHash keccak prefix x = keccak (prefix # (case EncodeToBytes x of Some b \<Rightarrow> b | None \<Rightarrow> []))"

definition encodeTyped :: "TxData \<Rightarrow> bytes option" where
  "encodeTyped d = map_option (\<lambda>b. txType d # b) (EncodeToBytes (RList (TxData_values d)))"

definition MarshalBinary :: "TxData \<Rightarrow> bytes option" where
  "MarshalBinary d =
     (if txType d = LegacyTxType then EncodeToBytes (RList (TxData_values d)) else encodeTyped d)"

definition tx_EncodeRLP :: "TxData \<Rightarrow> bytes option" where
  "tx_EncodeRLP d =
     (if txType d = LegacyTxType then EncodeToBytes (RList (TxData_values d))
      else (case encodeTyped d of None \<Rightarrow> None | Some b \<Rightarrow> EncodeToBytes (RStr b)))"

definition tx_Hash :: "(bytes \<Rightarrow> hash) \<Rightarrow> TxData \<Rightarrow> hash" where
  "tx_Hash keccak d =
     (if txType d = LegacyTxType then rlpHash keccak (RList (TxData_values d))
      else prefixedRlpHash keccak (txType d) (RList (TxData_values d)))"

end
