(* ===== verification/Rewards.thy ===== *)
theory Rewards
  imports AccountOps SnapshotProps Transaction
begin

text \<open>
  Block rewards (\<open>src/consensus/pob/rewards_v2.go\<close>, and \<open>accumulateRewards\<close> and
  \<open>accumulateSmartLightRewards\<close> of \<open>src/consensus/pob/pob.go\<close>): the fixed rewards of a block, and the second reward model, in which
  the reward follows the volume of the transactions and fades out as the gold reserve grows.

  A nil configuration means the default one. Go visits the nodes of a map in an order it does not fix;
  the model takes the order of the entries. Amounts are unbounded integers, scores are 64-bit words
  and their sum may wrap. The state root that \<open>PobFinalize\<close> then computes is left out.
\<close>

section \<open>Volume, decay and reward\<close>

definition v2_config :: "PoBV2Config option \<Rightarrow> PoBV2Config" where
  "v2_config config = (case config of None \<Rightarrow> DefaultPoBV2Config | Some c \<Rightarrow> c)"

fun qualified_loop :: "(bytes \<Rightarrow> hash) \<Rightarrow> (hash, address) gomap \<Rightarrow> int \<Rightarrow> TxData list \<Rightarrow> int \<times> u64 \<Rightarrow> int \<times> u64" where
  "qualified_loop keccak senders minValue [] acc = acc"
| "qualified_loop keccak senders minValue (tx # txs) (volume, n) =
     qualified_loop keccak senders minValue txs
       (if tx_value tx < minValue then (volume, n)
        else if senders \<noteq> NilMap \<and> gm_get senders (tx_Hash keccak tx) \<noteq> None \<and> tx_to tx = gm_get senders (tx_Hash keccak tx)
        then (volume, n)
        else (volume + tx_value tx, n + 1))"

definition CalcQualifiedVolume :: "(bytes \<Rightarrow> hash) \<Rightarrow> TxData list \<Rightarrow> (hash, address) gomap \<Rightarrow> PoBV2Config option \<Rightarrow> int \<times> u64" where
  "CalcQualifiedVolume keccak txs senders config =
     qualified_loop keccak senders (uint (v2_MinTxValueWei (v2_config config))) txs (0, 0)"

text \<open>The loop that raises the decay to a power, rounding down after every step.\<close>

fun decay_power :: "int \<Rightarrow> nat \<Rightarrow> int \<Rightarrow> int" where
  "decay_power base 0 decay = decay"
| "decay_power base (Suc n) decay = decay_power base n (decay * base div 10000)"

definition CalcDecayFactor :: "int option \<Rightarrow> PoBV2Config option \<Rightarrow> int" where
  "CalcDecayFactor goldReserveOZ config =
     (case big_SetString (v2_GoldReserveTargetOZ (v2_config config)) of
        None \<Rightarrow> 10000
      | Some target \<Rightarrow>
          if target \<le> 0 then 10000
          else (case goldReserveOZ of
                  None \<Rightarrow> 10000
                | Some gold \<Rightarrow>
                    if gold \<le> 0 then 10000
                    else if gold \<ge> target then 0
                    else let decay = (target - gold) * 10000 div target
                         in decay_power decay (unat (v2_DecayExponent (v2_config config)) - 1) decay))"

definition IsEmissionActive :: "int option \<Rightarrow> PoBV2Config option \<Rightarrow> bool" where
  "IsEmissionActive goldReserveOZ config =
     (case big_SetString (v2_GoldReserveTargetOZ (v2_config config)) of
        None \<Rightarrow> True
      | Some target \<Rightarrow> (case goldReserveOZ of None \<Rightarrow> True | Some gold \<Rightarrow> gold < target))"

definition CalcBlockReward :: "int option \<Rightarrow> int option \<Rightarrow> PoBV2Config option \<Rightarrow> int" where
  "CalcBlockReward qualifiedVolume goldReserveOZ config =
     (let c = v2_config config;
          decay = CalcDecayFactor goldReserveOZ (Some c)
      in if decay = 0 then 0
         else case qualifiedVolume of
           None \<Rightarrow> uint (v2_HeartbeatRewardWei c) * decay div 10000
         | Some volume \<Rightarrow>
             if volume = 0 then uint (v2_HeartbeatRewardWei c) * decay div 10000
             else let reward = volume * uint (v2_RewardRateBps c) div 10000;
                      reward = reward * decay div 10000
                  in if reward > uint (v2_MaxBlockRewardWei c) then uint (v2_MaxBlockRewardWei c) else reward)"

definition SplitBlockReward :: "int \<Rightarrow> PoBV2Config option \<Rightarrow> int \<times> int \<times> int" where
  "SplitBlockReward totalReward config =
     (let c = v2_config config;
          agentPool = totalReward * uint (v2_AgentShareBps c) div 10000;
          physicalPool = totalReward * uint (v2_PhysicalShareBps c) div 10000
      in (totalReward - agentPool - physicalPool, agentPool, physicalPool))"

section \<open>Paying\<close>

fun distribute_loop :: "int \<Rightarrow> u64 \<Rightarrow> (address, u64) entries \<Rightarrow> StateDB \<Rightarrow> int \<Rightarrow> panic + StateDB \<times> int" where
  "distribute_loop pool sumScore [] s distributed = Inr (s, distributed)"
| "distribute_loop pool sumScore ((addr, score) # scores) s distributed =
     (let reward = pool * uint score div uint sumScore
      in if reward > 0
         then bindE (AddBalance addr reward s) (\<lambda>s. distribute_loop pool sumScore scores s (distributed + reward))
         else distribute_loop pool sumScore scores s distributed)"

definition DistributeByScore :: "int \<Rightarrow> (address, u64) entries \<Rightarrow> StateDB \<Rightarrow> panic + StateDB \<times> int" where
  "DistributeByScore pool scores s =
     (if pool \<le> 0 \<or> length scores = 0 then Inr (s, pool)
      else let sumScore = sum_list (map snd scores)
           in if sumScore = 0 then Inr (s, pool)
              else bindE (distribute_loop pool sumScore scores s 0) (\<lambda>(s, distributed). Inr (s, pool - distributed)))"

definition CalcPoBV2Difficulty :: "u64 \<Rightarrow> PoBV2Config option \<Rightarrow> u64" where
  "CalcPoBV2Difficulty totalNodes config =
     (let c = v2_config config
      in if v2_NodesPerDifficultyUp c = 0 \<or> totalNodes \<le> v2_NodesPerDifficultyUp c then v2_InitialDifficulty c
         else let diff = totalNodes div v2_NodesPerDifficultyUp c
              in if diff < v2_InitialDifficulty c then v2_InitialDifficulty c else diff)"

definition pay :: "address \<Rightarrow> int \<Rightarrow> StateDB \<Rightarrow> panic + StateDB" where
  "pay addr amount s = (if amount > 0 then AddBalance addr amount s else Inr s)"

definition agentScores :: "PobSnapshot \<Rightarrow> (address, u64) entries" where
  "agentScores snap = map (\<lambda>(addr, score). (addr, as_Total score)) (entries (sn_Agents snap))"

definition physicalScores :: "PobSnapshot \<Rightarrow> (address, u64) entries" where
  "physicalScores snap = map (\<lambda>(addr, score). (addr, ps_Total score)) (entries (sn_PhysicalNodes snap))"

definition accumulateRewardsV2 :: "(bytes \<Rightarrow> hash) \<Rightarrow> ChainConfig \<Rightarrow> Header \<Rightarrow> TxData list \<Rightarrow> StateDB \<Rightarrow> PobSnapshot \<Rightarrow>
    panic + StateDB \<times> PobSnapshot" where
  "accumulateRewardsV2 keccak config header txs statedb snap =
     (let v2cfg = Some (v2_config (cc_PoBV2 config));
          goldReserve = Some (case sn_GoldReserveOZ snap of None \<Rightarrow> 0 | Some g \<Rightarrow> g)
      in if \<not> IsEmissionActive goldReserve v2cfg then Inr (statedb, snap)
         else
           let (qualifiedVolume, n) = CalcQualifiedVolume keccak txs NilMap v2cfg;
               totalReward = CalcBlockReward (Some qualifiedVolume) goldReserve v2cfg;
               (producerReward, agentPool, physicalPool) = SplitBlockReward totalReward v2cfg;
               producer = h_ValidatorAddr header
           in bindE (pay producer producerReward statedb) (\<lambda>statedb.
              bindE (DistributeByScore agentPool (agentScores snap) statedb) (\<lambda>(statedb, remainder).
              bindE (pay producer remainder statedb) (\<lambda>statedb.
              bindE (DistributeByScore physicalPool (physicalScores snap) statedb) (\<lambda>(statedb, remainder).
              bindE (pay producer remainder statedb) (\<lambda>statedb.
                Inr (statedb, snap\<lparr>sn_CumulativeGDPWei :=
                  Some ((case sn_CumulativeGDPWei snap of None \<Rightarrow> 0 | Some g \<Rightarrow> g) + qualifiedVolume)\<rparr>)))))))"

definition BlockRewardPowMiner :: int where "BlockRewardPowMiner = 3000000000000000000"
definition BlockRewardPobValidator :: int where "BlockRewardPobValidator = 1000000000000000000"
definition BlockRewardPowMinerUncle :: int where "BlockRewardPowMinerUncle = 500000000000000000"
definition BlockRewardSmartLightPool :: int where "BlockRewardSmartLightPool = 200000000000000000"

definition accumulateRewards :: "Header \<Rightarrow> BehaviorProof list \<Rightarrow> StateDB \<Rightarrow> panic + StateDB" where
  "accumulateRewards header powUncles statedb =
     bindE (AddBalance (h_ValidatorAddr header) BlockRewardPobValidator statedb) (\<lambda>statedb.
     bindE (foldE (\<lambda>answer. AddBalance (bp_Miner answer) BlockRewardPowMiner) (h_BehaviorProofs header) statedb) (\<lambda>statedb.
       foldE (\<lambda>answer. AddBalance (bp_Miner answer) BlockRewardPowMinerUncle) powUncles statedb))"

definition accumulateSmartLightRewards :: "PobSnapshot \<Rightarrow> StateDB \<Rightarrow> panic + StateDB" where
  "accumulateSmartLightRewards snap statedb =
     (if length (entries (sn_SmartLights snap)) = 0 then Inr statedb
      else let sumScore = SmartLightTotalScore snap
           in if sumScore = 0 then Inr statedb
              else foldE (\<lambda>(addr, score). pay addr (BlockRewardSmartLightPool * uint (sls_Total score) div uint sumScore))
                     (entries (sn_SmartLights snap)) statedb)"

section \<open>How much is emitted\<close>

lemma decay_power_range: "0 \<le> base \<Longrightarrow> base \<le> 10000 \<Longrightarrow> 0 \<le> d \<Longrightarrow> d \<le> 10000 \<Longrightarrow>
    0 \<le> decay_power base n d \<and> decay_power base n d \<le> 10000"
proof (induction n arbitrary: d)
  case (Suc n)
  have "d * base div 10000 \<le> 10000 * 10000 div 10000" using Suc.prems by (intro zdiv_mono1 mult_mono) simp_all
  then show ?case using Suc.prems Suc.IH [of "d * base div 10000"] by (simp add: pos_imp_zdiv_nonneg_iff)
qed simp

lemma decay_power_mono: "0 \<le> b \<Longrightarrow> b \<le> b' \<Longrightarrow> 0 \<le> d \<Longrightarrow> d \<le> d' \<Longrightarrow> decay_power b n d \<le> decay_power b' n d'"
proof (induction n arbitrary: d d')
  case (Suc n)
  have "d * b div 10000 \<le> d' * b' div 10000" using Suc.prems by (intro zdiv_mono1 mult_mono) simp_all
  then show ?case using Suc.IH [of "d * b div 10000" "d' * b' div 10000"] Suc.prems by (simp add: pos_imp_zdiv_nonneg_iff)
qed simp

lemma linear_decay: "0 < target \<Longrightarrow> 0 \<le> g \<Longrightarrow> g \<le> target \<Longrightarrow> 0 \<le> (target - g) * 10000 div target \<and> (target - g) * 10000 div target \<le> (10000 :: int)"
proof -
  assume a: "0 < target" "0 \<le> g" "g \<le> target"
  have "(target - g) * 10000 div target \<le> target * 10000 div target" using a by (intro zdiv_mono1) simp_all
  then show ?thesis using a by (simp add: pos_imp_zdiv_nonneg_iff)
qed

lemma CalcDecayFactor_range: "0 \<le> CalcDecayFactor g config \<and> CalcDecayFactor g config \<le> 10000"
proof -
  have "0 \<le> decay_power d n d \<and> decay_power d n d \<le> 10000" if "d = (target - gold) * 10000 div target" "0 < target" "0 < gold" "gold < target"
    for d target gold n using linear_decay [of target gold] decay_power_range [of d d n] that by simp
  then show ?thesis by (auto simp: CalcDecayFactor_def Let_def not_le split: option.splits)
qed

lemma CalcDecayFactor_antimono:
  assumes "g \<le> g'"
  shows "CalcDecayFactor (Some g') config \<le> CalcDecayFactor (Some g) config"
proof (cases "big_SetString (v2_GoldReserveTargetOZ (v2_config config))")
  case None
  then show ?thesis by (simp add: CalcDecayFactor_def)
next
  case (Some target)
  let ?d = "\<lambda>g. (target - g) * 10000 div target"
  let ?n = "unat (v2_DecayExponent (v2_config config)) - 1"
  consider "target \<le> 0 \<or> g \<le> 0" | "target \<le> g'" | "0 < g" "g' < target" by linarith
  then show ?thesis
  proof cases
    case 1
    then have "CalcDecayFactor (Some g) config = 10000" using Some by (auto simp: CalcDecayFactor_def)
    then show ?thesis using CalcDecayFactor_range by simp
  next
    case 2
    then have "CalcDecayFactor (Some g') config = 0 \<or> target \<le> 0 \<or> g' \<le> 0" using Some by (simp add: CalcDecayFactor_def)
    moreover have "CalcDecayFactor (Some g) config = 10000" if "target \<le> 0 \<or> g' \<le> 0"
      using that Some assms by (auto simp: CalcDecayFactor_def)
    ultimately show ?thesis using CalcDecayFactor_range by auto
  next
    case 3
    then have "?d g' \<le> ?d g" "0 \<le> ?d g'" using assms linear_decay [of target g'] by (simp_all add: zdiv_mono1)
    then have "decay_power (?d g') ?n (?d g') \<le> decay_power (?d g) ?n (?d g)" by (intro decay_power_mono) simp_all
    then show ?thesis using 3 assms Some by (simp add: CalcDecayFactor_def Let_def)
  qed
qed

lemma qualified_loop_nonneg: "0 \<le> minValue \<Longrightarrow> 0 \<le> fst acc \<Longrightarrow> 0 \<le> fst (qualified_loop keccak senders minValue txs acc)"
  by (induction keccak senders minValue txs acc rule: qualified_loop.induct) simp_all

lemma CalcBlockReward_nonneg:
  assumes "0 \<le> volume"
  shows "0 \<le> CalcBlockReward (Some volume) g config"
  using CalcDecayFactor_range assms by (simp add: CalcBlockReward_def Let_def pos_imp_zdiv_nonneg_iff)

section \<open>Where it goes\<close>

text \<open>What a state change credits to each account.\<close>

definition credited :: "(address \<Rightarrow> int) \<Rightarrow> StateDB \<Rightarrow> StateDB \<Rightarrow> bool" where
  "credited f s t \<longleftrightarrow> (\<forall>x. bal t x = bal s x + f x) \<and> (\<forall>x. payable s x \<longrightarrow> payable t x)"

lemma credited_total: "credited f s t \<Longrightarrow> total_balance t = total_balance s + (\<Sum>x \<in> UNIV. f x)"
  by (simp add: credited_def total_balance_def sum.distrib)

lemma credited_refl: "credited (\<lambda>x. 0) s s"
  by (simp add: credited_def)

lemma credited_trans: "credited f s t \<Longrightarrow> credited g t u \<Longrightarrow> credited (\<lambda>x. f x + g x) s u"
  by (simp add: credited_def)

lemma credited_payable: "credited f s t \<Longrightarrow> payable s x \<Longrightarrow> payable t x"
  by (simp add: credited_def)

lemma AddBalance_credits: "payable s a \<Longrightarrow> \<exists>t. AddBalance a v s = Inr t \<and> credited (\<lambda>x. if x = a then v else 0) s t"
proof -
  assume "payable s a"
  then obtain t where t: "AddBalance a v s = Inr t" "sets_balance a (bal s a + v) s t" using balance_effects(1) by blast
  then have "credited (\<lambda>x. if x = a then v else 0) s t" using sets_balance_bal [OF t(2)] by (simp add: credited_def)
  then show ?thesis using t(1) by blast
qed

lemma pay_credits: "payable s a \<Longrightarrow> 0 \<le> v \<Longrightarrow> \<exists>t. pay a v s = Inr t \<and> credited (\<lambda>x. if x = a then v else 0) s t"
  using AddBalance_credits [of s a v] by (auto simp: pay_def credited_def)

definition share :: "int \<Rightarrow> u64 \<Rightarrow> (address, u64) entries \<Rightarrow> address \<Rightarrow> int" where
  "share pool sumScore scores x = sum_list (map (\<lambda>(a, sc). if a = x then pool * uint sc div uint sumScore else 0) scores)"

lemma share_zero: "pool = 0 \<or> scores = [] \<or> T = 0 \<Longrightarrow> share pool T scores = (\<lambda>x. 0)"
proof
  fix x assume "pool = 0 \<or> scores = [] \<or> T = 0"
  then show "share pool T scores x = 0" by (induction scores) (auto simp: share_def)
qed

lemma sum_share: "(\<Sum>x \<in> UNIV. share pool T scores x) = sum_list (map (\<lambda>(a, sc). pool * uint sc div uint T) scores)"
proof (induction scores)
  case (Cons p scores)
  obtain a sc where p: "p = (a, sc)" by force
  have "share pool T (p # scores) x = (if x = a then pool * uint sc div uint T else 0) + share pool T scores x" for x
    using p by (simp add: share_def)
  then show ?case using Cons p by (simp add: sum.distrib)
qed (simp add: share_def)

lemma distribute_loop_ok:
  assumes "0 \<le> pool" and "\<forall>a \<in> set (map fst scores). payable s a"
  shows "\<exists>t. distribute_loop pool T scores s d = Inr (t, d + sum_list (map (\<lambda>(a, sc). pool * uint sc div uint T) scores)) \<and>
    credited (share pool T scores) s t"
  using assms(2)
proof (induction scores arbitrary: s d)
  case Nil
  then show ?case by (simp add: share_def credited_refl)
next
  case (Cons p scores)
  obtain a sc where p: "p = (a, sc)" by force
  let ?r = "pool * uint sc div uint T"
  have r: "0 \<le> ?r" using assms(1) by (cases "uint T = 0") (simp_all add: div_int_pos_iff)
  obtain t where t: "pay a ?r s = Inr t" "credited (\<lambda>x. if x = a then ?r else 0) s t"
    using pay_credits [OF _ r, of s a] Cons.prems p by auto
  have pt: "\<forall>b \<in> set (map fst scores). payable t b" using Cons.prems credited_payable [OF t(2)] by simp
  obtain u where u: "distribute_loop pool T scores t (d + ?r) = Inr (u, d + ?r + sum_list (map (\<lambda>(a, sc). pool * uint sc div uint T) scores))"
      "credited (share pool T scores) t u" using Cons.IH [OF pt] by blast
  have "distribute_loop pool T (p # scores) s d = Inr (u, d + ?r + sum_list (map (\<lambda>(a, sc). pool * uint sc div uint T) scores))"
    using t(1) u(1) r p by (cases "?r = 0") (auto simp: pay_def Let_def)
  moreover have "share pool T (p # scores) = (\<lambda>x. (if x = a then ?r else 0) + share pool T scores x)"
    using p by (auto simp: share_def fun_eq_iff)
  ultimately show ?case using credited_trans [OF t(2) u(2)] p by (simp add: add.assoc)
qed

lemma sum_floor_le:
  assumes "0 < T" and "0 \<le> pool"
  shows "sum_list (map (\<lambda>(a, sc). pool * uint sc div T) scores) \<le> pool * sum_list (map (uint \<circ> snd) scores) div (T :: int)"
proof (induction scores)
  case (Cons p scores)
  obtain a sc where p: "p = (a, sc)" by force
  have le: "x div T + y div T \<le> (x + y) div T" for x y :: int
    using assms(1) div_add1_eq [of x y T] by (simp add: pos_imp_zdiv_nonneg_iff)
  show ?case
    using Cons p le [of "pool * uint sc" "pool * sum_list (map (uint \<circ> snd) scores)"] by (simp add: distrib_left comp_def case_prod_unfold)
qed simp

lemma uint_sum: "int (sum_list (map (unat \<circ> snd) xs)) = sum_list (map (uint \<circ> snd) (xs :: (address, u64) entries))"
  by (induction xs) simp_all

lemma DistributeByScore_ok:
  assumes "0 \<le> pool" and "\<forall>a \<in> set (map fst scores). payable s a" and "sum_list (map (unat \<circ> snd) scores) < 2 ^ 64"
  shows "\<exists>t r. DistributeByScore pool scores s = Inr (t, r) \<and> 0 \<le> r \<and>
    credited (share pool (sum_list (map snd scores)) scores) s t \<and>
    (\<Sum>x \<in> UNIV. share pool (sum_list (map snd scores)) scores x) = pool - r"
proof -
  let ?T = "sum_list (map snd scores)"
  show ?thesis
  proof (cases "pool = 0 \<or> scores = [] \<or> ?T = 0")
    case True
    then have "share pool ?T scores = (\<lambda>x. 0)" using share_zero by blast
    moreover have "DistributeByScore pool scores s = Inr (s, pool)" using True assms(1) by (auto simp: DistributeByScore_def Let_def)
    ultimately show ?thesis using assms(1) credited_refl by simp
  next
    case False
    have "unat ?T = sum_list (map (unat \<circ> snd) scores)" using sum_list_u64_noov [of "map snd scores"] assms(3) by simp
    then have "int (unat ?T) = sum_list (map (uint \<circ> snd) scores)" using uint_sum [of scores] by simp
    then have T: "sum_list (map (uint \<circ> snd) scores) = uint ?T" by simp
    have pos: "0 < uint ?T" using False uint_ge_0 [of ?T] by (simp add: order_less_le uint_0_iff)
    let ?d = "sum_list (map (\<lambda>(a, sc). pool * uint sc div uint ?T) scores)"
    have "?d \<le> pool" using sum_floor_le [OF pos assms(1), of scores] pos unfolding T by simp
    moreover obtain t where "distribute_loop pool ?T scores s 0 = Inr (t, ?d)" "credited (share pool ?T scores) s t"
      using distribute_loop_ok [OF assms(1,2), of ?T 0] by auto
    ultimately show ?thesis
      using False assms(1) by (simp add: DistributeByScore_def Let_def sum_share)
  qed
qed

text \<open>Splitting loses nothing, and no part is negative when the shares of the pools are at most all of it.\<close>

lemma SplitBlockReward_parts:
  assumes "0 \<le> R" and "uint (v2_AgentShareBps (v2_config config)) + uint (v2_PhysicalShareBps (v2_config config)) \<le> 10000"
    and "SplitBlockReward R config = (p, ap, pp)"
  shows "p + ap + pp = R" and "0 \<le> p" and "0 \<le> ap" and "0 \<le> pp"
proof -
  let ?a = "uint (v2_AgentShareBps (v2_config config))" and ?b = "uint (v2_PhysicalShareBps (v2_config config))"
  have parts: "ap = R * ?a div 10000" "pp = R * ?b div 10000" "p = R - ap - pp" using assms(3) by (simp_all add: SplitBlockReward_def Let_def)
  have "R * ?a + R * ?b \<le> R * 10000" using mult_left_mono [OF assms(2,1)] by (simp add: distrib_left)
  then have "ap + pp \<le> R" unfolding parts by linarith
  then show "p + ap + pp = R" "0 \<le> p" "0 \<le> ap" "0 \<le> pp" using parts assms(1) by (simp_all add: pos_imp_zdiv_nonneg_iff)
qed

definition emission :: "(bytes \<Rightarrow> hash) \<Rightarrow> ChainConfig \<Rightarrow> TxData list \<Rightarrow> PobSnapshot \<Rightarrow> int" where
  "emission keccak config txs snap =
     (let c = Some (v2_config (cc_PoBV2 config));
          gold = Some (case sn_GoldReserveOZ snap of None \<Rightarrow> 0 | Some g \<Rightarrow> g)
      in if IsEmissionActive gold c then CalcBlockReward (Some (fst (CalcQualifiedVolume keccak txs NilMap c))) gold c else 0)"

lemma emission_nonneg: "0 \<le> emission keccak config txs snap"
  using qualified_loop_nonneg [of _ "(0, 0)"] CalcBlockReward_nonneg by (simp add: emission_def Let_def CalcQualifiedVolume_def)

text \<open>One pool: what the nodes do not get goes to the producer.\<close>

lemma pool_paid:
  assumes "0 \<le> pool" and "\<forall>a \<in> set (map fst scores). payable s a" and "sum_list (map (unat \<circ> snd) scores) < 2 ^ 64"
    and "payable s producer"
  shows "\<exists>t r u. DistributeByScore pool scores s = Inr (t, r) \<and> pay producer r t = Inr u \<and>
    credited (\<lambda>x. share pool (sum_list (map snd scores)) scores x + (if x = producer then r else 0)) s u \<and>
    (\<Sum>x \<in> UNIV. share pool (sum_list (map snd scores)) scores x + (if x = producer then r else 0)) = pool"
proof -
  obtain t r where t: "DistributeByScore pool scores s = Inr (t, r)" "0 \<le> r" "credited (share pool (sum_list (map snd scores)) scores) s t"
      "(\<Sum>x \<in> UNIV. share pool (sum_list (map snd scores)) scores x) = pool - r"
    using DistributeByScore_ok [OF assms(1-3)] by blast
  obtain u where u: "pay producer r t = Inr u" "credited (\<lambda>x. if x = producer then r else 0) t u"
    using pay_credits [OF credited_payable [OF t(3) assms(4)] t(2)] by blast
  show ?thesis using t u credited_trans [OF t(3) u(2)] by (auto simp: sum.distrib)
qed

text \<open>
  C15. The second reward model mints exactly the block reward. With pool shares of at most all of it, payable
  accounts and scores whose sum fits 64 bits, the rewards are paid without a panic; the sum of all
  balances grows by the reward of the block and by nothing else, nothing being minted
  once the gold reserve has reached its target; and every account but the
  producer's receives its score's share of the two pools, rounded down, the producer the rest.
\<close>

theorem rewards_v2_conserved:
  assumes shares: "uint (v2_AgentShareBps (v2_config (cc_PoBV2 config))) + uint (v2_PhysicalShareBps (v2_config (cc_PoBV2 config))) \<le> 10000"
    and paid: "payable s (h_ValidatorAddr header)" "\<forall>a \<in> set (map fst (agentScores snap)). payable s a"
      "\<forall>a \<in> set (map fst (physicalScores snap)). payable s a"
    and sums: "sum_list (map (unat \<circ> snd) (agentScores snap)) < 2 ^ 64" "sum_list (map (unat \<circ> snd) (physicalScores snap)) < 2 ^ 64"
  shows "\<exists>t snap' p ap pp. accumulateRewardsV2 keccak config header txs s snap = Inr (t, snap') \<and>
    SplitBlockReward (emission keccak config txs snap) (Some (v2_config (cc_PoBV2 config))) = (p, ap, pp) \<and>
    total_balance t = total_balance s + emission keccak config txs snap \<and>
    (\<forall>x. x \<noteq> h_ValidatorAddr header \<longrightarrow>
       bal t x = bal s x + share ap (sum_list (map snd (agentScores snap))) (agentScores snap) x
                         + share pp (sum_list (map snd (physicalScores snap))) (physicalScores snap) x)"
proof -
  let ?c = "Some (v2_config (cc_PoBV2 config))" and ?R = "emission keccak config txs snap" and ?P = "h_ValidatorAddr header"
  let ?gold = "Some (case sn_GoldReserveOZ snap of None \<Rightarrow> 0 | Some g \<Rightarrow> g)"
  obtain p ap pp where split: "SplitBlockReward ?R ?c = (p, ap, pp)" by (cases "SplitBlockReward ?R ?c") auto
  have "v2_config ?c = v2_config (cc_PoBV2 config)" by (simp add: v2_config_def)
  note parts = SplitBlockReward_parts [OF emission_nonneg _ split, unfolded this, OF shares]
  show ?thesis
  proof (cases "IsEmissionActive ?gold ?c")
    case False
    then have "?R = 0" "accumulateRewardsV2 keccak config header txs s snap = Inr (s, snap)"
      by (simp_all add: emission_def accumulateRewardsV2_def Let_def)
    moreover from this(1) have "ap = 0" "pp = 0" using split by (simp_all add: SplitBlockReward_def Let_def)
    ultimately show ?thesis using split by (simp add: share_zero)
  next
    case True
    obtain s1 where s1: "pay ?P p s = Inr s1" "credited (\<lambda>x. if x = ?P then p else 0) s s1" using pay_credits [OF paid(1) parts(2)] by blast
    note keep1 = credited_payable [OF s1(2)]
    obtain s2 r s3 where s3: "DistributeByScore ap (agentScores snap) s1 = Inr (s2, r)" "pay ?P r s2 = Inr s3"
        "credited (\<lambda>x. share ap (sum_list (map snd (agentScores snap))) (agentScores snap) x + (if x = ?P then r else 0)) s1 s3"
        "(\<Sum>x \<in> UNIV. share ap (sum_list (map snd (agentScores snap))) (agentScores snap) x + (if x = ?P then r else 0)) = ap"
      using pool_paid [OF parts(3) _ sums(1) keep1 [OF paid(1)]] paid(2) keep1 by blast
    note keep3 = credited_payable [OF s3(3)]
    obtain s4 q s5 where s5: "DistributeByScore pp (physicalScores snap) s3 = Inr (s4, q)" "pay ?P q s4 = Inr s5"
        "credited (\<lambda>x. share pp (sum_list (map snd (physicalScores snap))) (physicalScores snap) x + (if x = ?P then q else 0)) s3 s5"
        "(\<Sum>x \<in> UNIV. share pp (sum_list (map snd (physicalScores snap))) (physicalScores snap) x + (if x = ?P then q else 0)) = pp"
      using pool_paid [OF parts(4) _ sums(2) keep3 [OF keep1 [OF paid(1)]]] paid(3) keep1 keep3 by blast
    have "\<exists>snap'. accumulateRewardsV2 keccak config header txs s snap = Inr (s5, snap')"
      using True split s1(1) s3(1,2) s5(1,2)
      by (auto simp: accumulateRewardsV2_def emission_def Let_def split: prod.splits)
    moreover have "total_balance s5 = total_balance s + ?R"
      using credited_total [OF s1(2)] credited_total [OF s3(3)] credited_total [OF s5(3)] s3(4) s5(4) parts(1) by simp
    moreover have "bal s5 x = bal s x + share ap (sum_list (map snd (agentScores snap))) (agentScores snap) x
        + share pp (sum_list (map snd (physicalScores snap))) (physicalScores snap) x" if "x \<noteq> ?P" for x
      using that s1(2) s3(3) s5(3) by (simp add: credited_def)
    ultimately show ?thesis using split by blast
  qed
qed

text \<open>
  C16. Emission is bounded and fades. For a volume that is not negative the reward of a block is never
  negative and never above the larger of the cap and the heartbeat reward; it does not grow as the
  gold reserve grows; and it is zero once the reserve has reached a positive target.
\<close>

theorem emission_bounds:
  assumes "0 \<le> volume" and "g \<le> g'"
  shows "0 \<le> CalcBlockReward (Some volume) (Some g') config \<and>
    CalcBlockReward (Some volume) (Some g') config \<le> CalcBlockReward (Some volume) (Some g) config \<and>
    CalcBlockReward (Some volume) (Some g) config \<le>
      max (uint (v2_MaxBlockRewardWei (v2_config config))) (uint (v2_HeartbeatRewardWei (v2_config config))) \<and>
    (\<forall>target. big_SetString (v2_GoldReserveTargetOZ (v2_config config)) = Some target \<and> 0 < target \<and> target \<le> g \<longrightarrow>
       CalcBlockReward (Some volume) (Some g) config = 0)"
proof -
  let ?c = "v2_config config"
  let ?reward = "\<lambda>d. if volume = 0 then uint (v2_HeartbeatRewardWei ?c) * d div 10000
    else min (uint (v2_MaxBlockRewardWei ?c)) (volume * uint (v2_RewardRateBps ?c) div 10000 * d div 10000)"
  have cfg: "v2_config (Some ?c) = ?c" by (simp add: v2_config_def)
  have reward: "CalcBlockReward (Some volume) x config = ?reward (CalcDecayFactor x (Some ?c))" for x
    by (simp add: CalcBlockReward_def Let_def min_def)
  have base: "0 \<le> volume * uint (v2_RewardRateBps ?c) div 10000" using assms(1) by (simp add: pos_imp_zdiv_nonneg_iff)
  have mono: "?reward d \<le> ?reward d'" if "d \<le> d'" for d d'
  proof -
    have "b * d div 10000 \<le> b * d' div 10000" if "0 \<le> b" for b :: int
      using that \<open>d \<le> d'\<close> by (intro zdiv_mono1 mult_left_mono) simp_all
    from this [OF base] this [OF uint_ge_0 [of "v2_HeartbeatRewardWei ?c"]] show ?thesis by (auto simp: min_def)
  qed
  have "?reward 10000 \<le> max (uint (v2_MaxBlockRewardWei ?c)) (uint (v2_HeartbeatRewardWei ?c))" by auto
  then have "CalcBlockReward (Some volume) (Some g) config \<le> max (uint (v2_MaxBlockRewardWei ?c)) (uint (v2_HeartbeatRewardWei ?c))"
    unfolding reward using mono [OF conjunct2 [OF CalcDecayFactor_range]] by (meson order_trans)
  moreover have "CalcBlockReward (Some volume) (Some g') config \<le> CalcBlockReward (Some volume) (Some g) config"
    unfolding reward using mono [OF CalcDecayFactor_antimono [OF assms(2)]] .
  moreover have "CalcBlockReward (Some volume) (Some g) config = 0"
    if "big_SetString (v2_GoldReserveTargetOZ ?c) = Some target" "0 < target" "target \<le> g" for target
    using that cfg by (simp add: CalcBlockReward_def CalcDecayFactor_def Let_def)
  ultimately show ?thesis using CalcBlockReward_nonneg [OF assms(1)] by blast
qed

lemma default_target: "big_SetString ''1157425200'' = Some 1157425200"
  by code_simp

theorem emission_bounds_witness:
  "CalcBlockReward (Some 1000) (Some 2000000000) None = 0"
proof -
  have t: "big_SetString (v2_GoldReserveTargetOZ (v2_config None)) = Some 1157425200"
    by (simp add: v2_config_def DefaultPoBV2Config_def default_target)
  have "(0 :: int) \<le> 1000" "(2000000000 :: int) \<le> 2000000000" by simp_all
  from emission_bounds [OF this, of None] t show ?thesis by simp
qed

definition exampleAgents :: PobSnapshot where
  "exampleAgents = (newSnapshot exampleConfig 0 0 [1])\<lparr>sn_Agents := GoMap [(5, DefaultAgentScore 0)]\<rparr>"

theorem rewards_v2_conserved_witness:
  "\<exists>t snap'. accumulateRewardsV2 (\<lambda>b. 7) MainnetChainConfig exampleHeader [] (NewStateDB emptyDatabase) exampleAgents = Inr (t, snap') \<and>
     total_balance t = total_balance (NewStateDB emptyDatabase) + 10000000000 \<and>
     bal t 5 = bal (NewStateDB emptyDatabase) 5 + 4000000000"
proof -
  let ?s = "NewStateDB emptyDatabase"
  have cfg: "v2_config (cc_PoBV2 MainnetChainConfig) = DefaultPoBV2Config"
    by (simp add: v2_config_def MainnetChainConfig_def emptyChainConfig_def)
  have "payable ?s x" for x
    by (simp add: payable_def getStateObject_def getDeletedStateObject_def NewStateDB_def emptyDatabase_def)
  note pay = this
  have scores: "agentScores exampleAgents = [(5, defaultInitialScore)]" "physicalScores exampleAgents = []"
    by (simp_all add: agentScores_def physicalScores_def exampleAgents_def newSnapshot_def DefaultAgentScore_def)
  have gold: "sn_GoldReserveOZ exampleAgents = Some 0" by (simp add: exampleAgents_def newSnapshot_def)
  have em: "emission (\<lambda>b. 7) MainnetChainConfig [] exampleAgents = 10000000000"
    unfolding emission_def cfg gold Let_def
    by (simp add: IsEmissionActive_def CalcBlockReward_def CalcDecayFactor_def CalcQualifiedVolume_def v2_config_def
        DefaultPoBV2Config_def default_target)
  have shares: "uint (v2_AgentShareBps (v2_config (cc_PoBV2 MainnetChainConfig))) + uint (v2_PhysicalShareBps (v2_config (cc_PoBV2 MainnetChainConfig))) \<le> 10000"
    unfolding cfg by (simp add: DefaultPoBV2Config_def)
  have sums: "sum_list (map (unat \<circ> snd) (agentScores exampleAgents)) < 2 ^ 64" "sum_list (map (unat \<circ> snd) (physicalScores exampleAgents)) < 2 ^ 64"
    unfolding scores using unat_u64_bound by simp_all
  have split: "SplitBlockReward 10000000000 (Some DefaultPoBV2Config) = (3000000000, 4000000000, 3000000000)"
    by (simp add: SplitBlockReward_def v2_config_def DefaultPoBV2Config_def)
  have sh: "share 4000000000 defaultInitialScore [(5, defaultInitialScore)] 5 = 4000000000" "share 3000000000 0 [] 5 = 0"
    by (simp_all add: share_def defaultInitialScore_def)
  have nodes: "\<forall>a \<in> set (map fst (agentScores exampleAgents)). payable ?s a" "\<forall>a \<in> set (map fst (physicalScores exampleAgents)). payable ?s a"
    using pay by simp_all
  have other: "(5 :: address) \<noteq> h_ValidatorAddr exampleHeader" by (simp add: exampleHeader_def)
  from rewards_v2_conserved [OF shares pay nodes sums, where header = exampleHeader and keccak = "\<lambda>b. 7" and txs = "[]"]
  obtain t snap' where "accumulateRewardsV2 (\<lambda>b. 7) MainnetChainConfig exampleHeader [] ?s exampleAgents = Inr (t, snap')"
      "total_balance t = total_balance ?s + 10000000000"
      "\<forall>x. x \<noteq> h_ValidatorAddr exampleHeader \<longrightarrow> bal t x = bal ?s x + share 4000000000 defaultInitialScore [(5, defaultInitialScore)] x + share 3000000000 0 [] x"
    unfolding em cfg split scores by auto
  then show ?thesis using sh other by auto
qed

text \<open>The fixed rewards: one unit for the validator, three for each miner, a half for each uncle's miner.\<close>

lemma foldE_AddBalance:
  assumes "\<forall>a \<in> set xs. payable s (bp_Miner a)"
  shows "\<exists>t. foldE (\<lambda>answer. AddBalance (bp_Miner answer) v) xs s = Inr t \<and>
    credited (\<lambda>x. v * int (length (filter (\<lambda>a. bp_Miner a = x) xs))) s t \<and> total_balance t = total_balance s + v * int (length xs)"
  using assms
proof (induction xs arbitrary: s)
  case (Cons a xs)
  obtain t where t: "AddBalance (bp_Miner a) v s = Inr t" "credited (\<lambda>x. if x = bp_Miner a then v else 0) s t"
    using AddBalance_credits Cons.prems by (metis list.set_intros(1))
  obtain u where u: "foldE (\<lambda>answer. AddBalance (bp_Miner answer) v) xs t = Inr u"
      "credited (\<lambda>x. v * int (length (filter (\<lambda>a. bp_Miner a = x) xs))) t u" "total_balance u = total_balance t + v * int (length xs)"
    using Cons.IH [of t] Cons.prems credited_payable [OF t(2)] by auto
  have "credited (\<lambda>x. v * int (length (filter (\<lambda>a. bp_Miner a = x) (a # xs)))) s u"
    using t(2) u(2) by (auto simp: credited_def distrib_left)
  then show ?case using t(1) u(1,3) credited_total [OF t(2)] by (simp add: distrib_left)
qed (simp add: credited_refl)

lemma accumulateRewards_total:
  assumes "\<forall>x. payable s x"
  shows "\<exists>t. accumulateRewards header powUncles s = Inr t \<and>
    total_balance t = total_balance s + BlockRewardPobValidator + BlockRewardPowMiner * int (length (h_BehaviorProofs header))
      + BlockRewardPowMinerUncle * int (length powUncles)"
proof -
  obtain t where t: "AddBalance (h_ValidatorAddr header) BlockRewardPobValidator s = Inr t"
      "credited (\<lambda>x. if x = h_ValidatorAddr header then BlockRewardPobValidator else 0) s t" using AddBalance_credits assms by blast
  have "\<forall>x. payable t x" using credited_payable [OF t(2)] assms by blast
  then obtain u where u: "foldE (\<lambda>answer. AddBalance (bp_Miner answer) BlockRewardPowMiner) (h_BehaviorProofs header) t = Inr u"
      "\<forall>x. payable u x" "total_balance u = total_balance t + BlockRewardPowMiner * int (length (h_BehaviorProofs header))"
    using foldE_AddBalance [of "h_BehaviorProofs header" t BlockRewardPowMiner] credited_payable by blast
  then obtain w where "foldE (\<lambda>answer. AddBalance (bp_Miner answer) BlockRewardPowMinerUncle) powUncles u = Inr w"
      "total_balance w = total_balance u + BlockRewardPowMinerUncle * int (length powUncles)"
    using foldE_AddBalance [of powUncles u BlockRewardPowMinerUncle] by blast
  then show ?thesis using t u credited_total [OF t(2)] by (simp add: accumulateRewards_def)
qed

end
