(* ===== verification/Signing.thy ===== *)
theory Signing
  imports Transaction
begin

text \<open>
  Signers (\<open>src/core/types/transaction_signing.go\<close>) and what \<open>transaction.go\<close> builds on them: the
  hash a sender signs, the signature values a transaction stores, the recovery of the sender with
  its cache, and messages. A signer of a later fork falls back to the earlier one for the kinds it
  does not know, as the embedded structs of the code do.
\<close>

section \<open>Signers\<close>

record EIP155Signer =
  es_chainId :: int
  es_chainIdMul :: int

datatype Signer =
    FrontierSigner
  | HomesteadSigner
  | EIP155S EIP155Signer
  | EIP2930S EIP155Signer
  | LondonS EIP155Signer
  | DilithiumS EIP155Signer

definition NewEIP155Signer :: "int option \<Rightarrow> EIP155Signer" where
  "NewEIP155Signer chainId =
     (let c = (case chainId of None \<Rightarrow> 0 | Some c \<Rightarrow> c) in \<lparr>es_chainId = c, es_chainIdMul = c * 2\<rparr>)"

definition NewEIP2930Signer :: "int option \<Rightarrow> Signer" where
  "NewEIP2930Signer chainId = EIP2930S (NewEIP155Signer chainId)"

definition NewLondonSigner :: "int option \<Rightarrow> Signer" where
  "NewLondonSigner chainId = LondonS (NewEIP155Signer chainId)"

definition NewDilithiumSigner :: "int option \<Rightarrow> Signer" where
  "NewDilithiumSigner chainId = DilithiumS (NewEIP155Signer chainId)"

definition MakeSigner :: "ChainConfig \<Rightarrow> int option \<Rightarrow> Signer" where
  "MakeSigner config blockNumber =
     (if IsDilithium config blockNumber then NewDilithiumSigner (cc_ChainID config)
      else if IsLondon config blockNumber then NewLondonSigner (cc_ChainID config)
      else if IsBerlin config blockNumber then NewEIP2930Signer (cc_ChainID config)
      else if IsEIP155 config blockNumber then EIP155S (NewEIP155Signer (cc_ChainID config))
      else if IsHomestead config blockNumber then HomesteadSigner
      else FrontierSigner)"

definition LatestSigner :: "ChainConfig \<Rightarrow> Signer" where
  "LatestSigner config =
     (if cc_ChainID config \<noteq> None \<and> cc_DilithiumBlock config \<noteq> None then NewDilithiumSigner (cc_ChainID config)
      else if cc_ChainID config \<noteq> None \<and> cc_LondonBlock config \<noteq> None then NewLondonSigner (cc_ChainID config)
      else if cc_ChainID config \<noteq> None \<and> cc_BerlinBlock config \<noteq> None then NewEIP2930Signer (cc_ChainID config)
      else if cc_ChainID config \<noteq> None \<and> cc_EIP155Block config \<noteq> None then EIP155S (NewEIP155Signer (cc_ChainID config))
      else HomesteadSigner)"

definition LatestSignerForChainID :: "int option \<Rightarrow> Signer" where
  "LatestSignerForChainID chainID = (if chainID = None then HomesteadSigner else NewLondonSigner chainID)"

fun signer_ChainID :: "Signer \<Rightarrow> int option" where
  "signer_ChainID FrontierSigner = None"
| "signer_ChainID HomesteadSigner = None"
| "signer_ChainID (EIP155S s) = Some (es_chainId s)"
| "signer_ChainID (EIP2930S s) = Some (es_chainId s)"
| "signer_ChainID (LondonS s) = Some (es_chainId s)"
| "signer_ChainID (DilithiumS s) = Some (es_chainId s)"

fun signer_Equal :: "Signer \<Rightarrow> Signer \<Rightarrow> bool" where
  "signer_Equal FrontierSigner s2 = (s2 = FrontierSigner)"
| "signer_Equal HomesteadSigner s2 = (s2 = HomesteadSigner)"
| "signer_Equal (EIP155S s) s2 = (case s2 of EIP155S x \<Rightarrow> es_chainId x = es_chainId s | _ \<Rightarrow> False)"
| "signer_Equal (EIP2930S s) s2 = (case s2 of EIP2930S x \<Rightarrow> es_chainId x = es_chainId s | _ \<Rightarrow> False)"
| "signer_Equal (LondonS s) s2 = (case s2 of LondonS x \<Rightarrow> es_chainId x = es_chainId s | _ \<Rightarrow> False)"
| "signer_Equal (DilithiumS s) s2 = (case s2 of DilithiumS x \<Rightarrow> es_chainId x = es_chainId s | _ \<Rightarrow> False)"

section \<open>The hash that is signed\<close>

definition FrontierSigner_Hash :: "(bytes \<Rightarrow> hash) \<Rightarrow> TxData \<Rightarrow> hash" where
  "FrontierSigner_Hash keccak d =
     rlpHash keccak (RList [RUint (tx_nonce d), RBig (tx_gasPrice d), RUint (tx_gas d), to_value (tx_to d),
       RBig (tx_value d), RStr (tx_data d)])"

definition EIP155Signer_Hash :: "(bytes \<Rightarrow> hash) \<Rightarrow> EIP155Signer \<Rightarrow> TxData \<Rightarrow> hash" where
  "EIP155Signer_Hash keccak s d =
     rlpHash keccak (RList [RUint (tx_nonce d), RBig (tx_gasPrice d), RUint (tx_gas d), to_value (tx_to d),
       RBig (tx_value d), RStr (tx_data d), RBig (es_chainId s), RUint 0, RUint 0])"

definition eip2930Signer_Hash :: "(bytes \<Rightarrow> hash) \<Rightarrow> EIP155Signer \<Rightarrow> TxData \<Rightarrow> hash" where
  "eip2930Signer_Hash keccak s d =
     (if txType d = LegacyTxType then
        rlpHash keccak (RList [RUint (tx_nonce d), RBig (tx_gasPrice d), RUint (tx_gas d), to_value (tx_to d),
          RBig (tx_value d), RStr (tx_data d), RBig (es_chainId s), RUint 0, RUint 0])
      else if txType d = AccessListTxType then
        prefixedRlpHash keccak (txType d) (RList [RBig (es_chainId s), RUint (tx_nonce d), RBig (tx_gasPrice d),
          RUint (tx_gas d), to_value (tx_to d), RBig (tx_value d), RStr (tx_data d),
          AccessList_value (tx_accessList d)])
      else 0)"

definition londonSigner_Hash :: "(bytes \<Rightarrow> hash) \<Rightarrow> EIP155Signer \<Rightarrow> TxData \<Rightarrow> hash" where
  "londonSigner_Hash keccak s d =
     (if txType d \<noteq> DynamicFeeTxType then eip2930Signer_Hash keccak s d
      else prefixedRlpHash keccak (txType d) (RList [RBig (es_chainId s), RUint (tx_nonce d),
             RBig (tx_gasTipCap d), RBig (tx_gasFeeCap d), RUint (tx_gas d), to_value (tx_to d),
             RBig (tx_value d), RStr (tx_data d), AccessList_value (tx_accessList d)]))"

definition dilithiumSigner_Hash :: "(bytes \<Rightarrow> hash) \<Rightarrow> EIP155Signer \<Rightarrow> TxData \<Rightarrow> hash" where
  "dilithiumSigner_Hash keccak s d =
     (if txType d = SuperlightTxType then
        prefixedRlpHash keccak (txType d) (RList [RBig (es_chainId s), RUint (tx_nonce d),
             RBig (tx_gasTipCap d), RBig (tx_gasFeeCap d), RUint (tx_gas d), to_value (tx_to d),
             RBig (tx_value d), RStr (tx_data d), AccessList_value (tx_accessList d)])
      else if txType d \<noteq> DilithiumTxType then londonSigner_Hash keccak s d
      else prefixedRlpHash keccak (txType d) (RList [RBig (es_chainId s), RUint (tx_nonce d),
             RBig (tx_gasTipCap d), RBig (tx_gasFeeCap d), RUint (tx_gas d), to_value (tx_to d),
             RBig (tx_value d), RStr (tx_data d), AccessList_value (tx_accessList d)]))"

fun signer_Hash :: "(bytes \<Rightarrow> hash) \<Rightarrow> Signer \<Rightarrow> TxData \<Rightarrow> hash" where
  "signer_Hash keccak FrontierSigner d = FrontierSigner_Hash keccak d"
| "signer_Hash keccak HomesteadSigner d = FrontierSigner_Hash keccak d"
| "signer_Hash keccak (EIP155S s) d = EIP155Signer_Hash keccak s d"
| "signer_Hash keccak (EIP2930S s) d = eip2930Signer_Hash keccak s d"
| "signer_Hash keccak (LondonS s) d = londonSigner_Hash keccak s d"
| "signer_Hash keccak (DilithiumS s) d = dilithiumSigner_Hash keccak s d"

section \<open>Recovering the sender\<close>

datatype tx_error =
    ErrInvalidSig | ErrUnexpectedProtection | ErrTxTypeNotSupported | ErrInvalidChainId
  | ErrRecover | ErrInvalidPublicKey | ErrSign | TxPanic panic

definition isProtectedV :: "int \<Rightarrow> bool" where
  "isProtectedV V =
     (if BitLen V \<le> 8 then
        (let v = big_uint64 V in v \<noteq> 27 \<and> v \<noteq> 28 \<and> v \<noteq> 1 \<and> v \<noteq> 0)
      else True)"

fun Protected :: "TxData \<Rightarrow> bool" where
  "Protected (LegacyD t) = isProtectedV (ltx_V t)"
| "Protected (AccessListD t) = True"
| "Protected (DynamicFeeD t) = True"
| "Protected (DilithiumD t) = True"
| "Protected (SuperlightD t) = True"
| "Protected (AgentD t) = True"

definition sanityCheckSignature :: "int \<Rightarrow> int \<Rightarrow> int \<Rightarrow> bool \<Rightarrow> tx_error option" where
  "sanityCheckSignature v r s maybeProtected =
     (if isProtectedV v \<and> \<not> maybeProtected then Some ErrUnexpectedProtection
      else let plainV =
             (if isProtectedV v then ucast (big_uint64 v - 35 - 2 * big_uint64 (deriveChainId v))
              else if maybeProtected then ucast (big_uint64 v - 27)
              else ucast (big_uint64 v))
           in if \<not> ValidateSignatureValues plainV r s False then Some ErrInvalidSig else None)"

text \<open>\<open>big.Int.Bytes\<close>, copied to the end of a 32 byte field.\<close>

definition field32 :: "int \<Rightarrow> bytes" where
  "field32 x = (let b = be_min (nat x) in replicate (32 - length b) 0 @ b)"

definition recoverPlain :: "Crypto \<Rightarrow> hash \<Rightarrow> int \<Rightarrow> int \<Rightarrow> int \<Rightarrow> bool \<Rightarrow> tx_error + address" where
  "recoverPlain cy sighash R S Vb homestead =
     (if BitLen Vb > 8 then Inl ErrInvalidSig
      else let V = ucast (big_uint64 Vb - 27) :: byte
           in if \<not> ValidateSignatureValues V R S homestead then Inl ErrInvalidSig
              else let sig = field32 R @ field32 S @ [V]
                   in case cy_ecrecover cy (hash_bytes sighash) sig of
                        None \<Rightarrow> Inl ErrRecover
                      | Some pub \<Rightarrow>
                          if length pub = 0 \<or> pub ! 0 \<noteq> 4 then Inl ErrInvalidPublicKey
                          else Inr (be_word (drop 12 (hash_bytes (cy_keccak cy (drop 1 pub))))))"

definition recoverDilithium :: "Crypto \<Rightarrow> hash \<Rightarrow> bytes \<Rightarrow> bytes \<Rightarrow> tx_error + address" where
  "recoverDilithium cy sighash pubkey sig =
     (case dilithium_UnmarshalPublicKey cy pubkey of
        None \<Rightarrow> Inl ErrInvalidSig
      | Some pub \<Rightarrow>
          if \<not> dilithium_Verify cy pub (hash_bytes sighash) sig then Inl ErrInvalidSig
          else Inr (dilithium_PubkeyToAddress cy pub))"

definition FrontierSigner_Sender :: "Crypto \<Rightarrow> TxData \<Rightarrow> tx_error + address" where
  "FrontierSigner_Sender cy d =
     (if txType d \<noteq> LegacyTxType then Inl ErrTxTypeNotSupported
      else let (v, r, s) = rawSignatureValues d
           in recoverPlain cy (FrontierSigner_Hash (cy_keccak cy) d) r s v False)"

definition HomesteadSigner_Sender :: "Crypto \<Rightarrow> TxData \<Rightarrow> tx_error + address" where
  "HomesteadSigner_Sender cy d =
     (if txType d \<noteq> LegacyTxType then Inl ErrTxTypeNotSupported
      else let (v, r, s) = rawSignatureValues d
           in recoverPlain cy (FrontierSigner_Hash (cy_keccak cy) d) r s v True)"

definition EIP155Signer_Sender :: "Crypto \<Rightarrow> EIP155Signer \<Rightarrow> TxData \<Rightarrow> tx_error + address" where
  "EIP155Signer_Sender cy sg d =
     (if txType d \<noteq> LegacyTxType then Inl ErrTxTypeNotSupported
      else if \<not> Protected d then HomesteadSigner_Sender cy d
      else if tx_chainID d \<noteq> es_chainId sg then Inl ErrInvalidChainId
      else let (v, r, s) = rawSignatureValues d
           in recoverPlain cy (EIP155Signer_Hash (cy_keccak cy) sg d) r s (v - es_chainIdMul sg - 8) True)"

definition eip2930Signer_Sender :: "Crypto \<Rightarrow> EIP155Signer \<Rightarrow> TxData \<Rightarrow> tx_error + address" where
  "eip2930Signer_Sender cy sg d =
     (let (v, r, s) = rawSignatureValues d
      in if txType d = LegacyTxType then
           (if \<not> Protected d then HomesteadSigner_Sender cy d
            else if tx_chainID d \<noteq> es_chainId sg then Inl ErrInvalidChainId
            else recoverPlain cy (eip2930Signer_Hash (cy_keccak cy) sg d) r s (v - es_chainIdMul sg - 8) True)
         else if txType d = AccessListTxType then
           (if tx_chainID d \<noteq> es_chainId sg then Inl ErrInvalidChainId
            else recoverPlain cy (eip2930Signer_Hash (cy_keccak cy) sg d) r s (v + 27) True)
         else Inl ErrTxTypeNotSupported)"

definition londonSigner_Sender :: "Crypto \<Rightarrow> EIP155Signer \<Rightarrow> TxData \<Rightarrow> tx_error + address" where
  "londonSigner_Sender cy sg d =
     (if txType d \<noteq> DynamicFeeTxType then eip2930Signer_Sender cy sg d
      else let (v, r, s) = rawSignatureValues d
           in if tx_chainID d \<noteq> es_chainId sg then Inl ErrInvalidChainId
              else recoverPlain cy (londonSigner_Hash (cy_keccak cy) sg d) r s (v + 27) True)"

definition dilithiumSigner_Sender :: "Crypto \<Rightarrow> EIP155Signer \<Rightarrow> TxData \<Rightarrow> tx_error + address" where
  "dilithiumSigner_Sender cy sg d =
     (if txType d = SuperlightTxType then
        (let (v, r, s) = rawSignatureValues d
         in if tx_chainID d \<noteq> es_chainId sg then Inl ErrInvalidChainId
            else recoverPlain cy (dilithiumSigner_Hash (cy_keccak cy) sg d) r s (v + 27) True)
      else if txType d \<noteq> DilithiumTxType then londonSigner_Sender cy sg d
      else case d of
             DilithiumD t \<Rightarrow>
               if dtx_ChainID t \<noteq> es_chainId sg then Inl ErrInvalidChainId
               else recoverDilithium cy (dilithiumSigner_Hash (cy_keccak cy) sg d) (dtx_PubKey t) (dtx_Signature t)
           | _ \<Rightarrow> Inl ErrTxTypeNotSupported)"

fun signer_Sender :: "Crypto \<Rightarrow> Signer \<Rightarrow> TxData \<Rightarrow> tx_error + address" where
  "signer_Sender cy FrontierSigner d = FrontierSigner_Sender cy d"
| "signer_Sender cy HomesteadSigner d = HomesteadSigner_Sender cy d"
| "signer_Sender cy (EIP155S s) d = EIP155Signer_Sender cy s d"
| "signer_Sender cy (EIP2930S s) d = eip2930Signer_Sender cy s d"
| "signer_Sender cy (LondonS s) d = londonSigner_Sender cy s d"
| "signer_Sender cy (DilithiumS s) d = dilithiumSigner_Sender cy s d"

text \<open>A transaction with the time it was first seen and the cached sender.\<close>

record Transaction =
  tx_inner :: TxData
  tx_time :: int
  tx_from :: "(Signer \<times> address) option"

definition NewTx :: "int \<Rightarrow> TxData \<Rightarrow> Transaction" where
  "NewTx now inner = \<lparr>tx_inner = inner, tx_time = now, tx_from = None\<rparr>"

definition Sender :: "Crypto \<Rightarrow> Signer \<Rightarrow> Transaction \<Rightarrow> (tx_error + address) \<times> Transaction" where
  "Sender cy signer tx =
     (case tx_from tx of
        Some (sg, a) \<Rightarrow>
          if signer_Equal sg signer then (Inr a, tx)
          else (case signer_Sender cy signer (tx_inner tx) of
                  Inl e \<Rightarrow> (Inl e, tx)
                | Inr addr \<Rightarrow> (Inr addr, tx\<lparr>tx_from := Some (signer, addr)\<rparr>))
      | None \<Rightarrow> (case signer_Sender cy signer (tx_inner tx) of
                  Inl e \<Rightarrow> (Inl e, tx)
                | Inr addr \<Rightarrow> (Inr addr, tx\<lparr>tx_from := Some (signer, addr)\<rparr>)))"

section \<open>Signing\<close>

text \<open>The values in the order \<open>R\<close>, \<open>S\<close>, \<open>V\<close>; a signature of the wrong size panics.\<close>

definition decodeSignature :: "bytes \<Rightarrow> tx_error + int \<times> int \<times> int" where
  "decodeSignature sig =
     (if length sig \<noteq> SignatureLength then Inl (TxPanic PanicExplicit)
      else Inr (int (be_nat (take 32 sig)), int (be_nat (take 32 (drop 32 sig))), int (unat (sig ! 64 + 27))))"

definition FrontierSigner_SignatureValues :: "TxData \<Rightarrow> bytes \<Rightarrow> tx_error + int \<times> int \<times> int" where
  "FrontierSigner_SignatureValues d sig =
     (if txType d \<noteq> LegacyTxType then Inl ErrTxTypeNotSupported else decodeSignature sig)"

definition EIP155Signer_SignatureValues :: "EIP155Signer \<Rightarrow> TxData \<Rightarrow> bytes \<Rightarrow> tx_error + int \<times> int \<times> int" where
  "EIP155Signer_SignatureValues sg d sig =
     (if txType d \<noteq> LegacyTxType then Inl ErrTxTypeNotSupported
      else bindE (decodeSignature sig) (\<lambda>(r, s, v).
             Inr (r, s, if es_chainId sg \<noteq> 0 then int (unat (sig ! 64 + 35)) + es_chainIdMul sg else v)))"

text \<open>What the later signers do for a typed transaction with chain id \<open>c\<close>.\<close>

definition typed_SignatureValues :: "EIP155Signer \<Rightarrow> int \<Rightarrow> bytes \<Rightarrow> tx_error + int \<times> int \<times> int" where
  "typed_SignatureValues sg c sig =
     (if c \<noteq> 0 \<and> c \<noteq> es_chainId sg then Inl ErrInvalidChainId
      else bindE (decodeSignature sig) (\<lambda>(r, s, v). Inr (r, s, int (unat (sig ! 64)))))"

definition eip2930Signer_SignatureValues :: "EIP155Signer \<Rightarrow> TxData \<Rightarrow> bytes \<Rightarrow> tx_error + int \<times> int \<times> int" where
  "eip2930Signer_SignatureValues sg d sig =
     (case d of
        LegacyD t \<Rightarrow> EIP155Signer_SignatureValues sg d sig
      | AccessListD t \<Rightarrow> typed_SignatureValues sg (atx_ChainID t) sig
      | _ \<Rightarrow> Inl ErrTxTypeNotSupported)"

definition londonSigner_SignatureValues :: "EIP155Signer \<Rightarrow> TxData \<Rightarrow> bytes \<Rightarrow> tx_error + int \<times> int \<times> int" where
  "londonSigner_SignatureValues sg d sig =
     (case d of
        DynamicFeeD t \<Rightarrow> typed_SignatureValues sg (ftx_ChainID t) sig
      | _ \<Rightarrow> eip2930Signer_SignatureValues sg d sig)"

definition dilithiumSigner_SignatureValues :: "EIP155Signer \<Rightarrow> TxData \<Rightarrow> bytes \<Rightarrow> tx_error + int \<times> int \<times> int" where
  "dilithiumSigner_SignatureValues sg d sig =
     (case d of
        SuperlightD t \<Rightarrow> typed_SignatureValues sg (stx_ChainID t) sig
      | DilithiumD t \<Rightarrow> Inr (0, 0, 0)
      | _ \<Rightarrow> londonSigner_SignatureValues sg d sig)"

fun signer_SignatureValues :: "Signer \<Rightarrow> TxData \<Rightarrow> bytes \<Rightarrow> tx_error + int \<times> int \<times> int" where
  "signer_SignatureValues FrontierSigner d sig = FrontierSigner_SignatureValues d sig"
| "signer_SignatureValues HomesteadSigner d sig = FrontierSigner_SignatureValues d sig"
| "signer_SignatureValues (EIP155S s) d sig = EIP155Signer_SignatureValues s d sig"
| "signer_SignatureValues (EIP2930S s) d sig = eip2930Signer_SignatureValues s d sig"
| "signer_SignatureValues (LondonS s) d sig = londonSigner_SignatureValues s d sig"
| "signer_SignatureValues (DilithiumS s) d sig = dilithiumSigner_SignatureValues s d sig"

text \<open>
  The signers without a chain id only accept legacy data, whose setter ignores the id: a nil id is
  read as zero.
\<close>

definition WithSignature :: "Signer \<Rightarrow> bytes \<Rightarrow> Transaction \<Rightarrow> tx_error + Transaction" where
  "WithSignature signer sig tx =
     bindE (signer_SignatureValues signer (tx_inner tx) sig) (\<lambda>(r, s, v).
       Inr \<lparr>tx_inner = setSignatureValues (case signer_ChainID signer of None \<Rightarrow> 0 | Some c \<Rightarrow> c) v r s (tx_inner tx),
            tx_time = tx_time tx, tx_from = None\<rparr>)"

definition SignTx :: "Crypto \<Rightarrow> Transaction \<Rightarrow> Signer \<Rightarrow> bytes \<Rightarrow> tx_error + Transaction" where
  "SignTx cy tx s prv =
     (let h = signer_Hash (cy_keccak cy) s (tx_inner tx)
      in case cy_sign cy (hash_bytes h) prv of
           None \<Rightarrow> Inl ErrSign
         | Some sig \<Rightarrow> WithSignature s sig tx)"

definition SignDilithiumTx :: "Crypto \<Rightarrow> Transaction \<Rightarrow> Signer \<Rightarrow> bytes \<Rightarrow> tx_error + Transaction" where
  "SignDilithiumTx cy tx s priv =
     (case tx_inner tx of
        DilithiumD t \<Rightarrow>
          let h = signer_Hash (cy_keccak cy) s (tx_inner tx)
          in Inr \<lparr>tx_inner = DilithiumD (t\<lparr>dtx_PubKey := cy_dil_public cy priv,
                    dtx_Signature := cy_dil_sign cy priv (hash_bytes h)\<rparr>),
                  tx_time = tx_time tx, tx_from = None\<rparr>
      | _ \<Rightarrow> Inl ErrTxTypeNotSupported)"

section \<open>Fees and messages\<close>

definition pledgeAmount :: "address option \<Rightarrow> int" where
  "pledgeAmount t =
     (case t of
        None \<Rightarrow> 0
      | Some a \<Rightarrow>
          if a = SPECIAL_REGISTER_PNS then uint PLEDGE_OF_PNS
          else if a = SPECIAL_REGISTER_AUTHORIZE then uint PLEDGE_OF_AUTHORIZE
          else if a = SPECIAL_REGISTER_LOSE then uint PLEDGE_OF_LOSS
          else 0)"

definition Cost :: "TxData \<Rightarrow> int" where
  "Cost d = tx_gasPrice d * int (unat (tx_gas d)) + tx_value d + pledgeAmount (tx_to d)"

definition BigMin :: "int \<Rightarrow> int \<Rightarrow> int" where
  "BigMin x y = (if x > y then y else x)"

text \<open>The tip, and whether the fee cap is below the base fee (\<open>ErrGasFeeCapTooLow\<close>).\<close>

definition EffectiveGasTip :: "TxData \<Rightarrow> int option \<Rightarrow> int \<times> bool" where
  "EffectiveGasTip d baseFee =
     (case baseFee of
        None \<Rightarrow> (tx_gasTipCap d, False)
      | Some f \<Rightarrow> (BigMin (tx_gasTipCap d) (tx_gasFeeCap d - f), tx_gasFeeCap d < f))"

record Message =
  msg_to :: "address option"
  msg_from :: address
  msg_nonce :: u64
  msg_amount :: int
  msg_gasLimit :: u64
  msg_gasPrice :: int
  msg_gasFeeCap :: int
  msg_gasTipCap :: int
  msg_data :: bytes
  msg_accessList :: AccessList
  msg_checkNonce :: bool

definition AsMessage :: "Crypto \<Rightarrow> Signer \<Rightarrow> int option \<Rightarrow> Transaction \<Rightarrow> (tx_error + Message) \<times> Transaction" where
  "AsMessage cy s baseFee tx =
     (let d = tx_inner tx;
          price = (case baseFee of
                     None \<Rightarrow> tx_gasPrice d
                   | Some f \<Rightarrow> BigMin (tx_gasTipCap d + f) (tx_gasFeeCap d));
          (r, tx') = Sender cy s tx
      in (case r of
            Inl e \<Rightarrow> Inl e
          | Inr a \<Rightarrow> Inr \<lparr>msg_to = tx_to d, msg_from = a, msg_nonce = tx_nonce d, msg_amount = tx_value d,
                msg_gasLimit = tx_gas d, msg_gasPrice = price, msg_gasFeeCap = tx_gasFeeCap d,
                msg_gasTipCap = tx_gasTipCap d, msg_data = tx_data d, msg_accessList = tx_accessList d,
                msg_checkNonce = True\<rparr>, tx'))"

section \<open>Which kinds a signer supports\<close>

fun supports :: "Signer \<Rightarrow> TxData \<Rightarrow> bool" where
  "supports sg (LegacyD t) = True"
| "supports sg (AccessListD t) = (case sg of EIP2930S s \<Rightarrow> True | LondonS s \<Rightarrow> True | DilithiumS s \<Rightarrow> True | _ \<Rightarrow> False)"
| "supports sg (DynamicFeeD t) = (case sg of LondonS s \<Rightarrow> True | DilithiumS s \<Rightarrow> True | _ \<Rightarrow> False)"
| "supports sg (DilithiumD t) = (case sg of DilithiumS s \<Rightarrow> True | _ \<Rightarrow> False)"
| "supports sg (SuperlightD t) = (case sg of DilithiumS s \<Rightarrow> True | _ \<Rightarrow> False)"
| "supports sg (AgentD t) = False"

lemmas signer_senders = FrontierSigner_Sender_def HomesteadSigner_Sender_def EIP155Signer_Sender_def
  eip2930Signer_Sender_def londonSigner_Sender_def dilithiumSigner_Sender_def

lemmas signer_values = FrontierSigner_SignatureValues_def EIP155Signer_SignatureValues_def
  eip2930Signer_SignatureValues_def londonSigner_SignatureValues_def dilithiumSigner_SignatureValues_def
  typed_SignatureValues_def

lemmas signer_hashes = FrontierSigner_Hash_def EIP155Signer_Hash_def eip2930Signer_Hash_def
  londonSigner_Hash_def dilithiumSigner_Hash_def

lemma recoverPlain_supported: "recoverPlain cy h R S V b \<noteq> Inl ErrTxTypeNotSupported"
  by (auto simp: recoverPlain_def Let_def split: option.splits)

lemma recoverDilithium_supported: "recoverDilithium cy h p s \<noteq> Inl ErrTxTypeNotSupported"
  by (auto simp: recoverDilithium_def split: option.splits)

lemma decodeSignature_supported:
  "bindE (decodeSignature sig) (\<lambda>(r, s, v). Inr (f r s v)) \<noteq> Inl ErrTxTypeNotSupported"
  "decodeSignature sig \<noteq> Inl ErrTxTypeNotSupported"
  by (auto simp: decodeSignature_def)

section \<open>Signing and recovering\<close>

text \<open>
  What the curve promises of a signature: 65 bytes with a recovery id of 0 or 1 and values in the
  lower range, from which the signer's key is recovered.
\<close>

definition signature_of :: "Crypto \<Rightarrow> hash \<Rightarrow> bytes \<Rightarrow> address \<Rightarrow> bool" where
  "signature_of cy h sig a \<longleftrightarrow>
     length sig = 65 \<and> (sig ! 64 = 0 \<or> sig ! 64 = 1) \<and>
     ValidateSignatureValues (sig ! 64) (int (be_nat (take 32 sig))) (int (be_nat (take 32 (drop 32 sig)))) True \<and>
     (\<exists>pub. cy_ecrecover cy (hash_bytes h) sig = Some (4 # pub) \<and>
        a = be_word (drop 12 (hash_bytes (cy_keccak cy pub))))"

definition signs_as :: "Crypto \<Rightarrow> bytes \<Rightarrow> address \<Rightarrow> bool" where
  "signs_as cy prv a \<longleftrightarrow> (\<forall>h. \<exists>sig. cy_sign cy (hash_bytes h) prv = Some sig \<and> signature_of cy h sig a)"

lemma field32_be_nat: "length b = 32 \<Longrightarrow> field32 (int (be_nat b)) = b"
proof -
  assume b: "length b = 32"
  have "be_nat b < 256 ^ 32" using be_nat_less [of b] b by simp
  then have l: "length (be_min (be_nat b)) \<le> 32" by (simp add: length_be_min)
  have "be_nat (replicate n 0 @ c) = be_nat c" for n c
    by (induction n) (simp_all add: be_nat_Cons)
  then have "be_nat (field32 (int (be_nat b))) = be_nat b" by (simp add: field32_def be_nat_be_min Let_def)
  moreover have "length (field32 (int (be_nat b))) = 32" using l by (simp add: field32_def Let_def)
  ultimately show ?thesis using be_nat_inj b by metis
qed

lemma Validate_homestead: "ValidateSignatureValues v r s True \<Longrightarrow> ValidateSignatureValues v r s b"
  by (simp add: ValidateSignatureValues_def split: if_splits)

lemma recoverPlain_ok:
  assumes "BitLen V \<le> 8" and "ucast (big_uint64 V - 27) = v" and "ValidateSignatureValues v r s b"
    and "cy_ecrecover cy (hash_bytes h) (field32 r @ field32 s @ [v]) = Some (4 # pub)"
  shows "recoverPlain cy h r s V b = Inr (be_word (drop 12 (hash_bytes (cy_keccak cy pub))))"
  using assms by (simp add: recoverPlain_def Let_def)

lemma recover_signature:
  assumes "signature_of cy h sig a" and "V = int (unat (sig ! 64)) + 27"
  shows "recoverPlain cy h (int (be_nat (take 32 sig))) (int (be_nat (take 32 (drop 32 sig)))) V b = Inr a"
proof -
  let ?r = "int (be_nat (take 32 sig))" and ?s = "int (be_nat (take 32 (drop 32 sig)))"
  have len: "length sig = 65" and v: "sig ! 64 = 0 \<or> sig ! 64 = 1"
    and val: "ValidateSignatureValues (sig ! 64) ?r ?s b"
    using assms(1) Validate_homestead by (auto simp: signature_of_def)
  have sig: "field32 ?r @ field32 ?s @ [sig ! 64] = sig"
  proof -
    have "field32 ?r = take 32 sig" "field32 ?s = take 32 (drop 32 sig)"
      by (rule field32_be_nat; use len in simp)+
    moreover have "drop 64 sig = [sig ! 64]" using Cons_nth_drop_Suc [of 64 sig] len by simp
    moreover have "take 32 (drop 32 sig) @ drop 64 sig = drop 32 sig"
      using append_take_drop_id [of 32 "drop 32 sig"] by simp
    ultimately show ?thesis by (metis append_take_drop_id)
  qed
  have V: "ucast (big_uint64 V - 27) = sig ! 64" "BitLen V \<le> 8"
    using v assms(2) by (auto simp: big_uint64_def BitLen_def bitlen_le)
  obtain pub where pub: "cy_ecrecover cy (hash_bytes h) sig = Some (4 # pub)"
      "a = be_word (drop 12 (hash_bytes (cy_keccak cy pub)))"
    using assms(1) unfolding signature_of_def by blast
  show ?thesis unfolding pub(2) using recoverPlain_ok [OF V(2,1) val] pub(1) sig by metis
qed

lemma setSignatureValues_fields [simp]:
  "txType (setSignatureValues c v r s d) = txType d"
  "tx_nonce (setSignatureValues c v r s d) = tx_nonce d"
  "tx_gasPrice (setSignatureValues c v r s d) = tx_gasPrice d"
  "tx_gasTipCap (setSignatureValues c v r s d) = tx_gasTipCap d"
  "tx_gasFeeCap (setSignatureValues c v r s d) = tx_gasFeeCap d"
  "tx_gas (setSignatureValues c v r s d) = tx_gas d"
  "tx_to (setSignatureValues c v r s d) = tx_to d"
  "tx_value (setSignatureValues c v r s d) = tx_value d"
  "tx_data (setSignatureValues c v r s d) = tx_data d"
  "tx_accessList (setSignatureValues c v r s d) = tx_accessList d"
  by (cases d; simp)+

lemma signer_Hash_signed [simp]: "signer_Hash keccak sg (setSignatureValues c v r s d) = signer_Hash keccak sg d"
  by (cases sg) (simp_all add: signer_hashes)

text \<open>
  The signatures of \<open>sg\<close> on \<open>d\<close> are meant for its chain: the id is positive and a typed transaction
  names it or leaves it open.
\<close>

definition for_chain :: "Signer \<Rightarrow> TxData \<Rightarrow> bool" where
  "for_chain sg d \<longleftrightarrow>
     (case signer_ChainID sg of
        None \<Rightarrow> True
      | Some c \<Rightarrow> c > 0 \<and> (txType d = LegacyTxType \<or> tx_chainID d = 0 \<or> tx_chainID d = c))"

definition wf_signer :: "Signer \<Rightarrow> bool" where
  "wf_signer sg \<longleftrightarrow>
     (case sg of EIP155S s \<Rightarrow> es_chainIdMul s = es_chainId s * 2 | EIP2930S s \<Rightarrow> es_chainIdMul s = es_chainId s * 2
      | LondonS s \<Rightarrow> es_chainIdMul s = es_chainId s * 2 | DilithiumS s \<Rightarrow> es_chainIdMul s = es_chainId s * 2
      | _ \<Rightarrow> True)"

lemma uint_big_uint64: "0 \<le> x \<Longrightarrow> x < 2 ^ 64 \<Longrightarrow> uint (big_uint64 x) = x"
  by (simp add: big_uint64_def unsigned_of_int take_bit_int_eq_self)

lemma big_uint64_neq: "0 \<le> x \<Longrightarrow> x < 2 ^ 64 \<Longrightarrow> uint w < x \<Longrightarrow> big_uint64 x \<noteq> w"
  using uint_big_uint64 by fastforce

lemma legacy_V:
  assumes "v = (0 :: byte) \<or> v = 1" and "c > 0"
  shows "deriveChainId (int (unat (v + 35)) + c * 2) = c" and "isProtectedV (int (unat (v + 35)) + c * 2)"
proof -
  let ?V = "int (unat (v + 35)) + c * 2"
  define V where "V = ?V"
  have V: "V = 35 + int (unat v) + c * 2" "unat v \<le> 1" using assms(1) by (auto simp: V_def)
  have half: "(V - 35) div 2 = c" and big: "36 < V" using V assms(2) by linarith+
  have "deriveChainId V = c"
  proof (cases "BitLen V \<le> 64")
    case True
    then have lt: "0 \<le> V" "V < 2 ^ 64" using V assms(2) by (simp_all add: BitLen_def bitlen_le nat_less_iff)
    have "uint (big_uint64 V - 35) = V - 35"
      using uint_big_uint64 [OF lt] V assms(2) uint_sub_lem [of 35 "big_uint64 V"] by simp
    then have "uint ((big_uint64 V - 35) div 2) = c" using half by (simp add: uint_div)
    moreover have "big_uint64 V \<noteq> 27" "big_uint64 V \<noteq> 28"
      using big_uint64_neq [OF lt, of 27] big_uint64_neq [OF lt, of 28] big by simp_all
    ultimately show ?thesis using True by (simp add: deriveChainId_def Let_def)
  next
    case False
    then show ?thesis using half by (simp add: deriveChainId_def)
  qed
  then show "deriveChainId ?V = c" by (simp only: V_def)
  have "isProtectedV V"
  proof (cases "BitLen V \<le> 8")
    case True
    then have lt: "0 \<le> V" "V < 2 ^ 64" using V assms(2) by (simp_all add: BitLen_def bitlen_le nat_less_iff)
    have "big_uint64 V \<noteq> 27" "big_uint64 V \<noteq> 28" "big_uint64 V \<noteq> 1" "big_uint64 V \<noteq> 0"
      using big_uint64_neq [OF lt, of 27] big_uint64_neq [OF lt, of 28] big_uint64_neq [OF lt, of 1]
        big_uint64_neq [OF lt, of 0] big by simp_all
    then show ?thesis by (simp add: isProtectedV_def Let_def)
  qed (simp add: isProtectedV_def)
  then show "isProtectedV ?V" by (simp only: V_def)
qed

lemma sign_recover:
  assumes "wf_signer sg" and "supports sg d" and "for_chain sg d" and "txType d \<noteq> DilithiumTxType"
    and "signature_of cy (signer_Hash (cy_keccak cy) sg d) sig a"
  shows "\<exists>r s v. signer_SignatureValues sg d sig = Inr (r, s, v) \<and>
     signer_Sender cy sg (setSignatureValues (case signer_ChainID sg of None \<Rightarrow> 0 | Some c \<Rightarrow> c) v r s d) = Inr a"
proof -
  let ?r = "int (be_nat (take 32 sig))" and ?s = "int (be_nat (take 32 (drop 32 sig)))"
  let ?h = "signer_Hash (cy_keccak cy) sg d"
  have len: "length sig = 65" and v: "sig ! 64 = 0 \<or> sig ! 64 = 1" using assms(5) by (auto simp: signature_of_def)
  have dec: "decodeSignature sig = Inr (?r, ?s, int (unat (sig ! 64 + 27)))"
    using len by (simp add: decodeSignature_def SignatureLength_def)
  have V: "int (unat (sig ! 64 + 27)) = int (unat (sig ! 64)) + 27" "unat (sig ! 64 + 35) = unat (sig ! 64) + 35"
    using v by auto
  have rec: "recoverPlain cy ?h ?r ?s (int (unat (sig ! 64)) + 27) b = Inr a"
      "recoverPlain cy ?h ?r ?s (27 + int (unat (sig ! 64))) b = Inr a" for b
    by (rule recover_signature [OF assms(5)], simp)+
  show ?thesis
  proof (cases d)
    case (LegacyD t)
    then show ?thesis
      using assms(1,3) dec V rec legacy_V [OF v]
      by (cases sg) (auto simp: signer_values signer_senders signer_hashes tx_types wf_signer_def for_chain_def)
  next
    case (AccessListD t)
    then show ?thesis
      using assms(2,3) dec rec
      by (cases sg) (auto simp: signer_values signer_senders signer_hashes tx_types for_chain_def)
  next
    case (DynamicFeeD t)
    then show ?thesis
      using assms(2,3) dec rec
      by (cases sg) (auto simp: signer_values signer_senders signer_hashes tx_types for_chain_def)
  next
    case (SuperlightD t)
    then show ?thesis
      using assms(2,3) dec rec
      by (cases sg) (auto simp: signer_values signer_senders signer_hashes tx_types for_chain_def)
  qed (use assms(2,4) in auto)
qed

end
