(* ===== verification/SigningProps.thy ===== *)
theory SigningProps
  imports Signing
begin

text \<open>
  What signing guarantees: a signed transaction gives back its signer, a signature is good for one
  chain, the kinds a signer refuses, the transparency of the sender cache, and that the signed hash
  covers everything but the signature.
\<close>

section \<open>The sender cache\<close>

definition cache_ok :: "Crypto \<Rightarrow> Transaction \<Rightarrow> bool" where
  "cache_ok cy tx \<longleftrightarrow>
     (case tx_from tx of
        None \<Rightarrow> True
      | Some (sg, a) \<Rightarrow> wf_signer sg \<and> signer_Sender cy sg (tx_inner tx) = Inr a)"

lemma signer_Equal_eq: "signer_Equal sg sg' \<Longrightarrow> wf_signer sg \<Longrightarrow> wf_signer sg' \<Longrightarrow> sg = sg'"
  by (cases sg; cases sg') (auto simp: wf_signer_def)

lemma Sender_result:
  assumes "cache_ok cy tx" and "wf_signer sg"
  shows "fst (Sender cy sg tx) = signer_Sender cy sg (tx_inner tx)"
    and "cache_ok cy (snd (Sender cy sg tx))" and "tx_inner (snd (Sender cy sg tx)) = tx_inner tx"
  using assms by (auto simp: Sender_def cache_ok_def dest: signer_Equal_eq split: option.splits sum.splits)

definition after_senders :: "Crypto \<Rightarrow> Signer list \<Rightarrow> Transaction \<Rightarrow> Transaction" where
  "after_senders cy sgs tx = fold (\<lambda>sg tx. snd (Sender cy sg tx)) sgs tx"

lemma after_senders_ok:
  "cache_ok cy tx \<Longrightarrow> \<forall>sg \<in> set sgs. wf_signer sg \<Longrightarrow>
     cache_ok cy (after_senders cy sgs tx) \<and> tx_inner (after_senders cy sgs tx) = tx_inner tx"
proof (induction sgs arbitrary: tx)
  case Nil
  then show ?case by (simp add: after_senders_def)
next
  case (Cons sg sgs)
  then show ?case using Sender_result(2,3) [OF Cons.prems(1), of sg]
    by (simp add: after_senders_def)
qed

section \<open>Signed bytes\<close>

text \<open>The data with everything a signature sets removed.\<close>

fun unsigned_tx :: "TxData \<Rightarrow> TxData" where
  "unsigned_tx (DilithiumD t) = DilithiumD (t\<lparr>dtx_ChainID := 0, dtx_PubKey := [], dtx_Signature := []\<rparr>)"
| "unsigned_tx d = setSignatureValues 0 0 0 0 d"

definition signing_values :: "Signer \<Rightarrow> TxData \<Rightarrow> rlp_value list" where
  "signing_values sg d =
     (case signer_ChainID sg of
        None \<Rightarrow> [RUint (tx_nonce d), RBig (tx_gasPrice d), RUint (tx_gas d), to_value (tx_to d),
                 RBig (tx_value d), RStr (tx_data d)]
      | Some c \<Rightarrow>
          if txType d = LegacyTxType then
            [RUint (tx_nonce d), RBig (tx_gasPrice d), RUint (tx_gas d), to_value (tx_to d),
             RBig (tx_value d), RStr (tx_data d), RBig c, RUint 0, RUint 0]
          else if txType d = AccessListTxType then
            [RBig c, RUint (tx_nonce d), RBig (tx_gasPrice d), RUint (tx_gas d), to_value (tx_to d),
             RBig (tx_value d), RStr (tx_data d), AccessList_value (tx_accessList d)]
          else
            [RBig c, RUint (tx_nonce d), RBig (tx_gasTipCap d), RBig (tx_gasFeeCap d), RUint (tx_gas d),
             to_value (tx_to d), RBig (tx_value d), RStr (tx_data d), AccessList_value (tx_accessList d)])"

definition signing_prefix :: "TxData \<Rightarrow> bytes" where
  "signing_prefix d = (if txType d = LegacyTxType then [] else [txType d])"

definition nonneg_fields :: "Signer \<Rightarrow> TxData \<Rightarrow> bool" where
  "nonneg_fields sg d \<longleftrightarrow>
     0 \<le> tx_gasPrice d \<and> 0 \<le> tx_gasTipCap d \<and> 0 \<le> tx_gasFeeCap d \<and> 0 \<le> tx_value d \<and>
     (case signer_ChainID sg of None \<Rightarrow> True | Some c \<Rightarrow> 0 \<le> c)"

lemma signer_Hash_values:
  assumes "supports sg d"
  shows "signer_Hash keccak sg d =
     (if txType d = LegacyTxType then rlpHash keccak (RList (signing_values sg d))
      else prefixedRlpHash keccak (txType d) (RList (signing_values sg d)))"
  using assms by (cases d; cases sg) (simp_all add: signer_hashes signing_values_def tx_types)

lemma encodable_to_value [simp]: "encodable (to_value t)" "encodable (AccessList_value al)"
  by (auto simp: to_value_def AccessList_value_def AccessTuple_value_def)

lemma signing_values_encodable: "nonneg_fields sg d \<Longrightarrow> encodable (RList (signing_values sg d))"
  by (auto simp: signing_values_def nonneg_fields_def split: option.splits)

lemma signer_Hash_bytes:
  assumes "supports sg d" and "nonneg_fields sg d" and "length (enc (RList (signing_values sg d))) < 2 ^ 64"
  shows "signer_Hash keccak sg d = keccak (signing_prefix d @ enc (RList (signing_values sg d)))"
  using signer_Hash_values [OF assms(1)] EncodeToBytes_enc [OF assms(3)] signing_values_encodable [OF assms(2)]
  by (simp add: rlpHash_def prefixedRlpHash_def signing_prefix_def del: enc.simps encodable.simps)

lemma to_value_inj: "same_enc (to_value a) (to_value b) \<Longrightarrow> a = b"
  by (auto simp: to_value_def dest!: same_enc_RStr split: option.splits)
     (metis length_addr_bytes list.size(3) zero_neq_numeral)+

lemma AccessTuple_value_inj: "same_enc (AccessTuple_value a) (AccessTuple_value b) \<Longrightarrow> a = b"
proof -
  assume "same_enc (AccessTuple_value a) (AccessTuple_value b)"
  from same_enc_RList [OF this [unfolded AccessTuple_value_def]]
  have "at_Address a = at_Address b"
    and k: "same_enc (RList (map (RStr \<circ> hash_bytes) (at_StorageKeys a))) (RList (map (RStr \<circ> hash_bytes) (at_StorageKeys b)))"
    by (auto dest!: same_enc_RStr)
  moreover have "at_StorageKeys a = at_StorageKeys b"
    by (rule list_all2_map_inj [OF same_enc_RList [OF k]]) (auto dest!: same_enc_RStr)
  ultimately show ?thesis by simp
qed

lemma AccessList_value_inj: "same_enc (AccessList_value a) (AccessList_value b) \<Longrightarrow> a = b"
  unfolding AccessList_value_def
  by (drule same_enc_RList, erule list_all2_map_inj) (rule AccessTuple_value_inj)

lemma hd_enc_list: "length (enc (RList vs)) < 2 ^ 64 \<Longrightarrow> 0xC0 \<le> hd (enc (RList vs)) \<and> enc (RList vs) \<noteq> []"
proof -
  let ?n = "length (concat (map enc vs))"
  assume "length (enc (RList vs)) < 2 ^ 64"
  then have n: "?n < 2 ^ 64" by simp
  show ?thesis
  proof (cases "?n < 56")
    case True
    then show ?thesis using byte_tag [of "0xC0" ?n]
      by (simp add: list_head_def puthead_small word_le_nat_alt)
  next
    case False
    then have l: "56 \<le> ?n" by simp
    show ?thesis using byte_tag [of "0xF7" "length (be_min ?n)"] puthead_large(1) [OF l n, of "0xC0" "0xF7"]
        puthead_large(2,3) [OF l n]
      by (simp add: list_head_def word_le_nat_alt)
  qed
qed

lemma txType_small: "txType d < 0xC0"
  by (cases d) (simp_all add: tx_types)

lemma same_payload:
  assumes "signing_prefix d @ enc (RList xs) = signing_prefix d' @ enc (RList ys)"
    and "length (enc (RList xs)) < 2 ^ 64" and "length (enc (RList ys)) < 2 ^ 64"
  shows "txType d = txType d'" and "same_enc (RList xs) (RList ys)"
proof -
  note x = hd_enc_list [OF assms(2)] and y = hd_enc_list [OF assms(3)]
  have hd_d: "hd (signing_prefix e @ enc (RList zs)) = txType e" if "txType e \<noteq> LegacyTxType" for e zs
    using that by (simp add: signing_prefix_def)
  have hd_l: "hd (signing_prefix e @ enc (RList zs)) = hd (enc (RList zs))" if "txType e = LegacyTxType" for e zs
    using that by (simp add: signing_prefix_def)
  show t: "txType d = txType d'"
  proof (cases "txType d = LegacyTxType"; cases "txType d' = LegacyTxType")
    assume a: "txType d = LegacyTxType" "txType d' \<noteq> LegacyTxType"
    then have "hd (enc (RList xs)) = txType d'" using assms(1) hd_l hd_d by metis
    then show ?thesis using x txType_small [of d'] by (metis linorder_not_le)
  next
    assume a: "txType d \<noteq> LegacyTxType" "txType d' = LegacyTxType"
    then have "hd (enc (RList ys)) = txType d" using assms(1) hd_l hd_d by metis
    then show ?thesis using y txType_small [of d] by (metis linorder_not_le)
  next
    assume a: "txType d \<noteq> LegacyTxType" "txType d' \<noteq> LegacyTxType"
    then show ?thesis using assms(1) hd_d by metis
  qed simp
  then have "enc (RList xs) = enc (RList ys)" using assms(1) by (simp only: signing_prefix_def) simp
  then show "same_enc (RList xs) (RList ys)" using assms(2) by (simp only: same_enc_def)
qed

lemma hash_separates: "(\<forall>keccak :: bytes \<Rightarrow> hash. keccak p = keccak p') \<Longrightarrow> p = p'"
  by (drule spec [of _ "\<lambda>x. if x = p then 0 else 1"]) (simp split: if_splits)

section \<open>Properties\<close>

text \<open>
  C20. Signing gives the signer back. If the curve signs as the address \<open>a\<close> under a key, then for every
  signer and every kind of transaction it supports, meant for its chain, \<open>SignTx\<close> succeeds and changes nothing
  but the signature and the chain id, which becomes the signer's where the kind has one. For every kind but Dilithium
  the recovered sender is \<open>a\<close>. A Dilithium transaction comes back with its key and signature as
  they were: \<open>SignTx\<close> reports success without signing it.
\<close>

theorem SignTx_sender:
  assumes "signs_as cy prv a" and "wf_signer sg" and "supports sg (tx_inner tx)" and "for_chain sg (tx_inner tx)"
  shows "\<exists>tx'. SignTx cy tx sg prv = Inr tx' \<and> unsigned_tx (tx_inner tx') = unsigned_tx (tx_inner tx) \<and>
           (txType (tx_inner tx) \<noteq> LegacyTxType \<longrightarrow> signer_ChainID sg = Some (tx_chainID (tx_inner tx'))) \<and>
           (case tx_inner tx of
              DilithiumD t \<Rightarrow> tx_inner tx' = DilithiumD (t\<lparr>dtx_ChainID := tx_chainID (tx_inner tx')\<rparr>)
            | _ \<Rightarrow> fst (Sender cy sg tx') = Inr a)"
proof -
  let ?d = "tx_inner tx" and ?c = "case signer_ChainID sg of None \<Rightarrow> 0 | Some c \<Rightarrow> c"
  obtain sig where sig: "cy_sign cy (hash_bytes (signer_Hash (cy_keccak cy) sg ?d)) prv = Some sig"
      "signature_of cy (signer_Hash (cy_keccak cy) sg ?d) sig a"
    using assms(1) unfolding signs_as_def by blast
  have same: "unsigned_tx (setSignatureValues c v r s ?d) = unsigned_tx ?d" for c v r s by (cases ?d) simp_all
  have chain: "txType ?d \<noteq> LegacyTxType \<Longrightarrow> signer_ChainID sg = Some (tx_chainID (setSignatureValues ?c v r s ?d))" for v r s
    using assms(3) by (cases ?d; cases sg) (simp_all add: tx_types)
  show ?thesis
  proof (cases "txType ?d = DilithiumTxType")
    case True
    then obtain t where t: "?d = DilithiumD t" by (cases ?d) (simp_all add: tx_types)
    then obtain k where "sg = DilithiumS k" using assms(3) by (cases sg) simp_all
    then show ?thesis
      using sig(1) t by (simp add: SignTx_def WithSignature_def dilithiumSigner_SignatureValues_def)
  next
    case False
    obtain r s v where rsv: "signer_SignatureValues sg ?d sig = Inr (r, s, v)"
        "signer_Sender cy sg (setSignatureValues ?c v r s ?d) = Inr a"
      using sign_recover [OF assms(2-4) False sig(2)] by blast
    define tx' where "tx' = \<lparr>tx_inner = setSignatureValues ?c v r s ?d, tx_time = tx_time tx, tx_from = None\<rparr>"
    have inner: "tx_inner tx' = setSignatureValues ?c v r s ?d" by (simp add: tx'_def)
    have "SignTx cy tx sg prv = Inr tx'" using sig(1) rsv(1) by (simp add: SignTx_def WithSignature_def Let_def tx'_def)
    moreover have "fst (Sender cy sg tx') = Inr a" using rsv(2) by (simp add: Sender_def tx'_def)
    then have "case ?d of DilithiumD t \<Rightarrow> tx_inner tx' = DilithiumD (t\<lparr>dtx_ChainID := tx_chainID (tx_inner tx')\<rparr>)
        | _ \<Rightarrow> fst (Sender cy sg tx') = Inr a" using False by (cases ?d) (simp_all add: tx_types)
    moreover have "unsigned_tx (tx_inner tx') = unsigned_tx ?d" unfolding inner by (rule same)
    moreover have "txType ?d \<noteq> LegacyTxType \<longrightarrow> signer_ChainID sg = Some (tx_chainID (tx_inner tx'))"
      unfolding inner using chain by blast
    ultimately show ?thesis by (intro exI [of _ tx'] conjI)
  qed
qed

text \<open>A curve for the witnesses: one fixed signature from which the key \<open>[4]\<close> is recovered.\<close>

definition exampleCrypto :: Crypto where
  "exampleCrypto =
     \<lparr>cy_keccak = (\<lambda>b. 7), cy_ecrecover = (\<lambda>h s. Some [4]),
      cy_sign = (\<lambda>h k. Some (replicate 31 0 @ [1] @ replicate 31 0 @ [1] @ [0])),
      cy_dil_unpack = (\<lambda>b. b), cy_dil_verify = (\<lambda>p m s. s = replicate 2420 1),
      cy_dil_sign = (\<lambda>k m. replicate 2420 1), cy_dil_public = (\<lambda>k. replicate 1312 0)\<rparr>"

definition exampleFeeTx :: DynamicFeeTx where
  "exampleFeeTx =
     \<lparr>ftx_ChainID = 0, ftx_Nonce = 1, ftx_GasTipCap = 2, ftx_GasFeeCap = 30, ftx_Gas = 21000, ftx_To = Some 9,
      ftx_Value = 5, ftx_Data = [], ftx_AccessList = [], ftx_V = 0, ftx_R = 0, ftx_S = 0\<rparr>"

lemma exampleCrypto_signs: "signs_as exampleCrypto prv 7"
proof -
  let ?sig = "replicate 31 0 @ [1] @ replicate 31 0 @ [1] @ [0 :: byte]"
  have "be_nat (replicate n 0 @ [1]) = 1" for n
    by (induction n) (simp_all add: be_nat_Cons)
  moreover have "take 32 ?sig = replicate 31 0 @ [1]" "take 32 (drop 32 ?sig) = replicate 31 0 @ [1]" by simp_all
  moreover have "(be_word (drop 12 (hash_bytes 7)) :: address) = 7" by code_simp
  ultimately show ?thesis
    by (simp add: signs_as_def signature_of_def exampleCrypto_def ValidateSignatureValues_def
        secp256k1halfN_def secp256k1N_def nth_append)
qed

theorem SignTx_sender_witness:
  "\<exists>tx'. SignTx exampleCrypto (NewTx 0 (DynamicFeeD exampleFeeTx)) (NewLondonSigner (Some 8004)) [] = Inr tx' \<and>
     fst (Sender exampleCrypto (NewLondonSigner (Some 8004)) tx') = Inr 7"
proof -
  let ?sg = "NewLondonSigner (Some 8004)" and ?tx = "NewTx 0 (DynamicFeeD exampleFeeTx)"
  have "wf_signer ?sg" "supports ?sg (tx_inner ?tx)" "for_chain ?sg (tx_inner ?tx)"
    by (simp_all add: NewLondonSigner_def NewEIP155Signer_def NewTx_def wf_signer_def for_chain_def
        exampleFeeTx_def tx_types)
  from SignTx_sender [OF exampleCrypto_signs this] obtain tx' where
    "SignTx exampleCrypto ?tx ?sg [] = Inr tx'" "case tx_inner ?tx of
       DilithiumD t \<Rightarrow> tx_inner tx' = DilithiumD (t\<lparr>dtx_ChainID := tx_chainID (tx_inner tx')\<rparr>)
     | _ \<Rightarrow> fst (Sender exampleCrypto ?sg tx') = Inr 7" by blast
  moreover have "tx_inner ?tx = DynamicFeeD exampleFeeTx" by (simp add: NewTx_def)
  ultimately show ?thesis by simp
qed

text \<open>
  C21. Replay protection: if two signers of chains \<open>c\<close> and \<open>c'\<close> both find a sender for the same
  transaction, the chains are the same, or the transaction is a legacy one signed without a chain
  id. And a protected transaction that a signer accepts names the signer's chain.
\<close>

theorem replay_protected:
  assumes "signer_ChainID sg = Some c" and "signer_Sender cy sg d = Inr a"
  shows "(Protected d \<longrightarrow> tx_chainID d = c) \<and> (\<not> Protected d \<longrightarrow> txType d = LegacyTxType) \<and>
         (signer_ChainID sg' = Some c' \<and> signer_Sender cy sg' d = Inr a' \<and> Protected d \<longrightarrow> c' = c)"
proof -
  have "Protected d \<Longrightarrow> tx_chainID d = k" if "signer_ChainID s = Some k" "signer_Sender cy s d = Inr b" for s k b
    using that
    by (cases s; cases d) (auto simp: signer_senders tx_types split: if_splits prod.splits)
  moreover have "\<not> Protected d \<Longrightarrow> txType d = LegacyTxType" by (cases d) simp_all
  ultimately show ?thesis using assms by blast
qed

theorem replay_protected_witness:
  "\<exists>tx. signer_Sender exampleCrypto (NewLondonSigner (Some 8004)) tx = Inr 7 \<and>
        signer_Sender exampleCrypto (NewLondonSigner (Some 8005)) tx \<noteq> Inr 7"
proof -
  let ?tx = "DynamicFeeD (exampleFeeTx\<lparr>ftx_ChainID := 8004, ftx_R := 1, ftx_S := 1\<rparr>)"
  have a: "(be_word (drop 12 (hash_bytes 7)) :: address) = 7" by code_simp
  have s: "signer_Sender exampleCrypto (NewLondonSigner (Some 8004)) ?tx = Inr 7"
    by (simp add: NewLondonSigner_def NewEIP155Signer_def londonSigner_Sender_def recoverPlain_def exampleCrypto_def
        exampleFeeTx_def BitLen_def bitlen_le not_less ValidateSignatureValues_def secp256k1halfN_def secp256k1N_def
        big_uint64_def a)
  from replay_protected [OF _ s, of 8004 "NewLondonSigner (Some 8005)" 8005 7] s
  show ?thesis by (intro exI [of _ ?tx]) (auto simp: NewLondonSigner_def NewEIP155Signer_def)
qed

text \<open>
  C23. Which kinds a signer takes: recovering a sender, or computing signature values from a
  signature, fails with \<open>ErrTxTypeNotSupported\<close> exactly for the kinds the signer's fork does not
  support. An agent transaction has no signer at all: under every configuration and block number
  its sender cannot be recovered and it cannot be signed.
\<close>

theorem unsupported_kinds:
  "(signer_Sender cy sg d = Inl ErrTxTypeNotSupported \<longleftrightarrow> \<not> supports sg d) \<and>
   (signer_SignatureValues sg d sig = Inl ErrTxTypeNotSupported \<longleftrightarrow> \<not> supports sg d) \<and>
   signer_Sender cy (MakeSigner config num) (AgentD t) = Inl ErrTxTypeNotSupported \<and>
   signer_SignatureValues (MakeSigner config num) (AgentD t) sig = Inl ErrTxTypeNotSupported"
proof -
  have 1: "signer_Sender cy sg d = Inl ErrTxTypeNotSupported \<longleftrightarrow> \<not> supports sg d" for sg d
    by (cases d; cases sg)
       (auto simp: signer_senders tx_types recoverPlain_supported recoverDilithium_supported split: prod.splits)
  have 2: "signer_SignatureValues sg d sig = Inl ErrTxTypeNotSupported \<longleftrightarrow> \<not> supports sg d" for sg d
    by (cases d; cases sg) (auto simp: signer_values tx_types decodeSignature_supported)
  show ?thesis using 1 2 by simp
qed

text \<open>
  The cached sender is never stale: after any sequence of sender recoveries with any signers,
  \<open>Sender\<close> returns what recovering from scratch returns.
\<close>

theorem Sender_cache_transparent:
  assumes "wf_signer sg" and "\<forall>s \<in> set sgs. wf_signer s"
  shows "fst (Sender cy sg (after_senders cy sgs (NewTx now d))) = signer_Sender cy sg d"
proof -
  have "cache_ok cy (NewTx now d)" by (simp add: cache_ok_def NewTx_def)
  from after_senders_ok [OF this assms(2)] show ?thesis
    using Sender_result(1) [OF _ assms(1)] by (simp add: NewTx_def)
qed

theorem Sender_cache_transparent_witness:
  "fst (Sender exampleCrypto HomesteadSigner (after_senders exampleCrypto [NewLondonSigner (Some 8004)]
     (NewTx 0 (DynamicFeeD (exampleFeeTx\<lparr>ftx_ChainID := 8004, ftx_R := 1, ftx_S := 1\<rparr>))))) = Inl ErrTxTypeNotSupported"
proof -
  have "wf_signer HomesteadSigner" "\<forall>s \<in> set [NewLondonSigner (Some 8004)]. wf_signer s"
    by (simp_all add: wf_signer_def NewLondonSigner_def NewEIP155Signer_def)
  from Sender_cache_transparent [OF this] show ?thesis
    by (simp add: HomesteadSigner_Sender_def tx_types)
qed

text \<open>
  C22. The signed hash covers everything but the signature: if a signer's hashes of two
  transactions it supports agree whatever the hash function, the transactions are of the same kind
  and equal up to the signature values, the public key and the chain id, which is the signer's.
\<close>

theorem signed_hash_covers:
  assumes "supports sg d" and "supports sg d'" and "nonneg_fields sg d" and "nonneg_fields sg d'"
    and "length (enc (RList (signing_values sg d))) < 2 ^ 64"
    and "length (enc (RList (signing_values sg d'))) < 2 ^ 64"
    and "\<forall>keccak. signer_Hash keccak sg d = signer_Hash keccak sg d'"
  shows "unsigned_tx d = unsigned_tx d'"
proof -
  have "signing_prefix d @ enc (RList (signing_values sg d)) = signing_prefix d' @ enc (RList (signing_values sg d'))"
    by (rule hash_separates)
       (use assms(7) signer_Hash_bytes [OF assms(1,3,5)] signer_Hash_bytes [OF assms(2,4,6)] in metis)
  note same = same_payload [OF this assms(5,6)]
  note e = same_enc_RList [OF same(2)]
  show ?thesis
    using same(1) e assms(1-4)
    by (cases d; cases d'; cases sg)
       (auto simp: signing_values_def nonneg_fields_def tx_types
         dest!: same_enc_RUint same_enc_RBig same_enc_RStr to_value_inj AccessList_value_inj)
qed

lemma example_small:
  assumes "d = DynamicFeeD (exampleFeeTx\<lparr>ftx_R := r, ftx_S := s\<rparr>)"
  shows "length (enc (RList (signing_values (LondonS \<lparr>es_chainId = 8004, es_chainIdMul = 16008\<rparr>) d))) < 2 ^ 64"
proof -
  let ?vs = "signing_values (LondonS \<lparr>es_chainId = 8004, es_chainIdMul = 16008\<rparr>) d"
  have "length (enc_string (be_min 8004)) \<le> 17" "length (enc_string (be_min (Suc 0))) \<le> 17" "length (enc_string (be_min 2)) \<le> 17"
    "length (enc_string (be_min 30)) \<le> 17" "length (enc_string (be_min 21000)) \<le> 17" "length (enc_string (be_min 5)) \<le> 17"
    by (rule length_enc_number; simp)+
  moreover have "length (enc_string (addr_bytes 9)) \<le> 29" "length (enc_string []) \<le> 9" "length (list_head 0) \<le> 9"
    using length_enc_string_le [of "addr_bytes 9"] length_enc_string_le [of "[]"] length_list_head [of 0] by simp_all
  ultimately have "length (concat (map enc ?vs)) \<le> 200"
    using assms by (simp add: signing_values_def exampleFeeTx_def to_value_def AccessList_value_def tx_types)
  then show ?thesis using length_list_head [of "length (concat (map enc ?vs))"] by simp
qed

theorem signed_hash_covers_witness:
  "unsigned_tx (DynamicFeeD exampleFeeTx) = unsigned_tx (DynamicFeeD (exampleFeeTx\<lparr>ftx_R := 1, ftx_S := 1\<rparr>))"
proof -
  let ?sg = "LondonS \<lparr>es_chainId = 8004, es_chainIdMul = 16008\<rparr>"
  let ?d = "DynamicFeeD exampleFeeTx" and ?d' = "DynamicFeeD (exampleFeeTx\<lparr>ftx_R := 1, ftx_S := 1\<rparr>)"
  have "supports ?sg ?d" "supports ?sg ?d'" "nonneg_fields ?sg ?d" "nonneg_fields ?sg ?d'"
    by (simp_all add: nonneg_fields_def exampleFeeTx_def)
  moreover have "length (enc (RList (signing_values ?sg ?d))) < 2 ^ 64"
    by (rule example_small [where r = 0 and s = 0]) (simp add: exampleFeeTx_def)
  moreover have "length (enc (RList (signing_values ?sg ?d'))) < 2 ^ 64"
    by (rule example_small [where r = 1 and s = 1]) simp
  moreover have "\<forall>keccak. signer_Hash keccak ?sg ?d = signer_Hash keccak ?sg ?d'"
    by (simp add: signer_hashes tx_types)
  ultimately show ?thesis by (rule signed_hash_covers)
qed

text \<open>
  What a message pays: with a base fee that the fee cap covers, the gas price of the message is
  the base fee plus the effective tip, never above the fee cap and never below the base fee when
  the tip is not negative; the effective tip is negative exactly when the fee cap is below the base
  fee (for a non-negative tip cap), which is when \<open>EffectiveGasTip\<close> reports an error.
\<close>

theorem message_price:
  assumes "fst (AsMessage cy sg (Some f) tx) = Inr msg" and "0 \<le> tx_gasTipCap (tx_inner tx)"
  shows "msg_gasPrice msg = f + fst (EffectiveGasTip (tx_inner tx) (Some f)) \<and>
         msg_gasPrice msg \<le> tx_gasFeeCap (tx_inner tx) \<and>
         (f \<le> msg_gasPrice msg \<longleftrightarrow> \<not> snd (EffectiveGasTip (tx_inner tx) (Some f))) \<and>
         fst (Sender cy sg tx) = Inr (msg_from msg)"
  using assms
  by (auto simp: AsMessage_def EffectiveGasTip_def BigMin_def Let_def split: prod.splits sum.splits if_splits)

theorem message_price_witness:
  "\<exists>msg. fst (AsMessage exampleCrypto (NewLondonSigner (Some 8004)) (Some 10)
      \<lparr>tx_inner = DynamicFeeD exampleFeeTx, tx_time = 0, tx_from = Some (NewLondonSigner (Some 8004), 7)\<rparr>) = Inr msg \<and>
     msg_gasPrice msg = 12"
proof -
  let ?tx = "\<lparr>tx_inner = DynamicFeeD exampleFeeTx, tx_time = 0, tx_from = Some (NewLondonSigner (Some 8004), 7)\<rparr>"
  obtain msg where m: "fst (AsMessage exampleCrypto (NewLondonSigner (Some 8004)) (Some 10) ?tx) = Inr msg"
    by (simp add: AsMessage_def Sender_def NewLondonSigner_def NewEIP155Signer_def)
  have "0 \<le> tx_gasTipCap (tx_inner ?tx)" by (simp add: exampleFeeTx_def)
  from message_price [OF m this] show ?thesis using m
    by (auto simp: EffectiveGasTip_def BigMin_def exampleFeeTx_def)
qed

text \<open>
  Post-quantum signing: if the Dilithium package verifies its own signatures, a transaction
  signed with \<open>SignDilithiumTx\<close> recovers to the address of the key when it names the signer's
  chain. Unlike \<open>SignTx\<close>, signing does not fill in a chain id that was left open: the signature is
  computed for the signer's chain, but the sender is then refused with \<open>ErrInvalidChainId\<close>.
\<close>

theorem SignDilithiumTx_sender:
  assumes "\<forall>m. cy_dil_verify cy (cy_dil_unpack cy (cy_dil_public cy prv)) m (cy_dil_sign cy prv m)"
    and "length (cy_dil_public cy prv) = 1312" and "\<forall>m. length (cy_dil_sign cy prv m) = 2420"
    and "tx_inner tx = DilithiumD t"
  shows "\<exists>tx'. SignDilithiumTx cy tx (DilithiumS s) prv = Inr tx' \<and>
           fst (Sender cy (DilithiumS s) tx') =
             (if dtx_ChainID t = es_chainId s
              then Inr (dilithium_PubkeyToAddress cy (cy_dil_unpack cy (cy_dil_public cy prv)))
              else Inl ErrInvalidChainId)"
  using assms
  by (simp add: SignDilithiumTx_def Sender_def dilithiumSigner_Sender_def dilithiumSigner_Hash_def tx_types
      recoverDilithium_def dilithium_UnmarshalPublicKey_def dilithium_Verify_def dilithium_PublicKeySize_def
      dilithium_SignatureSize_def)

definition exampleDilithiumTx :: DilithiumTx where
  "exampleDilithiumTx =
     \<lparr>dtx_ChainID = 0, dtx_Nonce = 1, dtx_GasTipCap = 2, dtx_GasFeeCap = 30, dtx_Gas = 21000, dtx_To = Some 9,
      dtx_Value = 5, dtx_Data = [], dtx_AccessList = [], dtx_PubKey = [], dtx_Signature = []\<rparr>"

theorem SignDilithiumTx_sender_witness:
  "\<exists>tx'. SignDilithiumTx exampleCrypto (NewTx 0 (DilithiumD exampleDilithiumTx)) (NewDilithiumSigner (Some 8004)) [] = Inr tx' \<and>
     fst (Sender exampleCrypto (NewDilithiumSigner (Some 8004)) tx') = Inl ErrInvalidChainId"
proof -
  have "\<forall>m. cy_dil_verify exampleCrypto (cy_dil_unpack exampleCrypto (cy_dil_public exampleCrypto [])) m
      (cy_dil_sign exampleCrypto [] m)"
    "length (cy_dil_public exampleCrypto []) = 1312" "\<forall>m. length (cy_dil_sign exampleCrypto [] m) = 2420"
    "tx_inner (NewTx 0 (DilithiumD exampleDilithiumTx)) = DilithiumD exampleDilithiumTx"
    by (simp_all add: exampleCrypto_def NewTx_def)
  from SignDilithiumTx_sender [OF this, of "NewEIP155Signer (Some 8004)"] show ?thesis
    by (simp add: NewDilithiumSigner_def NewEIP155Signer_def exampleDilithiumTx_def)
qed

end
