(* ===== verification/FeeMarket.thy ===== *)
theory FeeMarket
  imports Params Header
begin

text \<open>
  The header rules on gas (\<open>src/consensus/misc\<close>, and \<open>CalcGasLimit\<close> of \<open>src/core/block_validator.go\<close>):
  how far the gas limit may move from block to block, how the base fee follows the gas used, and the
  two hard-fork header checks. Differences of gas limits are taken in \<open>int64\<close> and may wrap; base fees
  are unbounded integers. Dividing by a gas target of 0 and reading a nil base fee panic.
\<close>

section \<open>Gas limits\<close>

datatype gas_error = GasLimitBound | GasLimitMin | MissingBaseFee | WrongBaseFee

definition VerifyGaslimit :: "u64 \<Rightarrow> u64 \<Rightarrow> gas_error option" where
  "VerifyGaslimit parentGasLimit headerGasLimit =
     (let diff = parentGasLimit - headerGasLimit;
          diff = (if sint diff < 0 then diff * (- 1) else diff);
          limit = parentGasLimit div GasLimitBoundDivisor
      in if diff \<ge> limit then Some GasLimitBound
         else if headerGasLimit < MinGasLimit then Some GasLimitMin
         else None)"

definition CalcGasLimit :: "u64 \<Rightarrow> u64 \<Rightarrow> u64 \<Rightarrow> u64 \<Rightarrow> u64" where
  "CalcGasLimit parentGasUsed parentGasLimit gasFloor gasCeil =
     (let contrib = (parentGasUsed + parentGasUsed div 2) div GasLimitBoundDivisor;
          decay = parentGasLimit div GasLimitBoundDivisor - 1;
          limit = parentGasLimit - decay + contrib;
          limit = (if limit < MinGasLimit then MinGasLimit else limit)
      in if limit < gasFloor then
           (let limit = parentGasLimit + decay in if limit > gasFloor then gasFloor else limit)
         else if limit > gasCeil then
           (let limit = parentGasLimit - decay in if limit < gasCeil then gasCeil else limit)
         else limit)"

definition CalcGasLimit1559 :: "u64 \<Rightarrow> u64 \<Rightarrow> u64" where
  "CalcGasLimit1559 parentGasLimit desiredLimit =
     (let delta = parentGasLimit div GasLimitBoundDivisor - 1;
          desiredLimit = (if desiredLimit < MinGasLimit then MinGasLimit else desiredLimit)
      in if parentGasLimit < desiredLimit then
           (let limit = parentGasLimit + delta in if limit > desiredLimit then desiredLimit else limit)
         else if parentGasLimit > desiredLimit then
           (let limit = parentGasLimit - delta in if limit < desiredLimit then desiredLimit else limit)
         else parentGasLimit)"

section \<open>Base fees\<close>

definition CalcBaseFee :: "ChainConfig \<Rightarrow> Header \<Rightarrow> panic + int" where
  "CalcBaseFee config parent =
     (if \<not> IsLondon config (Some (h_Number parent)) then Inr (uint InitialBaseFee)
      else
        let parentGasTarget = h_GasLimit parent div ElasticityMultiplier
        in case h_BaseFee parent of
             None \<Rightarrow> Inl PanicNilPointer
           | Some baseFee \<Rightarrow>
               if h_GasUsed parent = parentGasTarget then Inr baseFee
               else if h_GasUsed parent > parentGasTarget then
                 (let gasUsedDelta = h_GasUsed parent - parentGasTarget;
                      x = baseFee * uint gasUsedDelta
                  in if parentGasTarget = 0 then Inl PanicDivide
                     else let y = x div uint parentGasTarget
                          in Inr (baseFee + max (y div uint BaseFeeChangeDenominator) 1))
               else
                 (let gasUsedDelta = parentGasTarget - h_GasUsed parent;
                      x = baseFee * uint gasUsedDelta
                  in if parentGasTarget = 0 then Inl PanicDivide
                     else let y = x div uint parentGasTarget
                          in Inr (max (baseFee - y div uint BaseFeeChangeDenominator) (uint InitialBaseFee))))"

definition VerifyEip1559Header :: "ChainConfig \<Rightarrow> Header \<Rightarrow> Header \<Rightarrow> panic + gas_error option" where
  "VerifyEip1559Header config parent header =
     (let parentGasLimit = (if \<not> IsLondon config (Some (h_Number parent))
                            then h_GasLimit parent * ElasticityMultiplier else h_GasLimit parent)
      in case VerifyGaslimit parentGasLimit (h_GasLimit header) of
           Some e \<Rightarrow> Inr (Some e)
         | None \<Rightarrow>
             (case h_BaseFee header of
                None \<Rightarrow> Inr (Some MissingBaseFee)
              | Some baseFee \<Rightarrow>
                  bindE (CalcBaseFee config parent) (\<lambda>expected.
                    Inr (if baseFee \<noteq> expected then Some WrongBaseFee else None))))"

section \<open>Hard-fork header checks\<close>

definition VerifyForkHashes :: "(bytes \<Rightarrow> hash) \<Rightarrow> ChainConfig \<Rightarrow> Header \<Rightarrow> bool \<Rightarrow> bool" where
  "VerifyForkHashes keccak config header uncle =
     (uncle \<or> \<not> (cc_EIP150Block config = Some (h_Number header) \<and>
                 cc_EIP150Hash config \<noteq> 0 \<and> cc_EIP150Hash config \<noteq> Header_Hash keccak header))"

definition DAOForkExtraRange :: int where "DAOForkExtraRange = 10"

definition DAOForkBlockExtra :: bytes where
  "DAOForkBlockExtra = [0x64, 0x61, 0x6f, 0x2d, 0x68, 0x61, 0x72, 0x64, 0x2d, 0x66, 0x6f, 0x72, 0x6b]"

datatype dao_error = ErrBadProDAOExtra | ErrBadNoDAOExtra

definition VerifyDAOHeaderExtraData :: "ChainConfig \<Rightarrow> Header \<Rightarrow> dao_error option" where
  "VerifyDAOHeaderExtraData config header =
     (case cc_DAOForkBlock config of
        None \<Rightarrow> None
      | Some b \<Rightarrow>
          if h_Number header < b \<or> h_Number header \<ge> b + DAOForkExtraRange then None
          else if cc_DAOForkSupport config then
            (if h_Extra header \<noteq> DAOForkBlockExtra then Some ErrBadProDAOExtra else None)
          else (if h_Extra header = DAOForkBlockExtra then Some ErrBadNoDAOExtra else None))"

section \<open>Exact gas-limit checks\<close>

lemma sint_small: "uint w < 2 ^ 63 \<Longrightarrow> sint (w :: u64) = uint w"
proof -
  assume "uint w < 2 ^ 63"
  moreover have "- (2 ^ 63) \<le> uint w" by (rule order_trans [OF _ uint_ge_0]) simp
  ultimately show ?thesis by (simp add: sint_uint signed_take_bit_int_eq_self)
qed

lemma sint_neg_small: "0 < uint w \<Longrightarrow> uint w < 2 ^ 63 \<Longrightarrow> sint (- w :: u64) = - uint w"
  by (simp add: sint_word_ariths sint_small signed_take_bit_int_eq_self)

lemma VerifyGaslimit_exact:
  assumes "uint p < 2 ^ 63" and "uint h < 2 ^ 63"
  shows "VerifyGaslimit p h = None \<longleftrightarrow> \<bar>uint p - uint h\<bar> < uint p div 1024 \<and> 5000 \<le> uint h"
proof -
  have abs: "uint (if sint (p - h) < 0 then (p - h) * (- 1) else p - h) = \<bar>uint p - uint h\<bar>"
  proof (cases "h \<le> p")
    case True
    then have u: "uint (p - h) = uint p - uint h" by (simp add: uint_minus_simple_alt)
    then have "sint (p - h) = uint p - uint h" using assms(1) uint_ge_0 [of h] by (subst sint_small) linarith+
    then show ?thesis using u True by (simp add: word_le_def)
  next
    case False
    then have u: "uint (h - p) = uint h - uint p" using linear uint_minus_simple_alt by blast
    then have "sint (- (h - p)) = - (uint h - uint p)"
      using assms(2) uint_ge_0 [of p] False [unfolded word_le_def] by (subst sint_neg_small) linarith+
    then show ?thesis using u False by (simp add: word_le_def)
  qed
  show ?thesis
    unfolding VerifyGaslimit_def Let_def
    using abs by (simp add: word_le_def word_less_def uint_div GasLimitBoundDivisor_def MinGasLimit_def not_le)
qed

text \<open>What a producer computes is within the bounds, for a parent limit that is not tiny.\<close>

lemma CalcGasLimit_range:
  assumes "8192 \<le> uint p" and "uint p < 2 ^ 62" and "uint used \<le> uint p"
  shows "\<bar>uint p - uint (CalcGasLimit used p gasFloor gasCeil)\<bar> < uint p div 1024"
    and "5000 \<le> uint (CalcGasLimit used p gasFloor gasCeil)"
    and "uint (CalcGasLimit used p gasFloor gasCeil) < 2 ^ 63"
proof -
  define D C where "D = uint p div 1024" and "C = (uint used + uint used div 2) div 1024"
  have D: "8 \<le> D" "1024 * D \<le> uint p" "uint p < 1024 * D + 1024" using assms(1) by (auto simp: D_def)
  have "2048 * C \<le> 3 * uint p" using assms(3) by (auto simp: C_def)
  then have C: "C \<le> 2 * D - 2" using D by linarith
  have C0: "0 \<le> C" unfolding C_def by (intro pos_imp_zdiv_nonneg_iff [THEN iffD2] add_nonneg_nonneg) simp_all
  let ?decay = "p div GasLimitBoundDivisor - 1" and ?contrib = "(used + used div 2) div GasLimitBoundDivisor"
  have d0: "uint (p div GasLimitBoundDivisor) = D" by (simp add: uint_div GasLimitBoundDivisor_def D_def)
  then have decay: "uint ?decay = D - 1" using D by (subst uint_minus_simple_alt [THEN iffD1]) (simp_all add: word_le_def)
  have "uint (used + used div 2) = uint used + uint used div 2"
    using assms(2,3) by (subst uint_plus_simple_iff [THEN iffD1]) (simp_all add: word_le_def uint_div uint_word_ariths)
  then have contrib: "uint ?contrib = C" by (simp add: uint_div GasLimitBoundDivisor_def C_def)
  have m: "uint (p - ?decay) = uint p - (D - 1)" "uint (p + ?decay) = uint p + (D - 1)"
    using decay D assms(2) by (simp_all add: uint_word_ariths)
  have l: "uint (p - ?decay + ?contrib) = uint p - (D - 1) + C"
    using m(1) contrib C C0 D assms(2) by (simp add: uint_word_ariths)
  have "uint (CalcGasLimit used p gasFloor gasCeil) \<ge> uint p - (D - 1) \<and> uint (CalcGasLimit used p gasFloor gasCeil) \<le> uint p + (D - 1)"
    using m l C C0 D by (auto simp: CalcGasLimit_def Let_def word_less_def MinGasLimit_def)
  then show "\<bar>uint p - uint (CalcGasLimit used p gasFloor gasCeil)\<bar> < uint p div 1024"
    "5000 \<le> uint (CalcGasLimit used p gasFloor gasCeil)" "uint (CalcGasLimit used p gasFloor gasCeil) < 2 ^ 63"
    using D assms(2) by (auto simp: D_def [symmetric])
qed

section \<open>How the base fee moves\<close>

lemma fee_step_le:
  fixes f g t :: int
  assumes "0 \<le> f" and "0 < t" and "g \<le> t"
  shows "f * g div t \<le> f"
proof -
  have "f * g div t \<le> f * t div t" using assms by (intro zdiv_mono1 mult_left_mono) simp_all
  then show ?thesis using assms by simp
qed

lemma fee_step_nonneg: "0 \<le> (f :: int) \<Longrightarrow> 0 \<le> g \<Longrightarrow> 0 < t \<Longrightarrow> 0 \<le> f * g div t"
  by (simp add: pos_imp_zdiv_nonneg_iff)

lemma CalcBaseFee_step:
  assumes "IsLondon config (Some (h_Number parent))" and "h_BaseFee parent = Some f" and "1000000000 \<le> f"
    and "h_GasUsed parent \<le> h_GasLimit parent" and "2 \<le> h_GasLimit parent"
  shows "\<exists>f'. CalcBaseFee config parent = Inr f' \<and> 1000000000 \<le> f' \<and> f - f div 8 \<le> f' \<and> f' \<le> f + f div 4 \<and>
    (2 dvd uint (h_GasLimit parent) \<longrightarrow> f' \<le> f + f div 8) \<and>
    (if h_GasUsed parent > h_GasLimit parent div 2 then f < f'
     else if h_GasUsed parent < h_GasLimit parent div 2 then f' \<le> f else f' = f)"
proof -
  let ?t = "h_GasLimit parent div ElasticityMultiplier" and ?u = "h_GasUsed parent"
  have tdef: "uint ?t = uint (h_GasLimit parent) div 2" by (simp add: uint_div ElasticityMultiplier_def)
  have t: "0 < uint ?t" "?t \<noteq> 0" using assms(5) tdef by (auto simp: word_le_def uint_0_iff [symmetric])
  have ul: "uint ?u \<le> uint (h_GasLimit parent)" using assms(4) by (simp add: word_le_def)
  consider (same) "?u = ?t" | (more) "?t < ?u" | (fewer) "?u < ?t" by fastforce
  then show ?thesis
  proof cases
    case same
    then show ?thesis using assms(1-3) by (auto simp: CalcBaseFee_def ElasticityMultiplier_def)
  next
    case more
    let ?g = "uint ?u - uint ?t"
    have g: "uint (?u - ?t) = ?g" using more by (simp add: uint_minus_simple_alt [symmetric] less_imp_le)
    have g1: "0 \<le> ?g" "?g \<le> 2 * uint ?t" "2 dvd uint (h_GasLimit parent) \<Longrightarrow> ?g \<le> uint ?t"
      using more ul t(1) tdef by (auto simp: word_less_def)
    let ?d = "f * ?g div uint ?t div 8"
    have "CalcBaseFee config parent = Inr (f + max ?d 1)"
      using assms(1,2) more g t(2) by (simp add: CalcBaseFee_def Let_def BaseFeeChangeDenominator_def order_less_imp_not_less order_less_imp_not_eq2)
    moreover have "f * ?g div uint ?t \<le> 2 * f"
      using fee_step_le [of "2 * f" "2 * uint ?t" ?g] g1 t(1) assms(3) by (simp add: mult.assoc)
    moreover have "?d \<le> f div 8" if "2 dvd uint (h_GasLimit parent)"
      using fee_step_le [of f "uint ?t" ?g] g1(3) [OF that] t(1) assms(3) by (intro zdiv_mono1) simp_all
    ultimately show ?thesis using assms(3) more by (intro exI [of _ "f + max ?d 1"]) (auto simp: ElasticityMultiplier_def)
  next
    case fewer
    let ?g = "uint ?t - uint ?u"
    have g: "uint (?t - ?u) = ?g" using fewer by (simp add: uint_minus_simple_alt [symmetric] less_imp_le)
    have g1: "0 \<le> ?g" "?g \<le> uint ?t" using fewer by (auto simp: word_less_def)
    let ?d = "f * ?g div uint ?t div 8"
    have "CalcBaseFee config parent = Inr (max (f - ?d) 1000000000)"
      using assms(1,2) fewer g t(2)
      by (simp add: CalcBaseFee_def Let_def BaseFeeChangeDenominator_def InitialBaseFee_def order_less_imp_not_less order_less_imp_not_eq)
    moreover have "0 \<le> ?d" "?d \<le> f div 8"
      using fee_step_le [of f "uint ?t" ?g] fee_step_nonneg [of f ?g "uint ?t"] g1 t(1) assms(3)
      by (auto intro!: zdiv_mono1 simp: pos_imp_zdiv_nonneg_iff)
    ultimately show ?thesis using assms(3) fewer by (intro exI [of _ "max (f - ?d) 1000000000"]) (auto simp: ElasticityMultiplier_def)
  qed
qed

text \<open>
  The base fee follows demand slowly and never falls below one gwei: for a London parent with a
  base fee of at least one gwei and no more gas used than its limit, the next base fee exists, is at
  least one gwei, drops by at most an eighth, rises by at most a quarter (an eighth when the gas limit is
  even), rises strictly when more than half of the limit was used, does not rise when less was used,
  and is unchanged at exactly half.
\<close>

theorem base_fee_bounds:
  assumes "IsLondon config (Some (h_Number parent))" and "h_BaseFee parent = Some f" and "1000000000 \<le> f"
    and "h_GasUsed parent \<le> h_GasLimit parent" and "2 \<le> h_GasLimit parent"
  shows "\<exists>f'. CalcBaseFee config parent = Inr f' \<and> 1000000000 \<le> f' \<and> f - f div 8 \<le> f' \<and> f' \<le> f + f div 4 \<and>
    (2 dvd uint (h_GasLimit parent) \<longrightarrow> f' \<le> f + f div 8) \<and>
    (if h_GasUsed parent > h_GasLimit parent div 2 then f < f'
     else if h_GasUsed parent < h_GasLimit parent div 2 then f' \<le> f else f' = f)"
  using CalcBaseFee_step [OF assms] .

theorem base_fee_bounds_witness:
  "\<exists>f'. CalcBaseFee MainnetChainConfig (exampleHeader\<lparr>h_GasLimit := 30000000, h_GasUsed := 30000000, h_BaseFee := Some 8000000000\<rparr>) = Inr f' \<and>
     8000000000 < f' \<and> f' \<le> 9000000000"
proof -
  let ?p = "exampleHeader\<lparr>h_GasLimit := 30000000, h_GasUsed := 30000000, h_BaseFee := Some 8000000000\<rparr>"
  have "IsLondon MainnetChainConfig (Some (h_Number ?p))"
    by (simp add: IsLondon_def isForked_def MainnetChainConfig_def emptyChainConfig_def exampleHeader_def)
  from base_fee_bounds [OF this, of 8000000000] show ?thesis by (auto simp: word_less_nat_alt)
qed

end
