(* ===== verification/AtomicTime.thy ===== *)
theory AtomicTime
  imports Prelude
begin

text \<open>
  The optional high-precision time stamp of a block header (\<open>src/core/atomic/clock_sync.go\<close>): its
  17-byte encoding, the order of time stamps and the overlap of their uncertainties. Durations are
  \<open>int64\<close> values that wrap around, here 64-bit words read as signed numbers. The light-delay helpers
  compute with floating-point numbers and are left out.
\<close>

section \<open>Time stamps\<close>

type_synonym ClockSource = u8

definition ClockSourceSystem :: ClockSource where "ClockSourceSystem = 0"
definition ClockSourceNTP :: ClockSource where "ClockSourceNTP = 1"
definition ClockSourcePTP :: ClockSource where "ClockSourcePTP = 2"
definition ClockSourceGNSS :: ClockSource where "ClockSourceGNSS = 3"
definition ClockSourceRydberg :: ClockSource where "ClockSourceRydberg = 4"

lemmas clock_sources = ClockSourceSystem_def ClockSourceNTP_def ClockSourcePTP_def ClockSourceGNSS_def ClockSourceRydberg_def

definition AtomicTimestampSize :: nat where "AtomicTimestampSize = 17"

record AtomicTimestamp =
  at_Seconds :: u64
  at_Nanoseconds :: u32
  at_ClockSource :: ClockSource
  at_Uncertainty :: u32

definition at_Encode :: "AtomicTimestamp \<Rightarrow> bytes" where
  "at_Encode t = be_bytes 8 (at_Seconds t) @ be_bytes 4 (at_Nanoseconds t) @ [at_ClockSource t] @ be_bytes 4 (at_Uncertainty t)"

datatype timestamp_error = errTimestampTooShort | errTimestampTooLong

definition DecodeAtomicTimestamp :: "bytes \<Rightarrow> timestamp_error + AtomicTimestamp" where
  "DecodeAtomicTimestamp data =
     (if length data < AtomicTimestampSize then Inl errTimestampTooShort
      else if length data > AtomicTimestampSize then Inl errTimestampTooLong
      else Inr \<lparr>at_Seconds = be_word (take 8 data), at_Nanoseconds = be_word (take 4 (drop 8 data)),
                at_ClockSource = data ! 12, at_Uncertainty = be_word (take 4 (drop 13 data))\<rparr>)"

definition defaultUncertainty :: "ClockSource \<Rightarrow> u32" where
  "defaultUncertainty source =
     (if source = ClockSourceRydberg then 1
      else if source = ClockSourceGNSS then 100
      else if source = ClockSourcePTP then 1000
      else if source = ClockSourceNTP then 10000000
      else 100000000)"

text \<open>The current time is an argument: Unix seconds and the nanoseconds within the second.\<close>

definition at_Now :: "u64 \<Rightarrow> u32 \<Rightarrow> ClockSource \<Rightarrow> AtomicTimestamp" where
  "at_Now seconds nanoseconds source =
     \<lparr>at_Seconds = seconds, at_Nanoseconds = nanoseconds, at_ClockSource = source,
      at_Uncertainty = defaultUncertainty source\<rparr>"

definition at_Compare :: "AtomicTimestamp \<Rightarrow> AtomicTimestamp \<Rightarrow> int" where
  "at_Compare t other =
     (if at_Seconds t < at_Seconds other then - 1
      else if at_Seconds t > at_Seconds other then 1
      else if at_Nanoseconds t < at_Nanoseconds other then - 1
      else if at_Nanoseconds t > at_Nanoseconds other then 1
      else 0)"

definition IsHighPrecision :: "AtomicTimestamp \<Rightarrow> bool" where
  "IsHighPrecision t \<longleftrightarrow> at_Uncertainty t \<le> 10000"

definition IsRydbergSynced :: "AtomicTimestamp \<Rightarrow> bool" where
  "IsRydbergSynced t \<longleftrightarrow> at_ClockSource t = ClockSourceRydberg"

definition DurationBetween :: "AtomicTimestamp \<Rightarrow> AtomicTimestamp \<Rightarrow> u64" where
  "DurationBetween t other =
     (let secDiff = at_Seconds t - at_Seconds other;
          nsDiff = ucast (at_Nanoseconds t) - ucast (at_Nanoseconds other)
      in secDiff * 1000000000 + nsDiff)"

definition WithinUncertainty :: "AtomicTimestamp \<Rightarrow> AtomicTimestamp \<Rightarrow> bool" where
  "WithinUncertainty t other =
     (let diff = DurationBetween t other;
          diff = (if sint diff < 0 then - diff else diff);
          combinedUncertainty = ucast (at_Uncertainty t) + ucast (at_Uncertainty other) :: u64
      in sint diff \<le> sint combinedUncertainty)"

section \<open>Encoding\<close>

lemma length_at_Encode [simp]: "length (at_Encode t) = 17"
  by (simp add: at_Encode_def)

lemma Decode_Encode [simp]: "DecodeAtomicTimestamp (at_Encode t) = Inr t"
proof -
  have len: "length (at_Encode t) = AtomicTimestampSize" by (simp add: AtomicTimestampSize_def)
  have "take 8 (at_Encode t) = be_bytes 8 (at_Seconds t)" "take 4 (drop 8 (at_Encode t)) = be_bytes 4 (at_Nanoseconds t)"
    "at_Encode t ! 12 = at_ClockSource t" "take 4 (drop 13 (at_Encode t)) = be_bytes 4 (at_Uncertainty t)"
    by (simp_all add: at_Encode_def nth_append)
  then show ?thesis using len by (simp add: DecodeAtomicTimestamp_def)
qed

lemma Encode_Decode:
  assumes "DecodeAtomicTimestamp data = Inr t"
  shows "at_Encode t = data"
proof -
  have len: "length data = 17" and t: "t = \<lparr>at_Seconds = be_word (take 8 data), at_Nanoseconds = be_word (take 4 (drop 8 data)),
      at_ClockSource = data ! 12, at_Uncertainty = be_word (take 4 (drop 13 data))\<rparr>"
    using assms by (auto simp: DecodeAtomicTimestamp_def AtomicTimestampSize_def split: if_splits)
  have parts: "be_bytes 8 (be_word (take 8 data) :: u64) = take 8 data"
    "be_bytes 4 (be_word (take 4 (drop 8 data)) :: u32) = take 4 (drop 8 data)"
    "be_bytes 4 (be_word (take 4 (drop 13 data)) :: u32) = take 4 (drop 13 data)"
    using len by (auto intro!: be_bytes_be_word)
  have "data = take 8 data @ take 4 (drop 8 data) @ [data ! 12] @ drop 13 data"
  proof -
    have "take 12 data = take 8 data @ take 4 (drop 8 data)" using take_add [of 8 4 data] by simp
    then show ?thesis using id_take_nth_drop [of 12 data] len by simp
  qed
  moreover have "take 4 (drop 13 data) = drop 13 data" using len by simp
  ultimately show ?thesis using parts unfolding t at_Encode_def by simp
qed

lemma Compare_flip: "at_Compare t u = - at_Compare u t"
  by (auto simp: at_Compare_def)

lemma Compare_trans: "at_Compare t u \<le> 0 \<Longrightarrow> at_Compare u v \<le> 0 \<Longrightarrow> at_Compare t v \<le> 0"
  by (auto simp: at_Compare_def split: if_splits)

end
