(* ===== verification/Acks.thy ===== *)
theory Acks
  imports Header Accounts Transaction GoMap Params
begin

text \<open>
  Validators and their acknowledgements as the block chain sees them (\<open>src/core/blockchain.go\<close>, the
  functions from \<open>GetValidators\<close> to \<open>checkBlockBefore\<close>): which validators serve at a block number, whose
  turn it is, and whether the acknowledgements a block carries are enough. The table of validators by
  confirmation point is a cache in front of the database, so the functions return the chain with it.

  Parameters: the database's validator lists by round (\<open>rawdb.ReadDPos\<close>) as part of the chain record,
  the block lookup \<open>getBlock\<close>, the hash and the key recovery in \<open>Crypto\<close>, and \<open>unmarshal\<close>, which checks that
  bytes are a point of the curve (\<open>crypto.UnmarshalPubkey\<close>).
\<close>

section \<open>Validators\<close>

record BlockChain =
  bc_chainConfig :: ChainConfig
  bc_validators :: "(u64, Validator list) entries"
  bc_db :: "u64 \<Rightarrow> Validator list"

text \<open>A round without validators inherits those of the last round before it that has some.\<close>

function inherited :: "(u64 \<Rightarrow> Validator list) \<Rightarrow> u64 \<Rightarrow> Validator list" where
  "inherited db roundId =
     (if length (db roundId) = 0 \<and> roundId > 0 then inherited db (roundId - 1) else db roundId)"
  by pat_completeness auto
termination
  by (relation "measure (\<lambda>(db, r). unat r)") (auto simp: measure_unat)

declare inherited.simps [simp del]

definition GetValidators :: "u64 \<Rightarrow> BlockChain \<Rightarrow> panic + Validator list \<times> BlockChain" where
  "GetValidators number bc =
     (case cc_Pob (bc_chainConfig bc) of
        None \<Rightarrow> Inr ([], bc)
      | Some pob \<Rightarrow>
          let epoch = pob_Epoch pob
          in if epoch = 0 then Inr ([], bc)
             else bindE (GetLastConfirmPoint number epoch) (\<lambda>confirmPointNumber.
               let accounts = (case map_of (bc_validators bc) confirmPointNumber of Some l \<Rightarrow> l | None \<Rightarrow> [])
               in if length accounts \<noteq> 0 then Inr (accounts, bc)
                  else bindE (CalcValidatorRoundId confirmPointNumber epoch) (\<lambda>roundId.
                    let dPosList = inherited (bc_db bc) roundId
                    in if length dPosList > 0
                       then Inr (dPosList, bc\<lparr>bc_validators := AList.update confirmPointNumber dPosList (bc_validators bc)\<rparr>)
                       else Inr (accounts, bc))))"

definition GetValidatorSize :: "u64 \<Rightarrow> BlockChain \<Rightarrow> panic + nat \<times> BlockChain" where
  "GetValidatorSize number bc = bindE (GetValidators number bc) (\<lambda>(accounts, bc). Inr (length accounts, bc))"

definition GetSealValidator :: "u64 \<Rightarrow> BlockChain \<Rightarrow> panic + Validator option \<times> BlockChain" where
  "GetSealValidator number bc =
     bindE (GetValidators number bc) (\<lambda>(accounts, bc).
       if length accounts \<noteq> 0 then
         (case cc_Pob (bc_chainConfig bc) of
            None \<Rightarrow> Inl PanicNilPointer
          | Some pob \<Rightarrow>
              if pob_Epoch pob = 0 then Inl PanicDivide
              else Inr (Some (accounts ! unat (number mod pob_Epoch pob mod of_nat (length accounts))), bc))
       else Inr (None, bc))"

fun index_of :: "address \<Rightarrow> nat \<Rightarrow> Validator list \<Rightarrow> nat option" where
  "index_of owner i [] = None"
| "index_of owner i (a # rest) = (if v_Owner a = owner then Some i else index_of owner (i + 1) rest)"

definition GetValidatorIndex :: "u64 \<Rightarrow> address \<Rightarrow> BlockChain \<Rightarrow> panic + nat option \<times> BlockChain" where
  "GetValidatorIndex number owner bc =
     bindE (GetValidators number bc) (\<lambda>(accounts, bc). Inr (index_of owner 0 accounts, bc))"

definition CheckIsValidator :: "u64 \<Rightarrow> address \<Rightarrow> BlockChain \<Rightarrow> panic + bool \<times> BlockChain" where
  "CheckIsValidator number owner bc =
     bindE (GetValidators number bc) (\<lambda>(accounts, bc). Inr (list_ex (\<lambda>a. v_Owner a = owner) accounts, bc))"

text \<open>Without validators there is no sealing validator, and reading its owner panics.\<close>

definition CheckIsProducerAccount :: "u64 \<Rightarrow> address \<Rightarrow> BlockChain \<Rightarrow> panic + bool \<times> BlockChain" where
  "CheckIsProducerAccount number owner bc =
     bindE (GetSealValidator number bc) (\<lambda>(account, bc).
       case account of None \<Rightarrow> Inl PanicNilPointer | Some a \<Rightarrow> Inr (v_Owner a = owner, bc))"

section \<open>Acknowledgements\<close>

text \<open>
  A key that cannot be recovered is an error; a recovered key that is no point of the curve gives the
  zero address without an error, because the inner error shadows the outer one.
\<close>

definition PubkeyToAddress :: "Crypto \<Rightarrow> bytes \<Rightarrow> address" where
  "PubkeyToAddress cy pub = be_word (drop 12 (hash_bytes (cy_keccak cy (drop 1 pub))))"

definition Ack_RecoverOwner :: "Crypto \<Rightarrow> (bytes \<Rightarrow> bytes option) \<Rightarrow> Ack \<Rightarrow> panic + address \<times> bool" where
  "Ack_RecoverOwner cy unmarshal ack =
     bindE (Ack_Hash (cy_keccak cy) ack) (\<lambda>h.
       Inr (case cy_ecrecover cy (hash_bytes h) (ack_WitnessSig ack) of
              None \<Rightarrow> (0, True)
            | Some pubkey \<Rightarrow>
                (case unmarshal pubkey of None \<Rightarrow> (0, False) | Some publicKey \<Rightarrow> (PubkeyToAddress cy publicKey, False))))"

definition Ack_value :: "Ack \<Rightarrow> rlp_value" where
  "Ack_value a = RList [RUint (ucast (ack_EpochPosition a)), RBig (ack_Number a), RStr (hash_bytes (ack_BlockHash a)),
     RUint (ucast (ack_AckType a)), RStr (ack_WitnessSig a)]"

definition CalcAckHash :: "(bytes \<Rightarrow> hash) \<Rightarrow> Ack list \<Rightarrow> hash" where
  "CalcAckHash keccak acks = rlpHash keccak (RList (map Ack_value acks))"

definition checkAckNumMin :: "nat \<Rightarrow> nat \<Rightarrow> bool" where
  "checkAckNumMin ackNum validatorNum = (if validatorNum \<le> 1 then True else ackNum > validatorNum * 1 div 3)"

record ChainBlock =
  cb_header :: Header
  cb_acks :: "Ack list"
  cb_uncles :: "Header list"
  cb_proofUncles :: "BehaviorProof list"

text \<open>
  The loop over the acknowledgements: the signers seen so far and the numbers of agreeing and opposing
  ones; \<open>None\<close> when the code returns false.
\<close>

fun acks_loop :: "Crypto \<Rightarrow> (bytes \<Rightarrow> bytes option) \<Rightarrow> u64 \<Rightarrow> Header \<Rightarrow> Ack list \<Rightarrow> address list \<Rightarrow> nat \<Rightarrow> nat \<Rightarrow> BlockChain \<Rightarrow>
    panic + (nat \<times> nat) option \<times> BlockChain" where
  "acks_loop cy unmarshal number parent [] used commitNum oppopsNum bc = Inr (Some (commitNum, oppopsNum), bc)"
| "acks_loop cy unmarshal number parent (ack # acks) used commitNum oppopsNum bc =
     bindE (Ack_RecoverOwner cy unmarshal ack) (\<lambda>(singer, err).
       if singer \<in> set used then Inr (None, bc)
       else if err then Inr (None, bc)
       else bindE (CheckIsValidator number singer bc) (\<lambda>(isValidator, bc).
         if \<not> isValidator \<or> big_uint64 (ack_Number ack) \<noteq> number - 1 then Inr (None, bc)
         else bindE (Ack_Hash (cy_keccak cy) ack) (\<lambda>ackHash.
           if ack_AckType ack = AckTypeAgree \<and> ackHash = Header_Hash (cy_keccak cy) parent then Inr (None, bc)
           else acks_loop cy unmarshal number parent acks (singer # used)
                  (if ack_AckType ack = AckTypeAgree then commitNum + 1 else commitNum)
                  (if ack_AckType ack = AckTypeOppose then oppopsNum + 1 else oppopsNum) bc)))"

definition CheckAcks :: "Crypto \<Rightarrow> (bytes \<Rightarrow> bytes option) \<Rightarrow> (hash \<Rightarrow> u64 \<Rightarrow> Header option) \<Rightarrow> ChainBlock \<Rightarrow> BlockChain \<Rightarrow>
    panic + bool \<times> BlockChain" where
  "CheckAcks cy unmarshal getBlock block bc =
     (let header = cb_header block;
          number = big_uint64 (h_Number header)
      in bindE (GetValidators number bc) (\<lambda>(vs, bc).
           case getBlock (h_ParentHash header) (number - 1) of
             None \<Rightarrow> Inl PanicNilPointer
           | Some parent \<Rightarrow>
               bindE (acks_loop cy unmarshal number parent (cb_acks block) [] 0 0 bc) (\<lambda>(counts, bc).
                 case counts of
                   None \<Rightarrow> Inr (False, bc)
                 | Some (commitNum, oppopsNum) \<Rightarrow>
                     Inr (if h_AcksHash header \<noteq> CalcAckHash (cy_keccak cy) (cb_acks block) then False
                          else case h_AckCountList header of
                                 [c] \<Rightarrow>
                                   if big_uint64 (ac_BlockNumber c) \<noteq> number - 1 then False
                                   else if IsVisual parent \<and> h_ValidatorAddr header \<noteq> h_ValidatorAddr parent then False
                                   else if IsVisual parent
                                     then ac_AckCount c = of_nat oppopsNum \<and> commitNum = 0 \<and> checkAckNumMin oppopsNum (length vs)
                                   else ac_AckCount c = of_nat commitNum \<and> oppopsNum = 0 \<and> checkAckNumMin commitNum (length vs)
                               | _ \<Rightarrow> False, bc))))"

definition checkBlockBefore :: "Header \<Rightarrow> Header \<Rightarrow> bool" where
  "checkBlockBefore header parent = (if IsVisual parent then h_ValidatorAddr header = h_ValidatorAddr parent else True)"

end
