(* ===== verification/AcksProps.thy ===== *)
theory AcksProps
  imports Acks
begin

text \<open>
  The validator table is a transparent cache: \<open>validators_at\<close> says which validators serve at a block
  number, from the configuration and the database alone. On top of it: in every epoch each validator
  has a turn to produce, and a block is only accepted with enough acknowledgements of distinct
  validators.
\<close>

section \<open>The validators of a block number\<close>

definition confirm_point :: "u64 \<Rightarrow> u64 \<Rightarrow> u64" where
  "confirm_point epoch n = (if n \<le> epoch then 0 else (n - 1) div epoch * epoch - confirmBlockNum epoch)"

definition round_of :: "u64 \<Rightarrow> u64 \<Rightarrow> u64" where
  "round_of epoch cp =
     (if cp = 0 then 0
      else let factor = cp + confirmBlockNum epoch + epoch - 1 in (factor - factor mod epoch) div epoch)"

definition validators_at :: "BlockChain \<Rightarrow> u64 \<Rightarrow> Validator list" where
  "validators_at bc n =
     (case cc_Pob (bc_chainConfig bc) of
        None \<Rightarrow> []
      | Some pob \<Rightarrow> if pob_Epoch pob = 0 then []
                    else inherited (bc_db bc) (round_of (pob_Epoch pob) (confirm_point (pob_Epoch pob) n)))"

definition cache_ok :: "BlockChain \<Rightarrow> bool" where
  "cache_ok bc \<longleftrightarrow>
     (\<forall>cp l. map_of (bc_validators bc) cp = Some l \<longrightarrow> l \<noteq> [] \<longrightarrow>
        (\<exists>pob. cc_Pob (bc_chainConfig bc) = Some pob \<and> l = inherited (bc_db bc) (round_of (pob_Epoch pob) cp)))"

definition same_chain :: "BlockChain \<Rightarrow> BlockChain \<Rightarrow> bool" where
  "same_chain bc bc' \<longleftrightarrow> cache_ok bc' \<and> bc_db bc' = bc_db bc \<and> bc_chainConfig bc' = bc_chainConfig bc"

lemma same_chain_refl: "cache_ok bc \<Longrightarrow> same_chain bc bc"
  by (simp add: same_chain_def)

lemma same_chain_trans: "same_chain a b \<Longrightarrow> same_chain b c \<Longrightarrow> same_chain a c"
  by (simp add: same_chain_def)

lemma same_validators: "same_chain bc bc' \<Longrightarrow> validators_at bc' n = validators_at bc n"
  by (simp add: same_chain_def validators_at_def split: option.split)

lemma confirm_point_eq: "epoch \<noteq> 0 \<Longrightarrow> GetLastConfirmPoint n epoch = Inr (confirm_point epoch n)"
  by (simp add: GetLastConfirmPoint_def confirm_point_def)

lemma round_of_eq: "epoch \<noteq> 0 \<Longrightarrow> CalcValidatorRoundId cp epoch = Inr (round_of epoch cp)"
  by (simp add: CalcValidatorRoundId_def round_of_def Let_def)

lemma GetValidators_ok:
  assumes "cache_ok bc"
  obtains bc' where "GetValidators n bc = Inr (validators_at bc n, bc')" "same_chain bc bc'"
proof (cases "cc_Pob (bc_chainConfig bc)")
  case None
  then show ?thesis using that [of bc] same_chain_refl [OF assms] by (simp add: GetValidators_def validators_at_def)
next
  case (Some pob)
  let ?e = "pob_Epoch pob"
  show ?thesis
  proof (cases "?e = 0")
    case True
    then show ?thesis using that [of bc] same_chain_refl [OF assms] Some by (simp add: GetValidators_def validators_at_def)
  next
    case False
    let ?cp = "confirm_point ?e n"
    let ?acc = "case map_of (bc_validators bc) ?cp of Some l \<Rightarrow> l | None \<Rightarrow> []"
    let ?l = "inherited (bc_db bc) (round_of ?e ?cp)"
    have v: "validators_at bc n = ?l" using Some False by (simp add: validators_at_def)
    have run: "GetValidators n bc =
        (if length ?acc \<noteq> 0 then Inr (?acc, bc)
         else if length ?l > 0 then Inr (?l, bc\<lparr>bc_validators := AList.update ?cp ?l (bc_validators bc)\<rparr>)
         else Inr (?acc, bc))"
      using Some False by (simp add: GetValidators_def confirm_point_eq round_of_eq Let_def)
    show ?thesis
    proof (cases "?acc = []")
      case False
      then have "?acc = ?l" using assms Some by (auto simp: cache_ok_def split: option.splits)
      then show ?thesis using that [of bc] run False v same_chain_refl [OF assms] by simp
    next
      case True
      let ?bc = "bc\<lparr>bc_validators := AList.update ?cp ?l (bc_validators bc)\<rparr>"
      have "same_chain bc ?bc" using assms Some by (auto simp: same_chain_def cache_ok_def)
      then show ?thesis using that [of bc] that [of ?bc] run True v same_chain_refl [OF assms] by (cases "?l = []") auto
    qed
  qed
qed

lemma CheckIsValidator_ok:
  assumes "cache_ok bc"
  obtains bc' where "CheckIsValidator n owner bc = Inr (owner \<in> v_Owner ` set (validators_at bc n), bc')" "same_chain bc bc'"
proof -
  obtain bc' where "GetValidators n bc = Inr (validators_at bc n, bc')" "same_chain bc bc'"
    using GetValidators_ok [OF assms] .
  then show ?thesis using that [of bc'] by (auto simp: CheckIsValidator_def list_ex_iff)
qed

section \<open>Acknowledgements\<close>

definition ackers :: "Crypto \<Rightarrow> (bytes \<Rightarrow> bytes option) \<Rightarrow> Ack list \<Rightarrow> address list \<Rightarrow> bool" where
  "ackers cy unmarshal acks signers \<longleftrightarrow> list_all2 (\<lambda>a s. Ack_RecoverOwner cy unmarshal a = Inr (s, False)) acks signers"

definition count_type :: "AckType \<Rightarrow> Ack list \<Rightarrow> nat" where
  "count_type ty acks = length (filter (\<lambda>a. ack_AckType a = ty) acks)"

lemma acks_loop_ok:
  assumes "cache_ok bc" and "acks_loop cy unmarshal number parent acks used c d bc = Inr (Some (c', d'), bc')"
  shows "same_chain bc bc' \<and> c' = c + count_type AckTypeAgree acks \<and> d' = d + count_type AckTypeOppose acks \<and>
    (\<forall>a \<in> set acks. big_uint64 (ack_Number a) = number - 1) \<and>
    (\<exists>signers. ackers cy unmarshal acks signers \<and> distinct signers \<and> set signers \<inter> set used = {} \<and>
       set signers \<subseteq> v_Owner ` set (validators_at bc number))"
  using assms
proof (induction acks arbitrary: used c d bc)
  case Nil
  then show ?case by (auto simp: same_chain_refl count_type_def ackers_def)
next
  case (Cons a acks)
  obtain s err where r: "Ack_RecoverOwner cy unmarshal a = Inr (s, err)" using Cons.prems(2) by (auto simp: bindE_Inr_iff)
  have new: "s \<notin> set used" "\<not> err" using Cons.prems(2) r by (auto split: if_splits)
  obtain bc1 where v: "CheckIsValidator number s bc = Inr (s \<in> v_Owner ` set (validators_at bc number), bc1)" "same_chain bc bc1"
    using CheckIsValidator_ok [OF Cons.prems(1)] .
  obtain h where h: "Ack_Hash (cy_keccak cy) a = Inr h" using r by (auto simp: Ack_RecoverOwner_def bindE_Inr_iff)
  have val: "s \<in> v_Owner ` set (validators_at bc number)" "big_uint64 (ack_Number a) = number - 1"
    and rest: "acks_loop cy unmarshal number parent acks (s # used)
        (if ack_AckType a = AckTypeAgree then c + 1 else c) (if ack_AckType a = AckTypeOppose then d + 1 else d) bc1 = Inr (Some (c', d'), bc')"
    using Cons.prems(2) r new v(1) h by (auto split: if_splits)
  have ok1: "cache_ok bc1" using v(2) by (simp add: same_chain_def)
  note IH = Cons.IH [OF ok1 rest]
  then obtain signers where sg: "ackers cy unmarshal acks signers" "distinct signers" "set signers \<inter> set (s # used) = {}"
      "set signers \<subseteq> v_Owner ` set (validators_at bc1 number)" by blast
  have "ackers cy unmarshal (a # acks) (s # signers)" using sg(1) r new(2) by (simp add: ackers_def)
  moreover have "distinct (s # signers)" "set (s # signers) \<inter> set used = {}" using sg(2,3) new(1) by auto
  moreover have "set (s # signers) \<subseteq> v_Owner ` set (validators_at bc number)"
    using sg(4) val(1) same_validators [OF v(2)] by simp
  moreover have "same_chain bc bc'" using IH v(2) same_chain_trans by blast
  moreover have "c' = c + count_type AckTypeAgree (a # acks)" "d' = d + count_type AckTypeOppose (a # acks)"
    using IH by (auto simp: count_type_def)
  moreover have "\<forall>x \<in> set (a # acks). big_uint64 (ack_Number x) = number - 1" using IH val(2) by simp
  ultimately show ?case by blast
qed

section \<open>Turns\<close>

lemma confirm_point_const:
  assumes "0 < e" and "k * unat e < m" and "m \<le> (k + 1) * unat e" and "(k + 1) * unat e < 2 ^ 64"
  shows "confirm_point e (of_nat m) = confirm_point e (of_nat (k * unat e + 1))"
proof -
  have E: "0 < unat e" using assms(1) by (simp add: word_less_nat_alt)
  have step: "unat (of_nat j :: u64) = j" if "j \<le> (k + 1) * unat e" for j using that assms(4) by (simp add: unat_of_nat)
  have q: "(of_nat j - 1 :: u64) div e = of_nat k" if j: "k * unat e < j" "j \<le> (k + 1) * unat e" for j
  proof -
    have "unat (of_nat j - 1 :: u64) = j - 1" using step [OF j(2)] j(1) by (simp add: unat_sub word_le_nat_alt)
    moreover have "(j - 1) div unat e = k" using j E by (intro div_nat_eqI) (auto simp: algebra_simps)
    ultimately have "unat ((of_nat j - 1 :: u64) div e) = k" by (simp add: unat_div)
    then show ?thesis by (metis of_nat_unat ucast_id)
  qed
  have le: "(of_nat j :: u64) \<le> e \<longleftrightarrow> k = 0" if j: "k * unat e < j" "j \<le> (k + 1) * unat e" for j
  proof -
    have "(of_nat j :: u64) \<le> e \<longleftrightarrow> j \<le> unat e" using step [OF j(2)] by (simp add: word_le_nat_alt)
    also have "\<dots> \<longleftrightarrow> k = 0" using j E by (cases k) auto
    finally show ?thesis .
  qed
  have one: "k * unat e < k * unat e + 1" "k * unat e + 1 \<le> (k + 1) * unat e" using E by simp_all
  show ?thesis unfolding confirm_point_def le [OF assms(2,3)] le [OF one] q [OF assms(2,3)] q [OF one] ..
qed

lemma GetSealValidator_ok:
  assumes "cache_ok bc" and "cc_Pob (bc_chainConfig bc) = Some pob" and "pob_Epoch pob \<noteq> 0" and "validators_at bc n \<noteq> []"
  obtains bc' where "GetSealValidator n bc =
    Inr (Some (validators_at bc n ! unat (n mod pob_Epoch pob mod of_nat (length (validators_at bc n)))), bc')" "same_chain bc bc'"
proof -
  obtain bc' where "GetValidators n bc = Inr (validators_at bc n, bc')" "same_chain bc bc'"
    using GetValidators_ok [OF assms(1)] .
  then show ?thesis using that [of bc'] assms(2-4) by (simp add: GetSealValidator_def same_chain_def)
qed

section \<open>Properties\<close>

text \<open>
  C9. A block passes the acknowledgement check only with a quorum behind it: its acknowledgements
  are signed by distinct validators of that block number, all speak of the previous number, are
  committed to by the header, and their count is the one the header states. After an ordinary
  parent none opposes and, with two or more validators, more than a third of them agree; after a
  visual parent none agrees, more than a third oppose, and the producer is the parent's.
\<close>

theorem CheckAcks_quorum:
  assumes "cache_ok bc" and "CheckAcks cy unmarshal getBlock block bc = Inr (True, bc')"
  defines "number \<equiv> big_uint64 (h_Number (cb_header block))"
  defines "n \<equiv> length (validators_at bc number)"
  shows "\<exists>parent signers count.
    getBlock (h_ParentHash (cb_header block)) (number - 1) = Some parent \<and>
    ackers cy unmarshal (cb_acks block) signers \<and> distinct signers \<and>
    set signers \<subseteq> v_Owner ` set (validators_at bc number) \<and>
    (\<forall>a \<in> set (cb_acks block). big_uint64 (ack_Number a) = number - 1) \<and>
    h_AcksHash (cb_header block) = CalcAckHash (cy_keccak cy) (cb_acks block) \<and>
    h_AckCountList (cb_header block) = [count] \<and> big_uint64 (ac_BlockNumber count) = number - 1 \<and>
    (if IsVisual parent
     then h_ValidatorAddr (cb_header block) = h_ValidatorAddr parent \<and> count_type AckTypeAgree (cb_acks block) = 0 \<and>
       ac_AckCount count = of_nat (count_type AckTypeOppose (cb_acks block)) \<and>
       (2 \<le> n \<longrightarrow> n div 3 < count_type AckTypeOppose (cb_acks block))
     else count_type AckTypeOppose (cb_acks block) = 0 \<and>
       ac_AckCount count = of_nat (count_type AckTypeAgree (cb_acks block)) \<and>
       (2 \<le> n \<longrightarrow> n div 3 < count_type AckTypeAgree (cb_acks block)))"
proof -
  obtain bc1 where g: "GetValidators number bc = Inr (validators_at bc number, bc1)" "same_chain bc bc1"
    using GetValidators_ok [OF assms(1)] .
  obtain parent where p: "getBlock (h_ParentHash (cb_header block)) (number - 1) = Some parent"
    using assms(2) g(1) unfolding CheckAcks_def Let_def number_def by (auto split: option.splits)
  obtain c d bc2 where l: "acks_loop cy unmarshal number parent (cb_acks block) [] 0 0 bc1 = Inr (Some (c, d), bc2)"
    using assms(2) g(1) p unfolding CheckAcks_def Let_def number_def [symmetric] by (auto split: option.splits)
  have ok1: "cache_ok bc1" using g(2) by (simp add: same_chain_def)
  note L = acks_loop_ok [OF ok1 l]
  obtain signers where s: "ackers cy unmarshal (cb_acks block) signers" "distinct signers"
      "set signers \<subseteq> v_Owner ` set (validators_at bc number)"
    using L same_validators [OF g(2)] by auto
  have cd: "c = count_type AckTypeAgree (cb_acks block)" "d = count_type AckTypeOppose (cb_acks block)" using L by simp_all
  obtain count where k: "h_AckCountList (cb_header block) = [count]"
    using assms(2) g(1) p l unfolding CheckAcks_def Let_def number_def [symmetric]
    by (auto split: list.splits if_splits)
  show ?thesis
    using assms(2) g(1) p l k s L cd unfolding CheckAcks_def Let_def number_def [symmetric]
    by (intro exI [of _ parent] exI [of _ signers] exI [of _ count])
       (auto simp: n_def checkAckNumMin_def split: if_splits)
qed

text \<open>
  C11. No validator is passed over: as long as there are no more validators than blocks in an epoch,
  every validator of an epoch's list is the one whose turn it is at some block number of that epoch,
  whatever the validator table has cached.
\<close>

theorem every_validator_has_turn:
  assumes "cache_ok bc" and "cc_Pob (bc_chainConfig bc) = Some pob" and "(k + 1) * unat (pob_Epoch pob) < 2 ^ 64"
    and "length (validators_at bc (of_nat (k * unat (pob_Epoch pob) + 1))) \<le> unat (pob_Epoch pob)"
    and "i < length (validators_at bc (of_nat (k * unat (pob_Epoch pob) + 1)))"
  shows "\<exists>m bc'. k * unat (pob_Epoch pob) < m \<and> m \<le> (k + 1) * unat (pob_Epoch pob) \<and>
    GetSealValidator (of_nat m) bc = Inr (Some (validators_at bc (of_nat (k * unat (pob_Epoch pob) + 1)) ! i), bc')"
proof -
  let ?e = "pob_Epoch pob" and ?E = "unat (pob_Epoch pob)" and ?vs = "validators_at bc (of_nat (k * unat (pob_Epoch pob) + 1))"
  have e: "?e \<noteq> 0" using assms(2,5) by (auto simp: validators_at_def)
  then have E: "0 < ?E" "0 < ?e" by (simp_all add: unat_gt_0 word_gt_0)
  define m where "m = (if i = 0 then (k + 1) * ?E else k * ?E + i)"
  have m: "k * ?E < m" "m \<le> (k + 1) * ?E" using assms(4,5) E(1) by (auto simp: m_def)
  have vs: "validators_at bc (of_nat m) = ?vs"
    using confirm_point_const [OF E(2) m assms(3)] assms(2) by (simp add: validators_at_def)
  have "m mod ?E mod length ?vs = i" using assms(4,5) by (cases "i = 0") (auto simp: m_def)
  moreover have "unat (of_nat m :: u64) = m" "unat (of_nat (length ?vs) :: u64) = length ?vs"
    using m assms(3,4) unat_u64_bound [of ?e] by (simp_all add: unat_of_nat)
  ultimately have idx: "unat (of_nat m mod ?e mod of_nat (length ?vs)) = i" by (simp add: unat_mod)
  have ne: "validators_at bc (of_nat m) \<noteq> []" unfolding vs using assms(5) by (metis list.size(3) not_less_zero)
  obtain bc' where "GetSealValidator (of_nat m) bc =
      Inr (Some (validators_at bc (of_nat m) ! unat (of_nat m mod ?e mod of_nat (length (validators_at bc (of_nat m))))), bc')"
    by (rule GetSealValidator_ok [OF assms(1,2) e ne])
  from this [unfolded vs idx] m show ?thesis by blast
qed

definition exampleChain :: BlockChain where
  "exampleChain =
     \<lparr>bc_chainConfig = MainnetChainConfig, bc_validators = [],
      bc_db = (\<lambda>r. if r = 0 then [\<lparr>v_Enode = [], v_Owner = 1\<rparr>, \<lparr>v_Enode = [], v_Owner = 2\<rparr>] else [])\<rparr>"

lemma exampleChain_facts:
  "cache_ok exampleChain" "validators_at exampleChain 1 = [\<lparr>v_Enode = [], v_Owner = 1\<rparr>, \<lparr>v_Enode = [], v_Owner = 2\<rparr>]"
  by (simp_all add: cache_ok_def exampleChain_def validators_at_def MainnetChainConfig_def round_of_def confirm_point_def
      inherited.simps)

theorem every_validator_has_turn_witness:
  "\<exists>m bc'. m \<le> 30000 \<and> GetSealValidator (of_nat m) exampleChain = Inr (Some \<lparr>v_Enode = [], v_Owner = 2\<rparr>, bc')"
proof -
  let ?pob = "\<lparr>pob_Period = 0, pob_TickIntervalMs = 400, pob_Epoch = 30000, pob_InitialScore = 0, pob_SlashFraction = 0,
    pob_DemotionThreshold = 0, pob_ValidatorList = []\<rparr>"
  have "cc_Pob (bc_chainConfig exampleChain) = Some ?pob" by (simp add: exampleChain_def MainnetChainConfig_def)
  from every_validator_has_turn [OF exampleChain_facts(1) this, of 0 1] show ?thesis
    by (auto simp: exampleChain_facts(2))
qed

definition exampleBlock :: ChainBlock where
  "exampleBlock = \<lparr>cb_header = exampleHeader\<lparr>h_AcksHash := 7, h_AckCountList := [\<lparr>ac_BlockNumber = 0, ac_AckCount = 0\<rparr>]\<rparr>,
     cb_acks = [], cb_uncles = [], cb_proofUncles = []\<rparr>"

definition constantCrypto :: Crypto where
  "constantCrypto = \<lparr>cy_keccak = (\<lambda>b. 7), cy_ecrecover = (\<lambda>h s. None), cy_sign = (\<lambda>h k. None), cy_dil_unpack = (\<lambda>b. b),
     cy_dil_verify = (\<lambda>p m s. False), cy_dil_sign = (\<lambda>k m. []), cy_dil_public = (\<lambda>k. [])\<rparr>"

theorem CheckAcks_quorum_witness:
  "\<exists>bc'. CheckAcks constantCrypto (\<lambda>b. None) (\<lambda>h n. Some exampleHeader) exampleBlock
       (exampleChain\<lparr>bc_db := (\<lambda>r. [\<lparr>v_Enode = [], v_Owner = 1\<rparr>])\<rparr>) = Inr (True, bc') \<and>
     h_AcksHash (cb_header exampleBlock) = CalcAckHash (cy_keccak constantCrypto) (cb_acks exampleBlock)"
proof -
  let ?bc = "exampleChain\<lparr>bc_db := (\<lambda>r. [\<lparr>v_Enode = [], v_Owner = 1\<rparr>])\<rparr>"
  have ok: "cache_ok ?bc" by (simp add: cache_ok_def exampleChain_def)
  have v: "validators_at ?bc 1 = [\<lparr>v_Enode = [], v_Owner = 1\<rparr>]"
    by (simp add: validators_at_def exampleChain_def MainnetChainConfig_def inherited.simps)
  obtain bc1 where g: "GetValidators 1 ?bc = Inr ([\<lparr>v_Enode = [], v_Owner = 1\<rparr>], bc1)"
    using GetValidators_ok [OF ok, of 1] v by metis
  have "length (h_Extra exampleHeader) \<noteq> length (hash_bytes VisualBlockExtra)" by (simp add: exampleHeader_def hash_bytes_def)
  then have vis: "\<not> IsVisual exampleHeader" unfolding IsVisual_def by metis
  have num: "h_Number exampleHeader = 1" by (simp add: exampleHeader_def)
  have run: "CheckAcks constantCrypto (\<lambda>b. None) (\<lambda>h n. Some exampleHeader) exampleBlock ?bc = Inr (True, bc1)"
    using g vis num by (simp add: CheckAcks_def exampleBlock_def big_uint64_def CalcAckHash_def rlpHash_def
        constantCrypto_def checkAckNumMin_def)
  from CheckAcks_quorum [OF ok run] show ?thesis using run by blast
qed

end
