(* ===== verification/Engine.thy ===== *)
theory Engine
  imports PobSnapshot Acks FeeMarket AtomicTime
begin

text \<open>
  The Proof-of-Behavior engine (\<open>src/consensus/pob/pob.go\<close>): header verification, the search for the
  parent that is not a visual block, snapshots of the validator set with their two caches, preparing,
  sealing and signing; and the header a producer assembles (\<open>validatorCommitNewWork\<close> of
  \<open>src/miner/worker.go\<close>).

  The chain is an argument: the record \<open>ChainReader\<close> holds what the engine asks of it. Header hashes
  and signature checks use the parameters of \<open>Crypto\<close> and \<open>unmarshal\<close>. The signing function of the node is
  a field of the engine (\<open>None\<close> before \<open>Authorize\<close>). The in-memory cache and the snapshot database are
  association lists; what the cache evicts is not fixed by the model. A stored snapshot is read back
  from JSON, where an empty map marked \<open>omitempty\<close> is left out and comes back as nil. Go leaves the order in
  which \<open>Prepare\<close> meets the proposals open; the list of proposals fixes one. When applying headers fails, the model
  forgets a genesis snapshot that was just stored, which the next call builds again. Clock readings are arguments.
\<close>

section \<open>State and errors\<close>

record ChainReader =
  ch_Config :: ChainConfig
  ch_GetHeader :: "hash \<Rightarrow> u64 \<Rightarrow> Header option"
  ch_GetHeaderByNumber :: "u64 \<Rightarrow> Header option"

datatype Mode = ModeNormal | ModeShared | ModeTest | ModeFake | ModeFullFake

record ProofOfBehavior =
  pe_pobConfig :: PobConfig
  pe_PowMode :: Mode
  pe_db :: "(hash, PobSnapshot) entries"
  pe_recents :: "(hash, PobSnapshot) entries"
  pe_proposals :: "(address, bool) entries"
  pe_signer :: address
  pe_signFn :: "(address \<Rightarrow> bytes \<Rightarrow> bytes option) option"
  pe_pendingRegistrations :: "TestnetRegistration list"
  pe_fakeDiff :: bool

datatype engine_error =
    ErrUnknownBlock | ErrUnknownAncestor | ErrFutureBlock | ErrInvalidNumber | ErrOlderBlockTime
  | ErrExtraValidators | ErrValidatorAddr | ErrInvalidDifficulty | ErrGasLimitCap | ErrGasUsed
  | ErrBaseFeeBeforeFork | ErrGas gas_error | ErrAtomicEncoding timestamp_error | ErrAtomicDiverges
  | ErrUncles | ErrProofHeader | ErrVisual | ErrAcks | ErrNotAuthorized | ErrSign
  | ErrSnapshot snap_error | EnginePanic panic

definition checkpointInterval :: u64 where "checkpointInterval = 1024"
definition epochLength :: u64 where "epochLength = 30000"
definition diffInTurn :: int where "diffInTurn = 2"
definition diffNoTurn :: int where "diffNoTurn = 1"
definition allowedFutureBlockTimeSeconds :: u64 where "allowedFutureBlockTimeSeconds = 15"
definition allowedFutureBlockTimeSecondsStellar :: u64 where "allowedFutureBlockTimeSecondsStellar = 1"

definition New :: "PobConfig \<Rightarrow> ProofOfBehavior" where
  "New config =
     (let conf = config;
          conf = (if pob_Epoch conf = 0 then conf\<lparr>pob_Epoch := epochLength\<rparr> else conf);
          conf = (if pob_InitialScore conf = 0 then conf\<lparr>pob_InitialScore := defaultInitialScore\<rparr> else conf);
          conf = (if pob_SlashFraction conf = 0 then conf\<lparr>pob_SlashFraction := 1000\<rparr> else conf);
          conf = (if pob_DemotionThreshold conf = 0 then conf\<lparr>pob_DemotionThreshold := 1000\<rparr> else conf)
      in \<lparr>pe_pobConfig = conf, pe_PowMode = ModeNormal, pe_db = [], pe_recents = [], pe_proposals = [],
          pe_signer = 0, pe_signFn = None, pe_pendingRegistrations = [], pe_fakeDiff = False\<rparr>)"

definition Author :: "Header \<Rightarrow> address" where
  "Author header = h_ValidatorAddr header"

section \<open>Header verification\<close>

text \<open>
  The signature's owner. When the key cannot be recovered, or is no point of the curve, the result is
  the zero address without an error.
\<close>

definition RecoverOwner :: "Crypto \<Rightarrow> (bytes \<Rightarrow> bytes option) \<Rightarrow> Header \<Rightarrow> panic + address \<times> bool" where
  "RecoverOwner cy unmarshal header =
     (if length (h_ValidatorSig header) = dilithium_PublicKeySize + dilithium_SignatureSize then
        (let pubBytes = take dilithium_PublicKeySize (h_ValidatorSig header);
             sigBytes = drop dilithium_PublicKeySize (h_ValidatorSig header)
         in case dilithium_UnmarshalPublicKey cy pubBytes of
              None \<Rightarrow> Inr (0, True)
            | Some pub \<Rightarrow>
                bindE (PobRLP header) (\<lambda>b.
                  Inr (if \<not> dilithium_Verify cy pub (hash_bytes (cy_keccak cy b)) sigBytes then (0, True)
                       else (dilithium_PubkeyToAddress cy pub, False))))
      else
        bindE (PobRLP header) (\<lambda>b.
          Inr (case cy_ecrecover cy (hash_bytes (cy_keccak cy b)) (h_ValidatorSig header) of
                 Some pubkey \<Rightarrow>
                   (case unmarshal pubkey of Some publicKey \<Rightarrow> (PubkeyToAddress cy publicKey, False) | None \<Rightarrow> (0, False))
               | None \<Rightarrow> (0, False))))"

definition check_extra :: "PobConfig \<Rightarrow> Header \<Rightarrow> panic + engine_error option" where
  "check_extra config header =
     (if pob_Epoch config = 0 then Inl PanicDivide
      else
        let checkpoint = (big_uint64 (h_Number header) mod pob_Epoch config = 0);
            behaviorDataLen = length (h_Extra header) - extraVanity - extraSeal
        in if \<not> checkpoint \<and> behaviorDataLen > 0 then
             (let regData = drop extraVanity (take (length (h_Extra header) - extraSeal) (h_Extra header))
              in Inr (if \<not> isValidRegistrationData regData then Some ErrExtraValidators else None))
           else Inr None)"

definition check_time :: "ChainConfig \<Rightarrow> Header \<Rightarrow> Header \<Rightarrow> bool \<Rightarrow> u64 \<Rightarrow> engine_error option" where
  "check_time config header parent uncle unixNow =
     (let stellar = IsStellarSpeed config (Some (h_Number header));
          futureLimit = (if stellar then allowedFutureBlockTimeSecondsStellar else allowedFutureBlockTimeSeconds)
      in if \<not> uncle \<and> h_Time header > unixNow + futureLimit then Some ErrFutureBlock
         else if h_Time header < h_Time parent then Some ErrOlderBlockTime
         else if h_Time header = h_Time parent \<and> \<not> stellar then Some ErrOlderBlockTime
         else None)"

definition check_gas :: "ChainConfig \<Rightarrow> Header \<Rightarrow> Header \<Rightarrow> panic + engine_error option" where
  "check_gas config header parent =
     (if h_GasLimit header > 0x7fffffffffffffff then Inr (Some ErrGasLimitCap)
      else if h_GasUsed header > h_GasLimit header then Inr (Some ErrGasUsed)
      else if \<not> IsLondon config (Some (h_Number header)) then
        Inr (if h_BaseFee header \<noteq> None then Some ErrBaseFeeBeforeFork
             else map_option ErrGas (VerifyGaslimit (h_GasLimit parent) (h_GasLimit header)))
      else bindE (VerifyEip1559Header config parent header) (\<lambda>e. Inr (map_option ErrGas e)))"

definition check_atomic_time :: "Header \<Rightarrow> engine_error option" where
  "check_atomic_time header =
     (case h_AtomicTime header of
        None \<Rightarrow> None
      | Some data \<Rightarrow>
          if length data = 0 then None
          else (case DecodeAtomicTimestamp data of
                  Inl e \<Rightarrow> Some (ErrAtomicEncoding e)
                | Inr at \<Rightarrow>
                    (let diff = at_Seconds at - h_Time header;
                         diff = (if sint diff < 0 then - diff else diff)
                     in if sint diff > 60 then Some ErrAtomicDiverges else None)))"

definition verifyHeader :: "Crypto \<Rightarrow> (bytes \<Rightarrow> bytes option) \<Rightarrow> ChainReader \<Rightarrow> ProofOfBehavior \<Rightarrow> Header \<Rightarrow> Header \<Rightarrow> bool \<Rightarrow> u64 \<Rightarrow> int \<Rightarrow>
    panic + engine_error option" where
  "verifyHeader cy unmarshal chain c header parent uncle unixNow diff =
     bindE (RecoverOwner cy unmarshal header) (\<lambda>(addr, err).
       if err \<or> addr \<noteq> h_ValidatorAddr header then Inr (Some ErrValidatorAddr)
       else bindE (check_extra (pe_pobConfig c) header) (\<lambda>e.
         case e of Some e \<Rightarrow> Inr (Some e) | None \<Rightarrow>
         (case check_time (ch_Config chain) header parent uncle unixNow of Some e \<Rightarrow> Inr (Some e) | None \<Rightarrow>
          if \<not> pe_fakeDiff c \<and> (case h_Difficulty header of None \<Rightarrow> True | Some d \<Rightarrow> d \<le> 0) then Inr (Some ErrInvalidDifficulty)
          else bindE (check_gas (ch_Config chain) header parent) (\<lambda>e.
            case e of Some e \<Rightarrow> Inr (Some e) | None \<Rightarrow>
            if h_Number header - h_Number parent \<noteq> diff then Inr (Some ErrInvalidNumber)
            else Inr (check_atomic_time header)))))"

section \<open>The parent that is not a visual block\<close>

partial_function (option) FindRealParentHeader ::
  "(bytes \<Rightarrow> hash) \<Rightarrow> ChainReader \<Rightarrow> Header list \<Rightarrow> int \<Rightarrow> Header \<Rightarrow> int \<Rightarrow> (panic + (engine_error + Header) \<times> int) option" where
  "FindRealParentHeader keccak chain headers index cur diff =
     (let step = (if index > 0 \<and> headers \<noteq> [] then
                    (if nat index \<ge> length headers then Inl PanicIndex
                     else let parent = headers ! nat (index - 1); child = headers ! nat index
                          in if Header_Hash keccak parent \<noteq> h_ParentHash child \<or> h_Number child - h_Number parent \<noteq> 1
                             then Inr None else Inr (Some parent))
                  else if index = 0 then
                    (if headers = [] then Inl PanicIndex
                     else Inr (ch_GetHeader chain (h_ParentHash (headers ! 0)) (big_uint64 (h_Number (headers ! 0)) - 1)))
                  else Inr (ch_GetHeader chain (h_ParentHash cur) (big_uint64 (h_Number cur) - 1)))
      in case step of
           Inl p \<Rightarrow> Some (Inl p)
         | Inr None \<Rightarrow> Some (Inr (Inl ErrUnknownAncestor, diff))
         | Inr (Some parent) \<Rightarrow>
             if \<not> IsVisual parent then Some (Inr (Inr parent, diff))
             else FindRealParentHeader keccak chain headers (if index > 0 \<and> headers \<noteq> [] \<or> index = 0 then index - 1 else index) parent (diff + 1))"

definition VerifyHeader :: "Crypto \<Rightarrow> (bytes \<Rightarrow> bytes option) \<Rightarrow> ChainReader \<Rightarrow> ProofOfBehavior \<Rightarrow> Header \<Rightarrow> u64 \<Rightarrow>
    (panic + engine_error option) option" where
  "VerifyHeader cy unmarshal chain c header unixNow =
     (if pe_PowMode c = ModeFullFake then Some (Inr None)
      else if ch_GetHeader chain (Header_Hash (cy_keccak cy) header) (big_uint64 (h_Number header)) \<noteq> None then Some (Inr None)
      else map_option (\<lambda>r. bindE r (\<lambda>(p, diff).
             case p of Inl e \<Rightarrow> Inr (Some e)
                     | Inr parent \<Rightarrow> verifyHeader cy unmarshal chain c header parent False unixNow diff))
           (FindRealParentHeader (cy_keccak cy) chain [] (- 1) header 1))"

definition verifyHeaderWorker :: "Crypto \<Rightarrow> (bytes \<Rightarrow> bytes option) \<Rightarrow> ChainReader \<Rightarrow> ProofOfBehavior \<Rightarrow> Header list \<Rightarrow> u64 \<Rightarrow> nat \<Rightarrow>
    (panic + engine_error option) option" where
  "verifyHeaderWorker cy unmarshal chain c headers unixNow index =
     map_option (\<lambda>r. bindE r (\<lambda>(p, diff).
        case p of Inl e \<Rightarrow> Inr (Some e)
                | Inr parent \<Rightarrow> verifyHeader cy unmarshal chain c (headers ! index) parent False unixNow diff))
       (FindRealParentHeader (cy_keccak cy) chain headers (int index) (headers ! index) 1)"

text \<open>The workers run at the same time, but their verdicts leave in the order of the headers.\<close>

definition VerifyHeaders :: "Crypto \<Rightarrow> (bytes \<Rightarrow> bytes option) \<Rightarrow> ChainReader \<Rightarrow> ProofOfBehavior \<Rightarrow> Header list \<Rightarrow> u64 \<Rightarrow>
    (panic + engine_error option) option list" where
  "VerifyHeaders cy unmarshal chain c headers unixNow =
     (if pe_PowMode c = ModeFullFake then map (\<lambda>h. Some (Inr None)) headers
      else map (verifyHeaderWorker cy unmarshal chain c headers unixNow) [0..<length headers])"

section \<open>Bodies\<close>

definition VerifyUncles :: "ChainBlock \<Rightarrow> engine_error option" where
  "VerifyUncles block = (if length (cb_uncles block) > 0 then Some ErrUncles else None)"

definition verifyBehaviorProof :: "ChainReader \<Rightarrow> BehaviorProof \<Rightarrow> bool \<Rightarrow> engine_error option" where
  "verifyBehaviorProof chain answer isBeforeUnclePowFix =
     (let header = (if isBeforeUnclePowFix then ch_GetHeaderByNumber chain (big_uint64 (bp_Number answer))
                    else ch_GetHeader chain (bp_BlockHash answer) (big_uint64 (bp_Number answer)))
      in if header = None then Some ErrProofHeader else None)"

fun first_bad_proof :: "ChainReader \<Rightarrow> bool \<Rightarrow> BehaviorProof list \<Rightarrow> engine_error option" where
  "first_bad_proof chain early [] = None"
| "first_bad_proof chain early (a # rest) =
     (case verifyBehaviorProof chain a early of Some e \<Rightarrow> Some e | None \<Rightarrow> first_bad_proof chain early rest)"

definition VerifyUncleBehaviorProofs :: "ChainReader \<Rightarrow> ChainBlock \<Rightarrow> engine_error option" where
  "VerifyUncleBehaviorProofs chain block =
     first_bad_proof chain (\<not> IsShenzhen (ch_Config chain) (Some (h_Number (cb_header block)))) (cb_proofUncles block)"

definition VerifyValidatorInfo :: "Crypto \<Rightarrow> (bytes \<Rightarrow> bytes option) \<Rightarrow> (hash \<Rightarrow> u64 \<Rightarrow> Header option) \<Rightarrow> ChainBlock \<Rightarrow> BlockChain \<Rightarrow>
    panic + engine_error option \<times> BlockChain" where
  "VerifyValidatorInfo cy unmarshal getBlock block bc =
     (let header = cb_header block;
          isVisual = IsVisual header
      in bindE (CheckIsProducerAccount (big_uint64 (h_Number header)) (h_ValidatorAddr header) bc) (\<lambda>(isProducer, bc).
           if (isProducer \<and> isVisual) \<or> (\<not> isProducer \<and> \<not> isVisual) then Inr (Some ErrVisual, bc)
           else bindE (CheckAcks cy unmarshal getBlock block bc) (\<lambda>(legal, bc).
             Inr (if \<not> legal then Some ErrAcks else None, bc))))"

section \<open>Snapshots\<close>

definition json_map :: "('k, 'v) gomap \<Rightarrow> ('k, 'v) gomap" where
  "json_map m = (if entries m = [] then NilMap else m)"

definition json_trip :: "PobConfig \<Rightarrow> PobSnapshot \<Rightarrow> PobSnapshot" where
  "json_trip config s = s
     \<lparr>sn_config := config, sn_SmartLights := json_map (sn_SmartLights s), sn_SLHistories := json_map (sn_SLHistories s),
      sn_SLPubKeys := json_map (sn_SLPubKeys s), sn_Agents := json_map (sn_Agents s),
      sn_AgentHistories := json_map (sn_AgentHistories s), sn_AgentPubKeys := json_map (sn_AgentPubKeys s),
      sn_RelayInfos := json_map (sn_RelayInfos s), sn_PhysicalNodes := json_map (sn_PhysicalNodes s),
      sn_PhysicalHistories := json_map (sn_PhysicalHistories s)\<rparr>"

definition store :: "PobSnapshot \<Rightarrow> ProofOfBehavior \<Rightarrow> ProofOfBehavior" where
  "store s c = c\<lparr>pe_db := AList.update (sn_Hash s) s (pe_db c)\<rparr>"

definition loadSnapshot :: "hash \<Rightarrow> ProofOfBehavior \<Rightarrow> PobSnapshot option" where
  "loadSnapshot hash c = map_option (json_trip (pe_pobConfig c)) (map_of (pe_db c) hash)"

text \<open>
  The loop that looks for a snapshot to start from, collecting the headers above it, newest first.
\<close>

function find_snapshot :: "(bytes \<Rightarrow> hash) \<Rightarrow> ChainReader \<Rightarrow> u64 \<Rightarrow> hash \<Rightarrow> Header list \<Rightarrow> Header list \<Rightarrow> ProofOfBehavior \<Rightarrow>
    engine_error + PobSnapshot \<times> Header list \<times> ProofOfBehavior" where
  "find_snapshot keccak chain number hash parents headers c =
     (case map_of (pe_recents c) hash of
        Some s \<Rightarrow> Inr (s, headers, c)
      | None \<Rightarrow>
          case (if number mod checkpointInterval = 0 then loadSnapshot hash c else None) of
            Some s \<Rightarrow> Inr (s, headers, c)
          | None \<Rightarrow>
              if number = 0 then
                (case ch_GetHeaderByNumber chain 0 of
                   None \<Rightarrow> Inl ErrUnknownBlock
                 | Some genesis \<Rightarrow>
                     let snap = newSnapshot (pe_pobConfig c) 0 (Header_Hash keccak genesis)
                                  (map v_Owner (pob_ValidatorList (pe_pobConfig c)))
                     in Inr (snap, headers, store snap c))
              else
                case (if parents \<noteq> [] then
                        (if Header_Hash keccak (last parents) \<noteq> hash \<or> big_uint64 (h_Number (last parents)) \<noteq> number then None
                         else Some (last parents))
                      else ch_GetHeader chain hash number) of
                  None \<Rightarrow> Inl ErrUnknownAncestor
                | Some header \<Rightarrow>
                    find_snapshot keccak chain (number - 1) (h_ParentHash header) (butlast parents) (headers @ [header]) c)"
  by pat_completeness auto
termination
  by (relation "measure (\<lambda>(k, ch, n, h, ps, hs, c). unat n)") (auto simp: measure_unat)

declare find_snapshot.simps [simp del]

definition snapshot :: "(bytes \<Rightarrow> hash) \<Rightarrow> ChainReader \<Rightarrow> u64 \<Rightarrow> hash \<Rightarrow> Header list \<Rightarrow> ProofOfBehavior \<Rightarrow>
    engine_error + PobSnapshot \<times> ProofOfBehavior" where
  "snapshot keccak chain number hash parents c =
     bindE (find_snapshot keccak chain number hash parents [] c) (\<lambda>(snap, headers, c).
       case apply_snapshot (Header_Hash keccak) (rev headers) snap of
         Inl e \<Rightarrow> Inl (ErrSnapshot e)
       | Inr snap \<Rightarrow>
           let c = c\<lparr>pe_recents := AList.update (sn_Hash snap) snap (pe_recents c)\<rparr>
           in Inr (snap, if sn_Number snap mod checkpointInterval = 0 \<and> length headers > 0 then store snap c else c))"

section \<open>Producing\<close>

definition AddPendingRegistration :: "address \<Rightarrow> u8 \<Rightarrow> ProofOfBehavior \<Rightarrow> ProofOfBehavior" where
  "AddPendingRegistration addr nodeType c =
     c\<lparr>pe_pendingRegistrations := pe_pendingRegistrations c @ [\<lparr>tr_Address = addr, tr_NodeType = nodeType\<rparr>]\<rparr>"

definition DrainPendingRegistrations :: "ProofOfBehavior \<Rightarrow> TestnetRegistration list \<times> ProofOfBehavior" where
  "DrainPendingRegistrations c = (pe_pendingRegistrations c, c\<lparr>pe_pendingRegistrations := []\<rparr>)"

definition pick_vote :: "(bytes \<Rightarrow> hash) \<Rightarrow> ChainReader \<Rightarrow> u64 \<Rightarrow> Header \<Rightarrow> ProofOfBehavior \<Rightarrow> Header \<times> ProofOfBehavior" where
  "pick_vote keccak chain number header c =
     (case ch_GetHeaderByNumber chain (number - 1) of
        None \<Rightarrow> (header, c)
      | Some parent \<Rightarrow>
          (case snapshot keccak chain (number - 1) (Header_Hash keccak parent) [] c of
             Inl e \<Rightarrow> (header, c)
           | Inr (snap, c) \<Rightarrow>
               let addresses = map fst (filter (\<lambda>(address, authorize). validVote snap address authorize) (pe_proposals c))
               in if length addresses > 0 then
                    (let coinbase = addresses ! unat (number mod of_nat (length addresses))
                     in (header\<lparr>h_Coinbase := coinbase,
                                h_Nonce := (if map_of (pe_proposals c) coinbase = Some True then nonceAuthVote else nonceDropVote)\<rparr>, c))
                  else (header, c)))"

definition Prepare :: "(bytes \<Rightarrow> hash) \<Rightarrow> ChainReader \<Rightarrow> Header \<Rightarrow> ProofOfBehavior \<Rightarrow> panic + Header \<times> ProofOfBehavior" where
  "Prepare keccak chain header c =
     (if pob_Epoch (pe_pobConfig c) = 0 then Inl PanicDivide
      else
        let number = big_uint64 (h_Number header);
            checkpoint = (number mod pob_Epoch (pe_pobConfig c) = 0);
            header = header\<lparr>h_Coinbase := 0, h_Nonce := 0\<rparr>;
            (header, c) = (if \<not> checkpoint then pick_vote keccak chain number header c else (header, c));
            extra = take extraVanity (h_Extra header @ replicate (extraVanity - length (h_Extra header)) 0);
            (extra, c) = (if \<not> checkpoint then
                            (let (regs, c) = DrainPendingRegistrations c
                             in (if length regs > 0 then extra @ encodeRegistrations regs else extra, c))
                          else (extra, c))
        in Inr (header\<lparr>h_Extra := extra @ replicate extraSeal 0\<rparr>, c))"

definition Authorize :: "address \<Rightarrow> (address \<Rightarrow> bytes \<Rightarrow> bytes option) \<Rightarrow> ProofOfBehavior \<Rightarrow> ProofOfBehavior" where
  "Authorize signer signFn c = c\<lparr>pe_signer := signer, pe_signFn := Some signFn\<rparr>"

definition Seal :: "Header \<Rightarrow> ProofOfBehavior \<Rightarrow> engine_error + Header" where
  "Seal header c =
     (if big_uint64 (h_Number header) = 0 then Inl ErrUnknownBlock
      else case pe_signFn c of
             None \<Rightarrow> Inl ErrNotAuthorized
           | Some signFn \<Rightarrow>
               (case PobRLP header of
                  Inl p \<Rightarrow> Inl (EnginePanic p)
                | Inr b \<Rightarrow>
                    (case signFn (pe_signer c) b of
                       None \<Rightarrow> Inl ErrSign
                     | Some sighash \<Rightarrow> Inr (SetValidatorSig header sighash))))"

definition AckSig :: "Ack \<Rightarrow> ProofOfBehavior \<Rightarrow> engine_error + bytes" where
  "AckSig ack c =
     (case pe_signFn c of
        None \<Rightarrow> Inl ErrNotAuthorized
      | Some signFn \<Rightarrow>
          (case PobAckRLP ack of
             Inl p \<Rightarrow> Inl (EnginePanic p)
           | Inr b \<Rightarrow> (case signFn (pe_signer c) b of None \<Rightarrow> Inl ErrSign | Some sighash \<Rightarrow> Inr sighash)))"

definition CalcDifficulty :: int where
  "CalcDifficulty = diffNoTurn"

definition calcDifficulty :: "(bytes \<Rightarrow> hash) \<Rightarrow> PobSnapshot \<Rightarrow> address \<Rightarrow> int" where
  "calcDifficulty keccak snap validator =
     (if inturn keccak snap (sn_Number snap + 1) (sn_Hash snap) validator then diffInTurn else diffNoTurn)"

text \<open>
  The header of new work: \<open>now\<close> is the clock in seconds, \<open>atomicNow\<close> the seconds and nanoseconds read a
  little later for the time stamp.
\<close>

record work_config =
  wk_coinbase :: address
  wk_extra :: bytes
  wk_GasFloor :: u64
  wk_GasCeil :: u64

definition work_time :: "ChainConfig \<Rightarrow> int \<Rightarrow> Header \<Rightarrow> u64 \<Rightarrow> u64" where
  "work_time config number parent now =
     (if IsStellarSpeed config (Some number) then (if h_Time parent > now then h_Time parent else now)
      else (if h_Time parent \<ge> now then h_Time parent + 1 else now))"

definition work_header :: "(bytes \<Rightarrow> hash) \<Rightarrow> ChainConfig \<Rightarrow> work_config \<Rightarrow> Header \<Rightarrow> Header \<Rightarrow> int \<Rightarrow> bool \<Rightarrow> u64 \<Rightarrow> u64 \<times> u32 \<Rightarrow> ProofOfBehavior \<Rightarrow>
    panic + Header \<times> ProofOfBehavior" where
  "work_header keccak config w parent realParent newBlockNumber visual now atomicNow c =
     (let (regs, c) = (if visual then ([], c) else DrainPendingRegistrations c);
          extra = (if visual then hash_bytes VisualBlockExtra
                   else if length regs > 0 then InjectRegistrations (wk_extra w) regs else wk_extra w)
      in bindE (if IsLondon config (Some newBlockNumber)
                then bindE (CalcBaseFee config parent) (\<lambda>f. Inr (Some f)) else Inr None) (\<lambda>baseFee.
           Inr (\<lparr>h_ValidatorAddr = wk_coinbase w, h_ValidatorSig = [], h_AckCountList = [], h_AcksHash = 0,
                 h_BehaviorProofs = [], h_ParentHash = Header_Hash keccak parent, h_UncleHash = 0, h_Coinbase = 0,
                 h_Root = 0, h_TxHash = 0, h_ReceiptHash = 0, h_Bloom = 0, h_Difficulty = Some CalcDifficulty,
                 h_Number = newBlockNumber,
                 h_GasLimit = CalcGasLimit (h_GasUsed realParent) (h_GasLimit realParent) (wk_GasFloor w) (wk_GasCeil w),
                 h_GasUsed = 0, h_Time = work_time config newBlockNumber parent now, h_Extra = extra,
                 h_MixDigest = 0, h_Nonce = 0, h_BaseFee = baseFee,
                 h_AtomicTime = Some (at_Encode (at_Now (fst atomicNow) (snd atomicNow) ClockSourceSystem))\<rparr>, c)))"

end
