(* ===== verification/EngineProps.thy ===== *)
theory EngineProps
  imports Engine SnapshotProps
begin

text \<open>
  What header verification and block production guarantee: the search for the real parent ends and
  finds the nearest ancestor that is not visual; a header produced and sealed by an honest node is
  accepted by the others; along every chain of accepted headers the gas limit, the base fee, the times
  and the numbers stay in order; and two cases in which the signature check does not protect.
\<close>

section \<open>Real parents\<close>

text \<open>A header store answers with headers of the number asked for, and none has the number 2^64 - 1.\<close>

definition store_ok :: "ChainReader \<Rightarrow> bool" where
  "store_ok chain \<longleftrightarrow>
     (\<forall>h n p. ch_GetHeader chain h n = Some p \<longrightarrow> big_uint64 (h_Number p) = n) \<and>
     (\<forall>h. ch_GetHeader chain h (- 1) = None)"

fun ancestor :: "ChainReader \<Rightarrow> Header \<Rightarrow> nat \<Rightarrow> Header option" where
  "ancestor chain h 0 = Some h"
| "ancestor chain h (Suc k) =
     (case ch_GetHeader chain (h_ParentHash h) (big_uint64 (h_Number h) - 1) of
        None \<Rightarrow> None
      | Some p \<Rightarrow> ancestor chain p k)"

text \<open>The first \<open>k\<close> ancestors are visual blocks.\<close>

definition visual_up_to :: "ChainReader \<Rightarrow> Header \<Rightarrow> nat \<Rightarrow> bool" where
  "visual_up_to chain h k \<longleftrightarrow> (\<forall>j < k. \<exists>q. ancestor chain h (Suc j) = Some q \<and> IsVisual q)"

definition real_parent :: "ChainReader \<Rightarrow> Header \<Rightarrow> int \<Rightarrow> (engine_error + Header) \<times> int \<Rightarrow> bool" where
  "real_parent chain h d r \<longleftrightarrow>
     (\<exists>k. snd r = d + int k \<and> visual_up_to chain h k \<and>
        (case fst r of
           Inr p \<Rightarrow> ancestor chain h (Suc k) = Some p \<and> \<not> IsVisual p
         | Inl e \<Rightarrow> e = ErrUnknownAncestor \<and> ancestor chain h (Suc k) = None))"

lemma real_parent_step:
  assumes "ch_GetHeader chain (h_ParentHash h) (big_uint64 (h_Number h) - 1) = Some p" and "IsVisual p"
    and "real_parent chain p (d + 1) r"
  shows "real_parent chain h d r"
proof -
  obtain k where k: "snd r = d + 1 + int k" "visual_up_to chain p k"
      "case fst r of Inr q \<Rightarrow> ancestor chain p (Suc k) = Some q \<and> \<not> IsVisual q
         | Inl e \<Rightarrow> e = ErrUnknownAncestor \<and> ancestor chain p (Suc k) = None"
    using assms(3) by (auto simp: real_parent_def)
  have a: "ancestor chain h (Suc (Suc j)) = ancestor chain p (Suc j)" "ancestor chain h (Suc 0) = Some p" for j
    using assms(1) by simp_all
  have "visual_up_to chain h (Suc k)"
    unfolding visual_up_to_def
  proof (intro allI impI)
    fix j assume "j < Suc k"
    then show "\<exists>q. ancestor chain h (Suc j) = Some q \<and> IsVisual q"
      using k(2) assms(2) a by (cases j) (auto simp: visual_up_to_def simp del: ancestor.simps(2))
  qed
  then show ?thesis using k a unfolding real_parent_def by (intro exI [of _ "Suc k"]) (simp split: sum.splits del: ancestor.simps(2))
qed

lemma FindRealParentHeader_total:
  assumes "store_ok chain"
  shows "\<exists>r. FindRealParentHeader keccak chain [] (- 1) h d = Some (Inr r) \<and> real_parent chain h d r"
proof (induction "unat (big_uint64 (h_Number h))" arbitrary: h d rule: less_induct)
  case less
  let ?get = "ch_GetHeader chain (h_ParentHash h) (big_uint64 (h_Number h) - 1)"
  note unfold = FindRealParentHeader.simps [of keccak chain "[]" "- 1" h d]
  show ?case
  proof (cases ?get)
    case None
    then have "FindRealParentHeader keccak chain [] (- 1) h d = Some (Inr (Inl ErrUnknownAncestor, d))" using unfold by simp
    moreover have "real_parent chain h d (Inl ErrUnknownAncestor, d)"
      using None unfolding real_parent_def by (intro exI [of _ 0]) (simp add: visual_up_to_def)
    ultimately show ?thesis by blast
  next
    case (Some p)
    show ?thesis
    proof (cases "IsVisual p")
      case False
      then have "FindRealParentHeader keccak chain [] (- 1) h d = Some (Inr (Inr p, d))" using unfold Some by simp
      moreover have "real_parent chain h d (Inr p, d)"
        using Some False unfolding real_parent_def by (intro exI [of _ 0]) (simp add: visual_up_to_def)
      ultimately show ?thesis by blast
    next
      case True
      have num: "big_uint64 (h_Number p) = big_uint64 (h_Number h) - 1" using assms Some by (auto simp: store_ok_def)
      have "big_uint64 (h_Number h) \<noteq> 0" using assms Some by (auto simp: store_ok_def)
      then have "unat (big_uint64 (h_Number p)) < unat (big_uint64 (h_Number h))" using num by (simp add: measure_unat)
      from less.hyps [OF this, of "d + 1"] obtain r where
        r: "FindRealParentHeader keccak chain [] (- 1) p (d + 1) = Some (Inr r)" "real_parent chain p (d + 1) r" by blast
      have "FindRealParentHeader keccak chain [] (- 1) h d = Some (Inr r)" using unfold Some True r(1) by simp
      then show ?thesis using real_parent_step [OF Some True r(2)] by blast
    qed
  qed
qed

section \<open>Accepted headers\<close>

text \<open>The rules an accepted header obeys.\<close>

lemma verifyHeader_rules:
  assumes "verifyHeader cy unmarshal chain c header parent uncle unixNow diff = Inr None"
  shows "RecoverOwner cy unmarshal header = Inr (h_ValidatorAddr header, False)"
    "check_extra (pe_pobConfig c) header = Inr None" "check_time (ch_Config chain) header parent uncle unixNow = None"
    "check_gas (ch_Config chain) header parent = Inr None" "h_Number header = h_Number parent + diff"
    "check_atomic_time header = None"
  using assms by (auto simp: verifyHeader_def bindE_Inr_iff split: if_splits option.splits)

lemma gas_cap: "\<not> (g :: u64) > 0x7fffffffffffffff \<Longrightarrow> uint g < 2 ^ 63"
  by (simp add: word_less_def not_less)

definition header_inv :: "Header \<Rightarrow> bool" where
  "header_inv h \<longleftrightarrow> 5000 \<le> uint (h_GasLimit h) \<and> uint (h_GasLimit h) < 2 ^ 63 \<and> h_GasUsed h \<le> h_GasLimit h \<and>
     (\<exists>f. h_BaseFee h = Some f \<and> 1000000000 \<le> f)"

lemma London_mono: "IsLondon config (Some m) \<Longrightarrow> m \<le> n \<Longrightarrow> IsLondon config (Some n)"
  by (auto simp: IsLondon_def isForked_def split: option.splits)

lemma accepted_gas:
  assumes "check_gas config header parent = Inr None" and "header_inv parent"
    and "IsLondon config (Some (h_Number parent))" and "h_Number parent \<le> h_Number header"
  shows "header_inv header \<and> \<bar>uint (h_GasLimit header) - uint (h_GasLimit parent)\<bar> < uint (h_GasLimit parent) div 1024 \<and>
    CalcBaseFee config parent = Inr (the (h_BaseFee header))"
proof -
  have L: "IsLondon config (Some (h_Number header))" using London_mono [OF assms(3,4)] .
  have cap: "uint (h_GasLimit header) < 2 ^ 63" and used: "h_GasUsed header \<le> h_GasLimit header"
    using assms(1) gas_cap by (auto simp: check_gas_def split: if_splits)
  have "VerifyEip1559Header config parent header = Inr None"
    using assms(1) L by (auto simp: check_gas_def bindE_Inr_iff split: if_splits)
  then obtain f where f: "VerifyGaslimit (h_GasLimit parent) (h_GasLimit header) = None" "h_BaseFee header = Some f"
      "CalcBaseFee config parent = Inr f"
    using assms(3) by (auto simp: VerifyEip1559Header_def Let_def bindE_Inr_iff split: option.splits if_splits)
  obtain g where g: "h_BaseFee parent = Some g" "1000000000 \<le> g" using assms(2) by (auto simp: header_inv_def)
  have p: "uint (h_GasLimit parent) < 2 ^ 63" "h_GasUsed parent \<le> h_GasLimit parent" "2 \<le> h_GasLimit parent"
    using assms(2) by (auto simp: header_inv_def word_le_def)
  have "1000000000 \<le> f" using CalcBaseFee_step [OF assms(3) g p(2,3)] f(3) by auto
  moreover have "\<bar>uint (h_GasLimit parent) - uint (h_GasLimit header)\<bar> < uint (h_GasLimit parent) div 1024" "5000 \<le> uint (h_GasLimit header)"
    using VerifyGaslimit_exact [OF p(1) cap] f(1) by auto
  ultimately show ?thesis using cap used f(2,3) by (simp add: header_inv_def abs_minus_commute)
qed

inductive accepted :: "Crypto \<Rightarrow> (bytes \<Rightarrow> bytes option) \<Rightarrow> ChainReader \<Rightarrow> ProofOfBehavior \<Rightarrow> Header \<Rightarrow> Header \<Rightarrow> bool"
  for cy unmarshal chain c genesis where
  genesis: "accepted cy unmarshal chain c genesis genesis"
| step: "accepted cy unmarshal chain c genesis parent \<Longrightarrow>
     verifyHeader cy unmarshal chain c header parent uncle unixNow diff = Inr None \<Longrightarrow> 1 \<le> diff \<Longrightarrow>
     accepted cy unmarshal chain c genesis header"

lemma accepted_inv:
  assumes "accepted cy unmarshal chain c genesis header" and "header_inv genesis"
    and "IsLondon (ch_Config chain) (Some (h_Number genesis))"
  shows "header_inv header \<and> h_Time genesis \<le> h_Time header \<and> h_Number genesis \<le> h_Number header"
  using assms
proof (induction rule: accepted.induct)
  case genesis
  then show ?case by simp
next
  case (step parent header uncle unixNow diff)
  note rules = verifyHeader_rules [OF step.hyps(2)]
  have IH: "header_inv parent" "h_Time genesis \<le> h_Time parent" "h_Number genesis \<le> h_Number parent" using step by auto
  have le: "h_Number parent \<le> h_Number header" using rules(5) step.hyps(3) by simp
  have "h_Time parent \<le> h_Time header" using rules(3) by (auto simp: check_time_def Let_def not_less split: if_splits)
  then show ?case
    using IH le accepted_gas [OF rules(4) IH(1) London_mono [OF step.prems(2) IH(3)] le] by auto
qed

section \<open>Produced headers\<close>

text \<open>
  The signing function of an account: what it signs, the recovery of the key finds, with the account's
  address. The Dilithium form of a signature is told apart by its length.
\<close>

definition signs_for :: "Crypto \<Rightarrow> (bytes \<Rightarrow> bytes option) \<Rightarrow> (address \<Rightarrow> bytes \<Rightarrow> bytes option) \<Rightarrow> address \<Rightarrow> bool" where
  "signs_for cy unmarshal signFn a \<longleftrightarrow>
     (\<forall>b sig. signFn a b = Some sig \<longrightarrow>
        length sig \<noteq> dilithium_PublicKeySize + dilithium_SignatureSize \<and>
        (\<exists>pubkey key. cy_ecrecover cy (hash_bytes (cy_keccak cy b)) sig = Some pubkey \<and>
           unmarshal pubkey = Some key \<and> PubkeyToAddress cy key = a))"

text \<open>Completing the work fills in what executing the block and collecting the acks gave.\<close>

definition completes :: "Header \<Rightarrow> Header \<Rightarrow> bool" where
  "completes header h \<longleftrightarrow>
     (\<exists>acks acksHash proofs uncleHash root txHash receiptHash bloom used.
        h = header\<lparr>h_AckCountList := acks, h_AcksHash := acksHash, h_BehaviorProofs := proofs, h_UncleHash := uncleHash,
                   h_Root := root, h_TxHash := txHash, h_ReceiptHash := receiptHash, h_Bloom := bloom, h_GasUsed := used\<rparr> \<and>
        used \<le> h_GasLimit header)"

lemma PobRLP_sig [simp]: "PobRLP (h\<lparr>h_ValidatorSig := sig\<rparr>) = PobRLP h"
  by (simp add: PobRLP_def encodeSigHeader_def sig_header_values_def)

lemma sealed_owner:
  assumes "Seal header c = Inr sealed" and "pe_signFn c = Some signFn" and "signs_for cy unmarshal signFn (pe_signer c)"
    and "h_ValidatorSig header = []"
  shows "\<exists>sig. sealed = header\<lparr>h_ValidatorSig := sig\<rparr> \<and> RecoverOwner cy unmarshal sealed = Inr (pe_signer c, False)"
proof -
  obtain b sig where b: "PobRLP header = Inr b" "signFn (pe_signer c) b = Some sig" "sealed = header\<lparr>h_ValidatorSig := sig\<rparr>"
    using assms(1,2,4) by (auto simp: Seal_def SetValidatorSig_def split: if_splits sum.splits option.splits)
  then show ?thesis using assms(3) by (fastforce simp: RecoverOwner_def signs_for_def)
qed

lemma short_extra: "pob_Epoch config \<noteq> 0 \<Longrightarrow> length (h_Extra header) \<le> extraVanity + extraSeal \<Longrightarrow> check_extra config header = Inr None"
  by (simp add: check_extra_def Let_def)

lemma honest_extra:
  assumes "length extra \<le> extraVanity + extraSeal" and "\<forall>r \<in> set regs. valid_reg r"
    and "pob_Epoch config \<noteq> 0"
    and "h_Extra header = (if visual then hash_bytes VisualBlockExtra
                           else if length regs > 0 then InjectRegistrations extra regs else extra)"
  shows "check_extra config header = Inr None"
proof (cases "visual \<or> regs = []")
  case True
  then show ?thesis using assms by (intro short_extra) (auto simp: extraVanity_def extraSeal_def split: if_splits)
next
  case False
  then have "isValidRegistrationData (reg_data (h_Extra header))"
    using reg_data_Inject [of regs extra] decode_encodeRegistrations [OF assms(2)] assms(4)
    by (simp add: isValidRegistrationData_def)
  then show ?thesis using assms(3) by (simp add: check_extra_def Let_def reg_data_def drop_take add.commute)
qed

lemma honest_time:
  assumes "uint (h_Time realParent) \<le> uint (h_Time parent)" and "uint (h_Time parent) \<le> uint now" and "uint now \<le> uint unixNow" and "uint unixNow < 2 ^ 62"
    and "h_Time header = work_time config (h_Number header) parent now"
  shows "check_time config header realParent False unixNow = None" and "uint now \<le> uint (h_Time header)"
    and "uint (h_Time header) \<le> uint now + 1"
proof -
  have n1: "uint (h_Time parent + 1) = uint (h_Time parent) + 1"
    using assms(2,3,4) by (simp add: uint_word_ariths mod_pos_pos_trivial)
  have lim: "uint (unixNow + k) = uint unixNow + uint k" if "uint k \<le> 15" for k :: u64
    using assms(4) that by (simp add: uint_word_ariths mod_pos_pos_trivial)
  have lims: "uint (unixNow + 15) = uint unixNow + 15" "uint (unixNow + 1) = uint unixNow + 1"
    using lim [of 15] lim [of 1] by simp_all
  show "uint now \<le> uint (h_Time header)" "uint (h_Time header) \<le> uint now + 1"
    using assms n1 by (auto simp: work_time_def word_le_def word_less_def)
  show "check_time config header realParent False unixNow = None"
    using assms n1 lims
    by (auto simp: check_time_def work_time_def word_le_def word_less_def Let_def allowedFutureBlockTimeSeconds_def
        allowedFutureBlockTimeSecondsStellar_def word_uint_eq_iff)
qed

text \<open>
  The verdict on the gas fields: the producer takes the gas limit from the real parent, as the check does,
  but does not double it in the first London block, and takes the base fee from the direct parent.
\<close>

definition produced_verdict :: "ChainConfig \<Rightarrow> Header \<Rightarrow> Header \<Rightarrow> int \<Rightarrow> engine_error option" where
  "produced_verdict config parent realParent n =
     (if \<not> IsLondon config (Some n) then None
      else if \<not> IsLondon config (Some (h_Number realParent)) then Some (ErrGas GasLimitBound)
      else if CalcBaseFee config parent \<noteq> CalcBaseFee config realParent then Some (ErrGas WrongBaseFee)
      else None)"

lemma doubled_limit:
  assumes "8192 \<le> uint p" and "uint p < 2 ^ 62" and "\<bar>uint p - uint g\<bar> < uint p div 1024"
  shows "VerifyGaslimit (p * ElasticityMultiplier) g = Some GasLimitBound"
proof -
  have d: "uint (p * ElasticityMultiplier) = 2 * uint p"
    using assms(2) by (simp add: ElasticityMultiplier_def uint_word_ariths mod_pos_pos_trivial)
  have "uint p div 1024 \<le> uint p div 4" by (rule zdiv_mono2) simp_all
  then have u: "uint g \<le> uint p + uint p div 4" "uint p - uint p div 4 \<le> uint g" using assms(3) by linarith+
  then have le: "g \<le> p * ElasticityMultiplier" using d by (simp add: word_le_def)
  then have diff: "uint (p * ElasticityMultiplier - g) = 2 * uint p - uint g" using d by (simp add: uint_minus_simple_alt)
  moreover have "2 * uint p - uint g < 2 ^ 63" by (rule le_less_trans [of _ "2 * uint p"]) (use assms(2) in simp_all)
  ultimately have "sint (p * ElasticityMultiplier - g) = 2 * uint p - uint g" by (subst sint_small) simp_all
  moreover have "p * ElasticityMultiplier - g \<ge> p * ElasticityMultiplier div GasLimitBoundDivisor"
    using d diff u by (simp add: word_le_def uint_div GasLimitBoundDivisor_def)
  moreover have "\<not> 2 * uint p < uint g" using le d by (simp add: word_le_def)
  ultimately show ?thesis by (simp add: VerifyGaslimit_def Let_def)
qed

lemma honest_gas:
  assumes "8192 \<le> uint (h_GasLimit realParent)" and "uint (h_GasLimit realParent) < 2 ^ 62"
    and "h_GasUsed realParent \<le> h_GasLimit realParent"
    and "IsLondon config (Some (h_Number realParent)) \<longrightarrow> (\<exists>f. CalcBaseFee config realParent = Inr f)"
    and "h_GasLimit header = CalcGasLimit (h_GasUsed realParent) (h_GasLimit realParent) gasFloor gasCeil"
    and "h_GasUsed header \<le> h_GasLimit header"
    and "if IsLondon config (Some (h_Number header)) then \<exists>f. CalcBaseFee config parent = Inr f \<and> h_BaseFee header = Some f
         else h_BaseFee header = None"
  shows "check_gas config header realParent = Inr (produced_verdict config parent realParent (h_Number header))"
proof -
  note r = CalcGasLimit_range [OF assms(1,2) assms(3) [unfolded word_le_def], of gasFloor gasCeil, folded assms(5)]
  have "\<not> h_GasLimit header > 0x7fffffffffffffff" using r(3) by (simp add: word_less_def not_less)
  moreover have "VerifyGaslimit (h_GasLimit realParent) (h_GasLimit header) = None"
    using VerifyGaslimit_exact r assms(2) by force
  moreover note doubled_limit [OF assms(1,2) r(1)]
  ultimately show ?thesis
    using assms(4,6,7) by (auto simp: check_gas_def VerifyEip1559Header_def produced_verdict_def Let_def split: if_splits)
qed

lemma honest_atomic_time:
  assumes "h_AtomicTime header = Some (at_Encode (at_Now (fst at) (snd at) source))"
    and "\<bar>uint (fst at) - uint (h_Time header)\<bar> \<le> 60"
  shows "check_atomic_time header = None"
proof -
  have close: "\<not> sint (if sint (a - t) < 0 then - (a - t) else a - t) > 60" if d: "\<bar>uint a - uint t\<bar> \<le> 60" for a t :: u64
  proof (cases "t \<le> a")
    case True
    then have "uint (a - t) = uint a - uint t" by (simp add: uint_minus_simple_alt)
    moreover have "uint a - uint t < 2 ^ 63" by (rule le_less_trans [of _ 60]) (use d in simp_all)
    ultimately have "sint (a - t) = uint a - uint t" by (subst sint_small) simp_all
    then show ?thesis using d True by (simp add: word_le_def)
  next
    case False
    then have u: "uint (t - a) = uint t - uint a" using linear uint_minus_simple_alt by blast
    have "uint t - uint a < 2 ^ 63" by (rule le_less_trans [of _ 60]) (use d in simp_all)
    then have "sint (t - a) = uint t - uint a" "sint (- (t - a)) = - (uint t - uint a)"
      using u False [unfolded word_le_def] by (simp_all add: sint_small sint_neg_small del: minus_diff_eq)
    then show ?thesis using d False by (simp add: word_le_def)
  qed
  show ?thesis using assms close [of "fst at" "h_Time header"] by (simp add: check_atomic_time_def at_Now_def Let_def)
qed

lemma work_header_fields:
  assumes "work_header keccak config w parent realParent n visual now at c = Inr (header, c')"
  shows "h_ValidatorAddr header = wk_coinbase w" "h_ValidatorSig header = []" "h_Difficulty header = Some 1"
    "h_Number header = n"
    "h_GasLimit header = CalcGasLimit (h_GasUsed realParent) (h_GasLimit realParent) (wk_GasFloor w) (wk_GasCeil w)"
    "h_Time header = work_time config n parent now"
    "h_Extra header = (if visual then hash_bytes VisualBlockExtra
                       else if length (pe_pendingRegistrations c) > 0 then InjectRegistrations (wk_extra w) (pe_pendingRegistrations c)
                       else wk_extra w)"
    "if IsLondon config (Some n) then \<exists>f. CalcBaseFee config parent = Inr f \<and> h_BaseFee header = Some f else h_BaseFee header = None"
    "h_AtomicTime header = Some (at_Encode (at_Now (fst at) (snd at) ClockSourceSystem))"
    "pe_signer c' = pe_signer c" "pe_signFn c' = pe_signFn c"
  using assms
  by (auto simp: work_header_def bindE_Inr_iff DrainPendingRegistrations_def CalcDifficulty_def diffNoTurn_def Let_def split: if_splits)

lemma CalcBaseFee_total:
  assumes "IsLondon config (Some (h_Number parent)) \<longrightarrow> header_inv parent"
  shows "\<exists>f. CalcBaseFee config parent = Inr f"
proof (cases "IsLondon config (Some (h_Number parent))")
  case True
  then obtain g where g: "h_BaseFee parent = Some g" "1000000000 \<le> g" using assms by (auto simp: header_inv_def)
  have "h_GasUsed parent \<le> h_GasLimit parent" "2 \<le> h_GasLimit parent"
    using assms True by (auto simp: header_inv_def word_le_def)
  then show ?thesis using CalcBaseFee_step [OF True g] by auto
qed (simp add: CalcBaseFee_def)

lemma work_header_total:
  assumes "IsLondon config (Some (h_Number parent)) \<longrightarrow> header_inv parent"
  shows "\<exists>header c'. work_header keccak config w parent realParent n visual now at c = Inr (header, c')"
  using CalcBaseFee_total [OF assms] by (auto simp: work_header_def Let_def split: prod.split)

lemma completes_fields:
  assumes "completes header h"
  shows "h_ValidatorAddr h = h_ValidatorAddr header" "h_ValidatorSig h = h_ValidatorSig header" "h_Difficulty h = h_Difficulty header"
    "h_Number h = h_Number header" "h_GasLimit h = h_GasLimit header" "h_Time h = h_Time header" "h_Extra h = h_Extra header"
    "h_BaseFee h = h_BaseFee header" "h_AtomicTime h = h_AtomicTime header" "h_GasUsed h \<le> h_GasLimit h"
  using assms by (auto simp: completes_def)

text \<open>
  The circumstances in which a node produces the block after \<open>parent\<close>, whose nearest ancestor that is no
  visual block is \<open>realParent\<close>, and another node verifies it.
\<close>

definition honest_setting :: "ChainConfig \<Rightarrow> work_config \<Rightarrow> Header \<Rightarrow> Header \<Rightarrow> u64 \<Rightarrow> u64 \<times> u32 \<Rightarrow> u64 \<Rightarrow> ProofOfBehavior \<Rightarrow> bool" where
  "honest_setting config w parent realParent now at unixNow c \<longleftrightarrow>
     (IsLondon config (Some (h_Number parent)) \<longrightarrow> header_inv parent) \<and>
     (IsLondon config (Some (h_Number realParent)) \<longrightarrow> header_inv realParent) \<and>
     h_GasUsed realParent \<le> h_GasLimit realParent \<and>
     8192 \<le> uint (h_GasLimit realParent) \<and> uint (h_GasLimit realParent) < 2 ^ 62 \<and>
     uint (h_Time realParent) \<le> uint (h_Time parent) \<and> uint (h_Time parent) \<le> uint now \<and>
     uint now \<le> uint unixNow \<and> uint unixNow < 2 ^ 62 \<and>
     uint now \<le> uint (fst at) \<and> uint (fst at) \<le> uint now + 60 \<and>
     length (wk_extra w) \<le> extraVanity + extraSeal \<and> (\<forall>r \<in> set (pe_pendingRegistrations c). valid_reg r) \<and>
     pe_signer c = wk_coinbase w"

text \<open>
  C6. The exact verdict on an honest producer's header. Let a node that is authorized to sign for its coinbase
  assemble a header, visual or not, after a parent whose real (nearest non-visual) ancestor is \<open>realParent\<close>,
  where: the gas limit of the real parent is at least 8192 and below 2^62 and its gas used within it; each of the two
  satisfies the header invariant if London is active at it; the time of the real parent is not after the parent's, the parent's
  not after the producer's clock, and that not after the verifier's; the atomic stamp is taken at most a minute
  after the clock is read; the configured extra field has at most 97 bytes and
  the pending registrations are valid. Then assembling succeeds, and however executing the block
  completes the header, the verdict of \<open>verifyHeader\<close> on the sealed header against the real parent is:
  accepted before London; from London on, refused with a gas limit out of bounds if the real parent is from before London, since
  the producer does not double the limit there; refused for its base fee if the base fee computed from the direct
  parent is not the one computed from the real parent; and accepted otherwise, in particular whenever
  the direct parent is the real parent and London is active at it.
\<close>

theorem produced_header_accepted:
  assumes setting: "honest_setting (ch_Config chain) w parent realParent now at unixNow c"
    and sign: "pe_signFn c = Some signFn" "signs_for cy unmarshal signFn (wk_coinbase w)"
    and epoch: "pob_Epoch (pe_pobConfig verifier) \<noteq> 0"
    and n: "n = h_Number parent + 1"
  shows "\<exists>header c'.
     work_header (cy_keccak cy) (ch_Config chain) w parent realParent n visual now at c = Inr (header, c') \<and>
     (\<forall>h sealed. completes header h \<and> Seal h c' = Inr sealed \<longrightarrow>
        verifyHeader cy unmarshal chain verifier sealed realParent False unixNow (n - h_Number realParent) =
          Inr (if \<not> IsLondon (ch_Config chain) (Some n) then None
               else if \<not> IsLondon (ch_Config chain) (Some (h_Number realParent)) then Some (ErrGas GasLimitBound)
               else if CalcBaseFee (ch_Config chain) parent \<noteq> CalcBaseFee (ch_Config chain) realParent then Some (ErrGas WrongBaseFee)
               else None))"
proof -
  note s = setting [unfolded honest_setting_def]
  obtain header c' where w: "work_header (cy_keccak cy) (ch_Config chain) w parent realParent n visual now at c = Inr (header, c')"
    using work_header_total s by blast
  note f = work_header_fields [OF w]
  have "verifyHeader cy unmarshal chain verifier sealed realParent False unixNow (n - h_Number realParent) =
      Inr (produced_verdict (ch_Config chain) parent realParent n)"
    if h: "completes header h" "Seal h c' = Inr sealed" for h sealed
  proof -
    note g = completes_fields [OF h(1)]
    have so: "signs_for cy unmarshal signFn (pe_signer c')" and fn: "pe_signFn c' = Some signFn" and sg: "pe_signer c' = wk_coinbase w"
      using f(10,11) s sign by simp_all
    obtain sig where sig: "sealed = h\<lparr>h_ValidatorSig := sig\<rparr>" "RecoverOwner cy unmarshal sealed = Inr (wk_coinbase w, False)"
      using sealed_owner [OF h(2) fn so] g(2) f(2) sg by auto
    have e: "check_extra (pe_pobConfig verifier) sealed = Inr None"
      using s epoch f(7) g(7) sig(1) by (intro honest_extra [where visual = visual]) simp_all
    have t: "h_Time sealed = work_time (ch_Config chain) (h_Number sealed) parent now" using f(4,6) g(4,6) sig(1) by simp
    note ht = honest_time [OF _ _ _ _ t, of realParent unixNow]
    have num: "h_Number sealed = n" "h_GasLimit sealed = h_GasLimit header" "h_GasUsed sealed \<le> h_GasLimit sealed"
        "h_BaseFee sealed = h_BaseFee header" "h_Difficulty sealed = Some 1" "h_ValidatorAddr sealed = wk_coinbase w"
      using sig(1) f(1,3,4) g by simp_all
    have fee: "IsLondon (ch_Config chain) (Some (h_Number realParent)) \<longrightarrow> (\<exists>f. CalcBaseFee (ch_Config chain) realParent = Inr f)"
      using CalcBaseFee_total s by blast
    have gas: "check_gas (ch_Config chain) sealed realParent = Inr (produced_verdict (ch_Config chain) parent realParent n)"
      using honest_gas [of realParent "ch_Config chain" sealed "wk_GasFloor w" "wk_GasCeil w" parent] s fee f(5,8) num by simp
    have "\<bar>uint (fst at) - uint (h_Time sealed)\<bar> \<le> 60" using s ht(2,3) by linarith
    then have a: "check_atomic_time sealed = None" using f(9) g(9) sig(1) honest_atomic_time by simp
    have "check_time (ch_Config chain) sealed realParent False unixNow = None" using ht(1) s by blast
    then show ?thesis using sig(2) e gas a num by (simp add: verifyHeader_def split: option.split)
  qed
  then show ?thesis using w by (auto simp: produced_verdict_def)
qed

text \<open>Headers of ordinary size can be sealed.\<close>

lemma length_concat_le: "\<forall>x \<in> set xs. length (f x) \<le> k \<Longrightarrow> length (concat (map f xs)) \<le> length xs * k"
  by (induction xs) auto

lemma PobRLP_small:
  assumes "h_AckCountList h = []" and "h_BehaviorProofs h = []" and "h_Extra h \<noteq> []" and "length (h_Extra h) < 10000"
    and "0 \<le> h_Number h" and "h_Number h < 256 ^ 8" and "h_Difficulty h = Some d" and "0 \<le> d" and "d < 256 ^ 8"
    and "h_BaseFee h = Some f" and "0 \<le> f" and "f < 256 ^ 8"
  shows "\<exists>b. PobRLP h = Inr b"
proof -
  have int: "length (enc_string (be_min (nat \<bar>i\<bar>))) \<le> 17" if "0 \<le> i" "i < 256 ^ 8" for i :: int
    using length_be_min [of "nat \<bar>i\<bar>" 8] length_enc_string_le [of "be_min (nat \<bar>i\<bar>)"] that by (simp add: nat_less_iff)
  have u: "length (enc_string (be_min (unat i))) \<le> 17" for i :: u64
    using length_be_min_u64 [of i] length_enc_string_le [of "be_min (unat i)"] by simp
  have str: "length (enc_string b) \<le> 20000" if "length b < 10000" for b using length_enc_string_le [of b] that by simp
  have "\<forall>x \<in> set (sig_header_values h). length (enc x) \<le> 20000"
    using assms int [of "h_Number h"] int [of d] int [of f] u [of "h_GasLimit h"] u [of "h_GasUsed h"] u [of "h_Time h"]
    unfolding sig_header_values_def opt_big_def
    by (simp add: str list_head_def puthead_def)
  then have "length (concat (map enc (sig_header_values h))) \<le> length (sig_header_values h) * 20000"
    by (rule length_concat_le)
  moreover have "length (sig_header_values h) = 18" using assms(10) by (simp add: sig_header_values_def)
  ultimately have "length (enc (RList (sig_header_values h))) < 2 ^ 64"
    using length_list_head [of "length (concat (map enc (sig_header_values h)))"] by simp
  moreover have "encodable (RList (sig_header_values h))" using assms by (simp add: sig_header_values_def opt_big_def)
  ultimately show ?thesis using assms(3) EncodeToBytes_enc by (simp add: PobRLP_def encodeSigHeader_def del: enc.simps)
qed

definition exampleKeys :: Crypto where
  "exampleKeys = \<lparr>cy_keccak = (\<lambda>b. 7), cy_ecrecover = (\<lambda>h s. if s = [] then None else Some []), cy_sign = (\<lambda>h k. None),
     cy_dil_unpack = (\<lambda>b. b), cy_dil_verify = (\<lambda>p m s. False), cy_dil_sign = (\<lambda>k m. []), cy_dil_public = (\<lambda>k. [])\<rparr>"

definition exampleParent :: Header where
  "exampleParent = exampleHeader\<lparr>h_GasLimit := 30000000, h_BaseFee := Some 1000000000\<rparr>"

definition exampleReader :: ChainReader where
  "exampleReader = \<lparr>ch_Config = MainnetChainConfig, ch_GetHeader = (\<lambda>h n. if n = 1 then Some exampleParent else None),
     ch_GetHeaderByNumber = (\<lambda>n. None)\<rparr>"

lemma exampleParent_ok: "header_inv exampleParent" "IsLondon (ch_Config exampleReader) (Some (h_Number exampleParent))"
  by (simp_all add: header_inv_def exampleParent_def exampleHeader_def exampleReader_def IsLondon_def isForked_def
      MainnetChainConfig_def emptyChainConfig_def)

theorem produced_header_accepted_witness:
  "\<exists>header c' sealed.
     work_header (cy_keccak exampleKeys) (ch_Config exampleReader)
       \<lparr>wk_coinbase = PubkeyToAddress exampleKeys [], wk_extra = [0], wk_GasFloor = 8000000, wk_GasCeil = 40000000\<rparr>
       exampleParent exampleParent 2 False 100 (100, 5)
       (Authorize (PubkeyToAddress exampleKeys []) (\<lambda>a b. Some [1]) (New exampleConfig)) = Inr (header, c') \<and>
     Seal header c' = Inr sealed \<and>
     verifyHeader exampleKeys Some exampleReader (New exampleConfig) sealed exampleParent False 100 1 = Inr None"
proof -
  let ?A = "PubkeyToAddress exampleKeys []"
  let ?w = "\<lparr>wk_coinbase = ?A, wk_extra = [0], wk_GasFloor = 8000000, wk_GasCeil = 40000000\<rparr>"
  let ?c = "Authorize ?A (\<lambda>a b. Some [1]) (New exampleConfig)"
  have n: "h_Number exampleParent + 1 = 2" by (simp add: exampleParent_def exampleHeader_def)
  have c: "pe_signer ?c = ?A" "pe_signFn ?c = Some (\<lambda>a b. Some [1])" "pe_pendingRegistrations ?c = []"
    "pob_Epoch (pe_pobConfig (New exampleConfig)) = 100"
    by (simp_all add: Authorize_def New_def Let_def exampleConfig_def)
  have set: "honest_setting (ch_Config exampleReader) ?w exampleParent exampleParent 100 (100, 5) 100 ?c"
    using exampleParent_ok c by (simp add: honest_setting_def extraVanity_def exampleParent_def exampleHeader_def)
  have sg: "signs_for exampleKeys Some (\<lambda>a b. Some [1]) (wk_coinbase ?w)"
    by (simp add: signs_for_def exampleKeys_def dilithium_PublicKeySize_def)
  obtain header c' where h: "work_header (cy_keccak exampleKeys) (ch_Config exampleReader) ?w exampleParent exampleParent 2 False 100 (100, 5) ?c = Inr (header, c')"
    and all: "\<forall>h sealed. completes header h \<and> Seal h c' = Inr sealed \<longrightarrow>
        verifyHeader exampleKeys Some exampleReader (New exampleConfig) sealed exampleParent False 100 1 = Inr None"
    using produced_header_accepted [OF set c(2) sg _ n [symmetric], of "New exampleConfig" False] c(4) exampleParent_ok(2) n
    by (auto simp: diff_eq_eq)
  have L: "IsLondon (ch_Config exampleReader) (Some 2)" using London_mono [OF exampleParent_ok(2), of 2] n by simp
  note f = work_header_fields [OF h]
  have more: "h_AckCountList header = []" "h_BehaviorProofs header = []" "h_GasUsed header = 0"
    using h by (auto simp: work_header_def bindE_Inr_iff Let_def split: prod.splits)
  have fee: "h_BaseFee header = Some 1000000000"
    using f(8) L exampleParent_ok(2)
    by (auto simp: CalcBaseFee_def Let_def exampleParent_def exampleHeader_def ElasticityMultiplier_def InitialBaseFee_def
        BaseFeeChangeDenominator_def)
  obtain b where "PobRLP header = Inr b" using PobRLP_small [OF more(1,2) _ _ _ _ f(3) _ _ fee] f(4,7) c by auto
  then obtain sealed where s: "Seal header c' = Inr sealed" using f(4,11) c by (auto simp: Seal_def big_uint64_def)
  have "completes header header"
    unfolding completes_def using more(3) by (intro exI [of _ "h_GasUsed header"] exI) (auto intro!: Header.equality)
  then show ?thesis using h s all by blast
qed

text \<open>
  C10. Header verification ends. On a header store that answers with the numbers it was asked for, the
  search for the real parent ends, with the nearest ancestor that is no visual block and its
  distance, every ancestor below being visual, or with \<open>ErrUnknownAncestor\<close> where the ancestry is broken;
  and \<open>VerifyHeader\<close> always returns.
\<close>

theorem real_parent_found:
  assumes "store_ok chain"
  shows "(\<exists>r. FindRealParentHeader (cy_keccak cy) chain [] (- 1) header 1 = Some (Inr r) \<and> real_parent chain header 1 r) \<and>
         (\<exists>v. VerifyHeader cy unmarshal chain c header unixNow = Some v)"
  using FindRealParentHeader_total [OF assms, of "cy_keccak cy" header 1] by (auto simp: VerifyHeader_def)

theorem real_parent_found_witness:
  "\<exists>v. VerifyHeader exampleKeys Some exampleReader (New exampleConfig) (exampleParent\<lparr>h_Number := 2\<rparr>) 100 = Some v"
proof -
  have "store_ok exampleReader" by (simp add: store_ok_def exampleReader_def exampleParent_def exampleHeader_def big_uint64_def)
  from real_parent_found [OF this] show ?thesis by blast
qed

text \<open>
  C7. Along a chain of accepted headers the rules of the fee market hold without end. If the first
  header has a gas limit between 5000 and 2^63, no more gas used than that, and a base fee of at
  least one gwei, then so has every header reached from it by headers that \<open>verifyHeader\<close> accepts,
  and times and numbers never fall. A next accepted header has a gas limit less than a
  1024th away, the base fee the parent's gas use dictates, and the parent's number plus the distance.
\<close>

theorem verified_chain_invariant:
  assumes "accepted cy unmarshal chain c genesis parent" and "header_inv genesis"
    and "IsLondon (ch_Config chain) (Some (h_Number genesis))"
  shows "header_inv parent \<and> h_Time genesis \<le> h_Time parent \<and> h_Number genesis \<le> h_Number parent \<and>
    (\<forall>header uncle unixNow diff. verifyHeader cy unmarshal chain c header parent uncle unixNow diff = Inr None \<and> 1 \<le> diff \<longrightarrow>
       \<bar>uint (h_GasLimit header) - uint (h_GasLimit parent)\<bar> < uint (h_GasLimit parent) div 1024 \<and>
       CalcBaseFee (ch_Config chain) parent = Inr (the (h_BaseFee header)) \<and>
       h_Time parent \<le> h_Time header \<and> h_Number header = h_Number parent + diff)"
proof -
  note inv = accepted_inv [OF assms]
  have "\<bar>uint (h_GasLimit header) - uint (h_GasLimit parent)\<bar> < uint (h_GasLimit parent) div 1024 \<and>
       CalcBaseFee (ch_Config chain) parent = Inr (the (h_BaseFee header)) \<and>
       h_Time parent \<le> h_Time header \<and> h_Number header = h_Number parent + diff"
    if v: "verifyHeader cy unmarshal chain c header parent uncle unixNow diff = Inr None" "1 \<le> diff" for header uncle unixNow diff
  proof -
    note rules = verifyHeader_rules [OF v(1)]
    have "h_Time parent \<le> h_Time header" using rules(3) by (auto simp: check_time_def Let_def not_less split: if_splits)
    then show ?thesis
      using accepted_gas [OF rules(4) _ London_mono [OF assms(3)]] inv rules(5) v(2) by simp
  qed
  then show ?thesis using inv by blast
qed

theorem verified_chain_invariant_witness:
  "header_inv exampleParent \<and> h_Time exampleParent \<le> h_Time exampleParent"
  using verified_chain_invariant [OF accepted.genesis exampleParent_ok] by blast

section \<open>Where the signature check does not protect\<close>

lemma checks_ignore_signer:
  fixes header :: Header and a :: address and sig :: bytes
  defines "h \<equiv> header\<lparr>h_ValidatorAddr := a, h_ValidatorSig := sig\<rparr>"
  shows "check_extra pob h = check_extra pob header" "check_time config h parent uncle unixNow = check_time config header parent uncle unixNow"
    "check_gas config h parent = check_gas config header parent" "check_atomic_time h = check_atomic_time header"
  unfolding h_def check_extra_def check_time_def check_gas_def check_atomic_time_def VerifyEip1559Header_def Let_def
  by (simp_all cong: option.case_cong sum.case_cong if_cong)

lemma RecoverOwner_unsigned:
  assumes "PobRLP header = Inr b" and "cy_ecrecover cy (hash_bytes (cy_keccak cy b)) [] = None" and "h_ValidatorSig header = []"
  shows "RecoverOwner cy unmarshal header = Inr (0, False)"
  using assms by (simp add: RecoverOwner_def dilithium_PublicKeySize_def)

text \<open>
  C12. A header that names the zero address as its validator needs no signature, and a header without extra
  data stops the node. Where the recovery of keys refuses the empty signature, an accepted header
  with its validator replaced by the zero address and its signature removed is accepted as well; and \<open>verifyHeader\<close> panics
  on every header whose extra field is empty and whose signature does not have the Dilithium length.
\<close>

theorem unsigned_header_accepted:
  assumes "verifyHeader cy unmarshal chain c header parent uncle unixNow diff = Inr None"
    and "PobRLP (header\<lparr>h_ValidatorAddr := 0\<rparr>) = Inr b"
    and "cy_ecrecover cy (hash_bytes (cy_keccak cy b)) [] = None"
  shows "verifyHeader cy unmarshal chain c (header\<lparr>h_ValidatorAddr := 0, h_ValidatorSig := []\<rparr>) parent uncle unixNow diff = Inr None \<and>
    verifyHeader cy unmarshal chain c (header\<lparr>h_Extra := [], h_ValidatorSig := []\<rparr>) parent uncle unixNow diff = Inl PanicIndex"
proof -
  let ?h = "header\<lparr>h_ValidatorAddr := 0, h_ValidatorSig := []\<rparr>"
  note rules = verifyHeader_rules [OF assms(1)]
  have "PobRLP ?h = Inr b" using assms(2) by simp
  then have owner: "RecoverOwner cy unmarshal ?h = Inr (0, False)" using RecoverOwner_unsigned assms(3) by simp
  have d: "\<not> (\<not> pe_fakeDiff c \<and> (case h_Difficulty header of None \<Rightarrow> True | Some d \<Rightarrow> d \<le> 0))"
    using assms(1) rules(1,2,3) by (auto simp: verifyHeader_def split: if_splits)
  have same: "check_extra (pe_pobConfig c) ?h = Inr None" "check_time (ch_Config chain) ?h parent uncle unixNow = None"
    "check_gas (ch_Config chain) ?h parent = Inr None" "check_atomic_time ?h = None"
    using rules by (simp_all add: checks_ignore_signer)
  have "verifyHeader cy unmarshal chain c ?h parent uncle unixNow diff = Inr None"
    unfolding verifyHeader_def owner using same d rules(5) by simp
  moreover have "RecoverOwner cy unmarshal (header\<lparr>h_Extra := [], h_ValidatorSig := []\<rparr>) = Inl PanicIndex"
    by (simp add: RecoverOwner_def PobRLP_def encodeSigHeader_def dilithium_PublicKeySize_def)
  ultimately show ?thesis by (simp add: verifyHeader_def)
qed

theorem unsigned_header_accepted_witness:
  "\<exists>header. verifyHeader exampleKeys Some exampleReader (New exampleConfig) header exampleParent False 100 1 = Inr None \<and>
     h_ValidatorAddr header = 0 \<and> h_ValidatorSig header = [] \<and> h_Number header = 2"
proof -
  let ?h = "exampleParent\<lparr>h_Number := 2, h_Difficulty := Some 1, h_ValidatorAddr := 0\<rparr>"
  have "\<exists>b. PobRLP ?h = Inr b"
    by (rule PobRLP_small [where d = 1 and f = 1000000000]) (simp_all add: exampleParent_def exampleHeader_def)
  then obtain b where b: "PobRLP ?h = Inr b" by blast
  have r: "RecoverOwner exampleKeys Some ?h = Inr (0, False)"
    by (rule RecoverOwner_unsigned [OF b]) (simp_all add: exampleKeys_def exampleParent_def exampleHeader_def)
  have L: "IsLondon (ch_Config exampleReader) (Some 2)" "IsStellarSpeed (ch_Config exampleReader) (Some 2)"
    by (simp_all add: exampleReader_def IsLondon_def IsStellarSpeed_def isForked_def MainnetChainConfig_def emptyChainConfig_def)
  have gas: "check_gas (ch_Config exampleReader) ?h exampleParent = Inr None"
    using L exampleParent_ok(2)
    by (simp add: check_gas_def VerifyEip1559Header_def CalcBaseFee_def VerifyGaslimit_def Let_def exampleParent_def exampleHeader_def
        ElasticityMultiplier_def InitialBaseFee_def BaseFeeChangeDenominator_def GasLimitBoundDivisor_def MinGasLimit_def)
  have "verifyHeader exampleKeys Some exampleReader (New exampleConfig) ?h exampleParent False 100 1 = Inr None"
    unfolding verifyHeader_def r using L gas
    by (simp add: check_extra_def check_time_def check_atomic_time_def New_def Let_def exampleConfig_def exampleParent_def exampleHeader_def
        extraVanity_def extraSeal_def)
  moreover have "PobRLP (?h\<lparr>h_ValidatorAddr := 0\<rparr>) = Inr b" using b by simp
  moreover have "cy_ecrecover exampleKeys (hash_bytes (cy_keccak exampleKeys b)) [] = None" by (simp add: exampleKeys_def)
  ultimately have "verifyHeader exampleKeys Some exampleReader (New exampleConfig) (?h\<lparr>h_ValidatorAddr := 0, h_ValidatorSig := []\<rparr>)
      exampleParent False 100 1 = Inr None" using unsigned_header_accepted by blast
  then show ?thesis by (intro exI [of _ "?h\<lparr>h_ValidatorAddr := 0, h_ValidatorSig := []\<rparr>"]) simp
qed

end
