(* ===== verification/EngineSnapshots.thy ===== *)
theory EngineSnapshots
  imports EngineProps
begin

text \<open>
  The caches of the engine are transparent. The engine keeps snapshots of the validator set in memory and,
  at every 1024th block, in a database, and continues from whichever it finds first. The theorem of
  this theory says that the result is always what applying the whole ancestry to the genesis
  snapshot gives, up to \<open>copy_snapshot\<close>: the difference between nil and empty maps that the JSON round trip makes,
  and the \<open>PubKeys\<close> that no copy keeps.
\<close>

section \<open>Histories\<close>

text \<open>
  What the engine relies on of the header store: a header is found under its own hash and number, a hash has one
  number, and the first block follows the genesis block.
\<close>

definition chain_ok :: "(bytes \<Rightarrow> hash) \<Rightarrow> ChainReader \<Rightarrow> Header \<Rightarrow> bool" where
  "chain_ok keccak chain genesis \<longleftrightarrow>
     ch_GetHeaderByNumber chain 0 = Some genesis \<and>
     (\<forall>h n p. ch_GetHeader chain h n = Some p \<longrightarrow> Header_Hash keccak p = h \<and> big_uint64 (h_Number p) = n) \<and>
     (\<forall>h m n p q. ch_GetHeader chain h m = Some p \<and> ch_GetHeader chain h n = Some q \<longrightarrow> m = n) \<and>
     (\<forall>n p. ch_GetHeader chain (Header_Hash keccak genesis) n = Some p \<longrightarrow> n = 0) \<and>
     (\<forall>h p. ch_GetHeader chain h 1 = Some p \<longrightarrow> h_ParentHash p = Header_Hash keccak genesis)"

text \<open>The headers after the genesis block up to the block with a number and a hash, oldest first.\<close>

fun history :: "ChainReader \<Rightarrow> nat \<Rightarrow> hash \<Rightarrow> Header list option" where
  "history chain 0 h = Some []"
| "history chain (Suc k) h =
     (case ch_GetHeader chain h (of_nat (Suc k)) of
        None \<Rightarrow> None
      | Some p \<Rightarrow> map_option (\<lambda>hs. hs @ [p]) (history chain k (h_ParentHash p)))"

definition genesis_snapshot :: "(bytes \<Rightarrow> hash) \<Rightarrow> PobConfig \<Rightarrow> Header \<Rightarrow> PobSnapshot" where
  "genesis_snapshot keccak config genesis =
     newSnapshot config 0 (Header_Hash keccak genesis) (map v_Owner (pob_ValidatorList config))"

definition rooted :: "(bytes \<Rightarrow> hash) \<Rightarrow> Header \<Rightarrow> u64 \<Rightarrow> hash \<Rightarrow> bool" where
  "rooted keccak genesis number h \<longleftrightarrow> (number = 0 \<longrightarrow> h = Header_Hash keccak genesis)"

definition correct_entry :: "(bytes \<Rightarrow> hash) \<Rightarrow> ChainReader \<Rightarrow> Header \<Rightarrow> PobConfig \<Rightarrow> hash \<Rightarrow> PobSnapshot \<Rightarrow> bool" where
  "correct_entry keccak chain genesis config h s \<longleftrightarrow>
     rooted keccak genesis (sn_Number s) h \<and>
     (\<exists>hs t. history chain (unat (sn_Number s)) h = Some hs \<and>
        apply_snapshot (Header_Hash keccak) hs (genesis_snapshot keccak config genesis) = Inr t \<and>
        copy_snapshot s = copy_snapshot t)"

definition caches_ok :: "(bytes \<Rightarrow> hash) \<Rightarrow> ChainReader \<Rightarrow> Header \<Rightarrow> ProofOfBehavior \<Rightarrow> bool" where
  "caches_ok keccak chain genesis c \<longleftrightarrow>
     (\<forall>h s. map_of (pe_recents c) h = Some s \<or> map_of (pe_db c) h = Some s \<longrightarrow>
        correct_entry keccak chain genesis (pe_pobConfig c) h s)"

lemma ancestry_step:
  assumes "history chain (unat number) h = Some hs" and "number \<noteq> 0"
  obtains p hs' where "ch_GetHeader chain h number = Some p" and "history chain (unat (number - 1)) (h_ParentHash p) = Some hs'"
    and "hs = hs' @ [p]"
proof -
  have u: "unat number = Suc (unat (number - 1))" using assms(2) unat_minus_one [of number] unat_gt_0 [of number] by simp
  have "(of_nat (Suc (unat (number - 1))) :: u64) = number" by simp
  then show ?thesis using assms(1) that unfolding u history.simps by (auto split: option.splits)
qed

lemma history_length: "history chain k h = Some hs \<Longrightarrow> length hs = k"
  by (induction k arbitrary: h hs) (auto split: option.splits)

lemma history_last:
  assumes "chain_ok keccak chain genesis" and "history chain k h = Some hs" and "hs \<noteq> []"
  shows "Header_Hash keccak (last hs) = h"
  using assms by (cases k) (auto simp: chain_ok_def split: option.splits)

lemma history_numbers:
  assumes "chain_ok keccak chain genesis"
  shows "history chain k h = Some hs \<Longrightarrow> map (big_uint64 \<circ> h_Number) hs = map of_nat [1..<Suc k]"
proof (induction k arbitrary: h hs)
  case (Suc k)
  then obtain p hs' where p: "ch_GetHeader chain h (of_nat (Suc k)) = Some p" "history chain k (h_ParentHash p) = Some hs'" "hs = hs' @ [p]"
    by (auto split: option.splits)
  moreover have "big_uint64 (h_Number p) = of_nat (Suc k)" using assms p(1) by (auto simp: chain_ok_def simp del: of_nat_Suc)
  ultimately show ?case using Suc.IH [OF p(2)] by simp
qed simp

lemma consecutive_upt: "consecutive (map of_nat [a..<b] :: u64 list)"
proof (induction "b - a" arbitrary: a)
  case (Suc k)
  then have *: "[a..<b] = a # [Suc a..<b]" by (simp add: upt_conv_Cons)
  have "consecutive (map of_nat [Suc a..<b] :: u64 list)" using Suc by simp
  then show ?case unfolding * by (cases "Suc a < b") (simp_all add: upt_conv_Cons add.commute)
qed simp

section \<open>Replaying\<close>

lemma replay:
  assumes "chain_ok keccak chain genesis" and "pob_Epoch config \<noteq> 0" and "history chain (unat number) h = Some hs"
    and "rooted keccak genesis number h"
  shows "\<exists>t. apply_snapshot (Header_Hash keccak) hs (genesis_snapshot keccak config genesis) = Inr t \<and>
    sn_Number t = number \<and> sn_Hash t = h \<and> sn_config t = config"
proof (cases "hs = []")
  case True
  then have "number = 0" using history_length [OF assms(3)] by (simp add: unat_eq_zero)
  then show ?thesis using True assms(4) by (simp add: apply_snapshot_def genesis_snapshot_def newSnapshot_def rooted_def)
next
  case False
  let ?g = "genesis_snapshot keccak config genesis"
  have nums: "map (big_uint64 \<circ> h_Number) hs = map of_nat [1..<Suc (unat number)]" using history_numbers [OF assms(1,3)] .
  have len: "length hs = unat number" using history_length [OF assms(3)] .
  have "[1..<Suc (unat number)] = 1 # [2..<Suc (unat number)]"
    using False len by (cases "unat number") (simp_all add: upt_conv_Cons numeral_2_eq_2 del: upt_Suc)
  then have first: "big_uint64 (h_Number (hd hs)) = 1"
    using arg_cong [OF nums, of hd] False by (simp add: hd_map del: upt_Suc)
  have cons: "consecutive (map (big_uint64 \<circ> h_Number) hs)" unfolding nums by (rule consecutive_upt)
  have g: "sn_Number ?g = 0" "sn_config ?g = config" by (simp_all add: genesis_snapshot_def newSnapshot_def)
  have c: "made (copy_snapshot ?g)" "pob_Epoch (sn_config (copy_snapshot ?g)) \<noteq> 0" "sn_Number (copy_snapshot ?g) = 0"
      "sn_config (copy_snapshot ?g) = config"
    using made_copy g assms(2) by (simp_all add: copy_snapshot_def)
  obtain s where s: "foldE apply_header hs (copy_snapshot ?g) = Inr s" "sn_Number s = 0" "sn_config s = config"
    using foldE_apply_total [OF c(1,2), of hs] c(3,4) by auto
  show ?thesis
    using False cons first g s len history_last [OF assms(1,3)]
    by (simp add: apply_snapshot_stamp stamp_def)
qed

lemma copy_stamp:
  "sn_Number (copy_snapshot s) = sn_Number s" "sn_Hash (copy_snapshot s) = sn_Hash s" "sn_config (copy_snapshot s) = sn_config s"
  by (simp_all add: copy_snapshot_def)

lemma same_stamp:
  "copy_snapshot s = copy_snapshot t \<Longrightarrow> sn_Number s = sn_Number t \<and> sn_Hash s = sn_Hash t \<and> sn_config s = sn_config t"
  by (metis copy_stamp)

lemma apply_same: "copy_snapshot s = copy_snapshot t \<Longrightarrow> hs \<noteq> [] \<Longrightarrow> apply_snapshot hh hs s = apply_snapshot hh hs t"
  using same_stamp [of s t] by (simp add: apply_snapshot_stamp)

lemma apply_split:
  assumes "pob_Epoch (sn_config g) \<noteq> 0" and "apply_snapshot hh xs g = Inr t" and "copy_snapshot s = copy_snapshot t" and "ys \<noteq> []"
  shows "apply_snapshot hh ys s = apply_snapshot hh (xs @ ys) g"
  using assms apply_same [OF assms(3,4)] apply_append [OF assms(1) _ assms(4), of xs hh]
  by (cases "xs = []") (simp_all add: apply_snapshot_def)

lemma copy_json_trip: "sn_config s = config \<Longrightarrow> copy_snapshot (json_trip config s) = copy_snapshot s"
  by (cases s) (simp add: json_trip_def copy_snapshot_def gm_copy_def json_map_def)

lemma entry_number:
  assumes "chain_ok keccak chain genesis" and "correct_entry keccak chain genesis config h s"
    and "history chain (unat number) h = Some hs" and "rooted keccak genesis number h"
  shows "sn_Number s = number"
proof -
  have stored: "n = 0 \<or> (\<exists>p. ch_GetHeader chain h n = Some p)" if "history chain (unat n) h = Some xs" for n xs
    using that by (metis ancestry_step)
  obtain xs where "history chain (unat (sn_Number s)) h = Some xs" "rooted keccak genesis (sn_Number s) h"
    using assms(2) by (auto simp: correct_entry_def)
  note s = stored [OF this(1)] this(2) [unfolded rooted_def]
  have one: "m = n" if "ch_GetHeader chain h m = Some p" "ch_GetHeader chain h n = Some q" for m n p q
    using assms(1) that unfolding chain_ok_def by blast
  have zero: "n = 0" if "ch_GetHeader chain h n = Some p" "h = Header_Hash keccak genesis" for n p
    using assms(1) that unfolding chain_ok_def by blast
  show ?thesis
  proof (cases "sn_Number s = 0 \<or> number = 0")
    case True
    then have "h = Header_Hash keccak genesis" using s(2) assms(4) by (auto simp: rooted_def)
    then show ?thesis using s(1) stored [OF assms(3)] zero by auto
  next
    case False
    then show ?thesis using s(1) stored [OF assms(3)] one by auto
  qed
qed

section \<open>The caches\<close>

lemma caches_insert:
  assumes "caches_ok keccak chain genesis c" and "correct_entry keccak chain genesis (pe_pobConfig c) (sn_Hash s) s"
  shows "caches_ok keccak chain genesis (store s c)"
    and "caches_ok keccak chain genesis (c\<lparr>pe_recents := AList.update (sn_Hash s) s (pe_recents c)\<rparr>)"
  using assms by (auto simp: caches_ok_def store_def update_conv' split: if_splits)

lemma genesis_entry: "correct_entry keccak chain genesis config (Header_Hash keccak genesis) (genesis_snapshot keccak config genesis)"
  by (simp add: correct_entry_def rooted_def genesis_snapshot_def newSnapshot_def apply_snapshot_def)

lemma entry_copy:
  assumes "copy_snapshot s = copy_snapshot t"
  shows "correct_entry keccak chain genesis config h s = correct_entry keccak chain genesis config h t"
  using assms same_stamp [OF assms] by (simp add: correct_entry_def)

text \<open>What the search starts from, and the headers it leaves to apply, together make the whole history.\<close>

definition starts :: "(bytes \<Rightarrow> hash) \<Rightarrow> Header \<Rightarrow> PobConfig \<Rightarrow> Header list \<Rightarrow> PobSnapshot \<Rightarrow> Header list \<Rightarrow> bool" where
  "starts keccak genesis config hs s ys \<longleftrightarrow>
     (\<exists>xs t. hs = xs @ ys \<and> apply_snapshot (Header_Hash keccak) xs (genesis_snapshot keccak config genesis) = Inr t \<and>
        copy_snapshot s = copy_snapshot t)"

lemma entry_starts:
  assumes "chain_ok keccak chain genesis" and "correct_entry keccak chain genesis config h s"
    and "history chain (unat number) h = Some hs" and "rooted keccak genesis number h"
  shows "starts keccak genesis config hs s []"
proof -
  obtain xs t where "history chain (unat (sn_Number s)) h = Some xs" "copy_snapshot s = copy_snapshot t"
      "apply_snapshot (Header_Hash keccak) xs (genesis_snapshot keccak config genesis) = Inr t"
    using assms(2) by (auto simp: correct_entry_def)
  then show ?thesis using entry_number [OF assms] assms(3) by (auto simp: starts_def)
qed

lemma loaded_entry:
  assumes "chain_ok keccak chain genesis" and "pob_Epoch (pe_pobConfig c) \<noteq> 0" and "caches_ok keccak chain genesis c"
    and "loadSnapshot h c = Some s"
  shows "correct_entry keccak chain genesis (pe_pobConfig c) h s"
proof -
  obtain s0 where s0: "map_of (pe_db c) h = Some s0" "s = json_trip (pe_pobConfig c) s0" using assms(4) by (auto simp: loadSnapshot_def)
  then have e: "correct_entry keccak chain genesis (pe_pobConfig c) h s0" using assms(3) by (simp add: caches_ok_def)
  then obtain hs t where "history chain (unat (sn_Number s0)) h = Some hs" "rooted keccak genesis (sn_Number s0) h"
      "apply_snapshot (Header_Hash keccak) hs (genesis_snapshot keccak (pe_pobConfig c) genesis) = Inr t" "copy_snapshot s0 = copy_snapshot t"
    by (auto simp: correct_entry_def)
  then have "sn_config s0 = pe_pobConfig c" using replay [OF assms(1,2)] same_stamp [of s0 t] by fastforce
  then show ?thesis using e entry_copy [OF copy_json_trip] s0(2) by blast
qed

lemma find_snapshot_starts:
  assumes "chain_ok keccak chain genesis" and "pob_Epoch (pe_pobConfig c) \<noteq> 0" and "caches_ok keccak chain genesis c"
  shows "history chain (unat number) h = Some hs \<Longrightarrow> rooted keccak genesis number h \<Longrightarrow>
    \<exists>s ys c'. find_snapshot keccak chain number h [] acc c = Inr (s, acc @ rev ys, c') \<and>
      starts keccak genesis (pe_pobConfig c) hs s ys \<and> caches_ok keccak chain genesis c' \<and> pe_pobConfig c' = pe_pobConfig c"
proof (induction "unat number" arbitrary: number h hs acc rule: less_induct)
  case less
  note simps = find_snapshot.simps [of keccak chain number h "[]" acc c]
  let ?load = "if number mod checkpointInterval = 0 then loadSnapshot h c else None"
  have hit: ?case if "find_snapshot keccak chain number h [] acc c = Inr (s, acc, c)" "correct_entry keccak chain genesis (pe_pobConfig c) h s" for s
    using that entry_starts [OF assms(1) that(2) less.prems] assms(3)
    by (intro exI [of _ s] exI [of _ "[]"] exI [of _ c]) simp
  consider s where "map_of (pe_recents c) h = Some s" | s where "map_of (pe_recents c) h = None" "?load = Some s"
    | "map_of (pe_recents c) h = None" "?load = None" by fastforce
  then show ?case
  proof cases
    case 1
    then show ?thesis using simps assms(3) by (intro hit [of s]) (auto simp: caches_ok_def)
  next
    case 2
    then show ?thesis using simps loaded_entry [OF assms, of h s] by (intro hit [of s]) (auto split: if_splits)
  next
    case 3
    show ?thesis
    proof (cases "number = 0")
      case True
      let ?g = "genesis_snapshot keccak (pe_pobConfig c) genesis"
      have "hs = []" using less.prems(1) True by simp
      then have "starts keccak genesis (pe_pobConfig c) hs ?g []" by (simp add: starts_def apply_snapshot_def)
      moreover have "find_snapshot keccak chain number h [] acc c = Inr (?g, acc @ rev [], store ?g c)"
        using simps 3 True assms(1) by (simp add: chain_ok_def genesis_snapshot_def Let_def)
      moreover have "sn_Hash ?g = Header_Hash keccak genesis" by (simp add: genesis_snapshot_def newSnapshot_def)
      then have "caches_ok keccak chain genesis (store ?g c)" using caches_insert(1) [OF assms(3)] genesis_entry by metis
      ultimately show ?thesis by (fastforce simp: store_def)
    next
      case False
      obtain p hs' where p: "ch_GetHeader chain h number = Some p" "history chain (unat (number - 1)) (h_ParentHash p) = Some hs'"
          "hs = hs' @ [p]" using ancestry_step [OF less.prems(1) False] .
      have "rooted keccak genesis (number - 1) (h_ParentHash p)" using assms(1) p(1) by (auto simp: rooted_def chain_ok_def)
      then obtain s ys c' where s: "find_snapshot keccak chain (number - 1) (h_ParentHash p) [] (acc @ [p]) c = Inr (s, (acc @ [p]) @ rev ys, c')"
          "starts keccak genesis (pe_pobConfig c) hs' s ys" "caches_ok keccak chain genesis c'" "pe_pobConfig c' = pe_pobConfig c"
        using less.hyps [OF _ p(2), of "acc @ [p]"] False by (auto simp: measure_unat)
      have "find_snapshot keccak chain number h [] acc c = Inr (s, acc @ rev (ys @ [p]), c')"
        using simps 3 False p(1) s(1) by simp
      moreover have "starts keccak genesis (pe_pobConfig c) hs s (ys @ [p])" using s(2) p(3) by (auto simp: starts_def)
      ultimately show ?thesis using s(3,4) by blast
    qed
  qed
qed

lemma starts_apply:
  assumes "starts keccak genesis config hs s ys" and "pob_Epoch config \<noteq> 0"
    and "apply_snapshot (Header_Hash keccak) hs (genesis_snapshot keccak config genesis) = Inr t"
  shows "\<exists>r. apply_snapshot (Header_Hash keccak) ys s = Inr r \<and> copy_snapshot r = copy_snapshot t"
proof -
  obtain xs u where x: "hs = xs @ ys" "apply_snapshot (Header_Hash keccak) xs (genesis_snapshot keccak config genesis) = Inr u"
      "copy_snapshot s = copy_snapshot u" using assms(1) by (auto simp: starts_def)
  have "pob_Epoch (sn_config (genesis_snapshot keccak config genesis)) \<noteq> 0"
    using assms(2) by (simp add: genesis_snapshot_def newSnapshot_def)
  then show ?thesis
    using x assms(3) apply_split [OF _ x(2,3), of ys] by (cases "ys = []") (simp_all add: apply_snapshot_def)
qed

text \<open>Headers of ordinary size encode, and a long extra field makes the encoding long.\<close>

lemma Header_encodes:
  assumes "h_AckCountList h = []" and "h_BehaviorProofs h = []" and "length (h_Extra h) \<le> N" and "h_ValidatorSig h = []"
    and "256 \<le> N" and "N < 2 ^ 32"
    and "h_Number h = 0 \<or> h_Number h = 1" and "h_Difficulty h = None" and "h_BaseFee h = None" and "h_AtomicTime h = None"
  shows "\<exists>b. EncodeToBytes (Header_value h) = Some b \<and> length (h_Extra h) \<le> length b \<and> length b \<le> 20 * (N + 9) + 9"
proof -
  obtain vs where vs: "Header_value h = RList vs" "RStr (h_Extra h) \<in> set vs" "length vs = 20" "\<forall>x \<in> set vs. encodable x"
      "\<forall>x \<in> set vs. length (enc x) \<le> N + 9"
  proof -
    have str: "length (enc_string b) \<le> N + 9" if "length b \<le> N" for b
      using length_enc_string_le [of b] that assms(6) by simp
    have u: "length (be_min (unat i)) \<le> N" for i :: u64 using length_be_min_u64 [of i] assms(5) by simp
    have one: "length (be_min (nat (h_Number h))) \<le> N" using assms(5,7) length_be_min [of "nat (h_Number h)" N] by auto
    show ?thesis
      by (rule that [of "case Header_value h of RList vs \<Rightarrow> vs"])
        (use assms str u one in \<open>auto simp: Header_value_def opt_big_def list_head_def puthead_def EncodeNonce_def\<close>)
  qed
  let ?l = "length (concat (map enc vs))"
  have l: "?l \<le> 20 * (N + 9)" using length_concat_le [OF vs(5)] vs(3) by simp
  moreover have "length (list_head ?l) \<le> 9" using length_list_head [of ?l] l assms(6) by simp
  moreover have "length (h_Extra h) \<le> ?l"
    using length_enc_member [OF vs(2)] length_enc_string [of "h_Extra h"] by simp
  moreover have "EncodeToBytes (RList vs) = Some (enc (RList vs))"
    using EncodeToBytes_enc [of "RList vs"] vs(4) calculation(1,2) assms(6) by simp
  ultimately show ?thesis using vs(1) by simp
qed

text \<open>A chain of two blocks whose encodings differ in length, which the hash function of the example sees.\<close>

definition sizeHash :: "bytes \<Rightarrow> hash" where
  "sizeHash b = (if length b < 6000 then 1 else 2)"

definition exampleGenesis :: Header where
  "exampleGenesis = exampleHeader\<lparr>h_Number := 0\<rparr>"

definition exampleFirst :: Header where
  "exampleFirst = exampleHeader\<lparr>h_ParentHash := 1, h_Extra := replicate 6000 0\<rparr>"

definition exampleStore :: ChainReader where
  "exampleStore = \<lparr>ch_Config = MainnetChainConfig, ch_GetHeader = (\<lambda>h n. if h = 2 \<and> n = 1 then Some exampleFirst else None),
     ch_GetHeaderByNumber = (\<lambda>n. if n = 0 then Some exampleGenesis else None)\<rparr>"

lemma example_hashes: "Header_Hash sizeHash exampleGenesis = 1" "Header_Hash sizeHash exampleFirst = 2"
proof -
  have "\<exists>b. EncodeToBytes (Header_value exampleGenesis) = Some b \<and> length (h_Extra exampleGenesis) \<le> length b \<and> length b \<le> 20 * (256 + 9) + 9"
    by (rule Header_encodes) (simp_all add: exampleGenesis_def exampleHeader_def)
  then show "Header_Hash sizeHash exampleGenesis = 1" by (auto simp: Header_Hash_def rlpHash_def sizeHash_def)
  have "\<exists>b. EncodeToBytes (Header_value exampleFirst) = Some b \<and> length (h_Extra exampleFirst) \<le> length b \<and> length b \<le> 20 * (6000 + 9) + 9"
    by (rule Header_encodes) (simp_all add: exampleFirst_def exampleHeader_def)
  then show "Header_Hash sizeHash exampleFirst = 2" by (auto simp: Header_Hash_def rlpHash_def sizeHash_def exampleFirst_def)
qed

text \<open>
  C8. The caches of the engine change nothing. Let the header store keep its contract and every cached snapshot be the
  replay of its own history. Then a snapshot of any block whose ancestry is stored is returned without error;
  it is, up to nil maps and \<open>PubKeys\<close>, what applying the whole history to the genesis
  snapshot gives; and the caches stay correct, whatever entries the memory cache then evicts.
\<close>

theorem snapshot_cache_transparent:
  assumes "chain_ok keccak chain genesis" and "pob_Epoch (pe_pobConfig c) \<noteq> 0" and "caches_ok keccak chain genesis c"
    and "history chain (unat number) h = Some hs" and "rooted keccak genesis number h"
  shows "\<exists>t s c'. apply_snapshot (Header_Hash keccak) hs (genesis_snapshot keccak (pe_pobConfig c) genesis) = Inr t \<and>
    snapshot keccak chain number h [] c = Inr (s, c') \<and> copy_snapshot s = copy_snapshot t \<and>
    pe_pobConfig c' = pe_pobConfig c \<and>
    (\<forall>kept. map_of kept \<subseteq>\<^sub>m map_of (pe_recents c') \<longrightarrow> caches_ok keccak chain genesis (c'\<lparr>pe_recents := kept\<rparr>))"
proof -
  obtain t where t: "apply_snapshot (Header_Hash keccak) hs (genesis_snapshot keccak (pe_pobConfig c) genesis) = Inr t"
      "sn_Number t = number" "sn_Hash t = h"
    using replay [OF assms(1,2,4,5)] by blast
  obtain s0 ys c0 where f: "find_snapshot keccak chain number h [] [] c = Inr (s0, rev ys, c0)"
      "starts keccak genesis (pe_pobConfig c) hs s0 ys" "caches_ok keccak chain genesis c0" "pe_pobConfig c0 = pe_pobConfig c"
    using find_snapshot_starts [OF assms, of "[]"] by auto
  obtain s where s: "apply_snapshot (Header_Hash keccak) ys s0 = Inr s" "copy_snapshot s = copy_snapshot t"
    using starts_apply [OF f(2) assms(2) t(1)] by blast
  let ?c1 = "c0\<lparr>pe_recents := AList.update (sn_Hash s) s (pe_recents c0)\<rparr>"
  let ?c2 = "if sn_Number s mod checkpointInterval = 0 \<and> length (rev ys) > 0 then store s ?c1 else ?c1"
  have "correct_entry keccak chain genesis (pe_pobConfig c) h t" using assms(4,5) t by (simp add: correct_entry_def)
  then have e: "correct_entry keccak chain genesis (pe_pobConfig c0) (sn_Hash s) s"
    using entry_copy [OF s(2)] same_stamp [OF s(2)] t(3) f(4) by simp
  have "caches_ok keccak chain genesis ?c1" using caches_insert(2) [OF f(3) e] .
  then have ok: "caches_ok keccak chain genesis ?c2" using caches_insert(1) [of keccak chain genesis ?c1 s] e by simp
  have "snapshot keccak chain number h [] c = Inr (s, ?c2)" using f(1) s(1) by (simp add: snapshot_def Let_def)
  moreover have "pe_pobConfig ?c2 = pe_pobConfig c" using f(4) by (simp add: store_def)
  moreover have "caches_ok keccak chain genesis (?c2\<lparr>pe_recents := kept\<rparr>)" if "map_of kept \<subseteq>\<^sub>m map_of (pe_recents ?c2)" for kept
    using ok that unfolding caches_ok_def map_le_def dom_def by simp
  ultimately show ?thesis using t(1) s(2) by blast
qed

theorem snapshot_cache_transparent_witness:
  "\<exists>s c'. snapshot sizeHash exampleStore 1 2 [] (New exampleConfig) = Inr (s, c') \<and> sn_Number s = 1 \<and> sn_Hash s = 2"
proof -
  let ?c = "New exampleConfig"
  have num: "big_uint64 (h_Number exampleFirst) = 1" "h_ParentHash exampleFirst = 1"
    by (simp_all add: exampleFirst_def exampleHeader_def big_uint64_def)
  have ok: "chain_ok sizeHash exampleStore exampleGenesis"
    using num example_hashes by (auto simp: chain_ok_def exampleStore_def)
  have hs: "history exampleStore (unat 1) 2 = Some [exampleFirst]" "rooted sizeHash exampleGenesis 1 2"
    by (simp_all add: exampleStore_def rooted_def)
  have c: "caches_ok sizeHash exampleStore exampleGenesis ?c" "pob_Epoch (pe_pobConfig ?c) \<noteq> 0"
    by (simp_all add: caches_ok_def New_def Let_def exampleConfig_def)
  from snapshot_cache_transparent [OF ok c(2,1) hs] obtain t s c' where
    r: "apply_snapshot (Header_Hash sizeHash) [exampleFirst] (genesis_snapshot sizeHash (pe_pobConfig ?c) exampleGenesis) = Inr t"
      "snapshot sizeHash exampleStore 1 2 [] ?c = Inr (s, c')" "copy_snapshot s = copy_snapshot t" by blast
  have "sn_Number t = 1 \<and> sn_Hash t = 2" using replay [OF ok c(2) hs] r(1) by auto
  then show ?thesis using r(2) same_stamp [OF r(3)] by auto
qed

end
