(* ===== verification/Heap.thy ===== *)
theory Heap
  imports Prelude
begin

text \<open>
  Go's \<open>container/heap\<close> over a slice, with the comparison \<open>lt\<close> of the slice's type: the routines
  of the standard library that \<open>types.TxByPriceAndTime\<close>, \<open>core.nonceHeap\<close> and \<open>core.priceHeap\<close> use.
  The locale \<open>heap_order\<close> is what the library asks of \<open>Less\<close>; its lemmas give the contract of every
  routine: the elements are those put in, and the first one is never beaten by another.
\<close>

section \<open>Routines\<close>

definition swap :: "nat \<Rightarrow> nat \<Rightarrow> 'a list \<Rightarrow> 'a list" where
  "swap i j xs = xs[i := xs ! j, j := xs ! i]"

text \<open>The child of \<open>i\<close> that \<open>down\<close> compares with: the right one if it beats the left one.\<close>

definition min_child :: "('a \<Rightarrow> 'a \<Rightarrow> bool) \<Rightarrow> nat \<Rightarrow> nat \<Rightarrow> 'a list \<Rightarrow> nat" where
  "min_child lt i n xs =
     (let j1 = 2 * i + 1 in if j1 + 1 < n \<and> lt (xs ! (j1 + 1)) (xs ! j1) then j1 + 1 else j1)"

lemma min_child_bounds:
  "i < min_child lt i n xs" "2 * i + 1 < n \<Longrightarrow> min_child lt i n xs < n"
  "0 < min_child lt i n xs" "(min_child lt i n xs - 1) div 2 = i"
  by (auto simp: min_child_def Let_def)

function heap_down :: "('a \<Rightarrow> 'a \<Rightarrow> bool) \<Rightarrow> nat \<Rightarrow> nat \<Rightarrow> 'a list \<Rightarrow> nat \<times> 'a list" where
  "heap_down lt i n xs =
     (if 2 * i + 1 \<ge> n then (i, xs)
      else let j = min_child lt i n xs
           in if \<not> lt (xs ! j) (xs ! i) then (i, xs) else heap_down lt j n (swap i j xs))"
  by pat_completeness auto
termination
  by (relation "measure (\<lambda>(lt, i, n, xs). n - i)") (simp_all add: min_child_bounds diff_less_mono2 not_le)

function heap_up :: "('a \<Rightarrow> 'a \<Rightarrow> bool) \<Rightarrow> nat \<Rightarrow> 'a list \<Rightarrow> 'a list" where
  "heap_up lt j xs =
     (let i = (j - 1) div 2
      in if i = j \<or> \<not> lt (xs ! j) (xs ! i) then xs else heap_up lt i (swap i j xs))"
  by pat_completeness auto
termination
  by (relation "measure (\<lambda>(lt, j, xs). j)") auto

declare heap_down.simps [simp del] heap_up.simps [simp del]

definition heap_Init :: "('a \<Rightarrow> 'a \<Rightarrow> bool) \<Rightarrow> 'a list \<Rightarrow> 'a list" where
  "heap_Init lt xs = fold (\<lambda>i ys. snd (heap_down lt i (length xs) ys)) (rev [0..<length xs div 2]) xs"

definition heap_Push :: "('a \<Rightarrow> 'a \<Rightarrow> bool) \<Rightarrow> 'a \<Rightarrow> 'a list \<Rightarrow> 'a list" where
  "heap_Push lt x xs = heap_up lt (length xs) (xs @ [x])"

text \<open>The callers never pop an empty heap.\<close>

definition heap_Pop :: "('a \<Rightarrow> 'a \<Rightarrow> bool) \<Rightarrow> 'a list \<Rightarrow> 'a \<times> 'a list" where
  "heap_Pop lt xs =
     (let n = length xs - 1;
          ys = snd (heap_down lt 0 n (swap 0 n xs))
      in (ys ! n, take n ys))"

definition heap_Remove :: "('a \<Rightarrow> 'a \<Rightarrow> bool) \<Rightarrow> nat \<Rightarrow> 'a list \<Rightarrow> 'a \<times> 'a list" where
  "heap_Remove lt i xs =
     (let n = length xs - 1;
          ys = (if n \<noteq> i then
                  (let (i', zs) = heap_down lt i n (swap i n xs)
                   in if \<not> i' > i then heap_up lt i zs else zs)
                else xs)
      in (ys ! n, take n ys))"

definition heap_Fix :: "('a \<Rightarrow> 'a \<Rightarrow> bool) \<Rightarrow> nat \<Rightarrow> 'a list \<Rightarrow> 'a list" where
  "heap_Fix lt i xs =
     (let (i', zs) = heap_down lt i (length xs) xs
      in if \<not> i' > i then heap_up lt i zs else zs)"

section \<open>What moves and what stays\<close>

lemma length_swap [simp]: "length (swap i j xs) = length xs"
  by (simp add: swap_def)

lemma mset_swap_heap: "i < length xs \<Longrightarrow> j < length xs \<Longrightarrow> mset (swap i j xs) = mset xs"
  by (simp add: swap_def mset_swap)

lemma nth_swap: "i < length xs \<Longrightarrow> j < length xs \<Longrightarrow>
   swap i j xs ! m = (if m = i then xs ! j else if m = j then xs ! i else xs ! m)"
  by (cases "i = j") (auto simp: swap_def nth_list_update)

lemma heap_down_stops:
  "n \<le> 2 * i + 1 \<or> \<not> lt (xs ! min_child lt i n xs) (xs ! i) \<Longrightarrow> heap_down lt i n xs = (i, xs)"
  by (subst heap_down.simps) (auto simp: Let_def)

lemma heap_down_moves:
  "2 * i + 1 < n \<Longrightarrow> lt (xs ! min_child lt i n xs) (xs ! i) \<Longrightarrow>
     heap_down lt i n xs = heap_down lt (min_child lt i n xs) n (swap i (min_child lt i n xs) xs)"
  by (subst heap_down.simps) (simp add: Let_def)

lemma heap_down_frame:
  assumes "n \<le> length xs"
  shows "length (snd (heap_down lt i n xs)) = length xs \<and> mset (snd (heap_down lt i n xs)) = mset xs \<and>
     (\<forall>m \<ge> n. snd (heap_down lt i n xs) ! m = xs ! m) \<and> i \<le> fst (heap_down lt i n xs)"
  using assms
proof (induction "n - i" arbitrary: i xs rule: less_induct)
  case (less i xs)
  let ?j = "min_child lt i n xs"
  show ?case
  proof (cases "n \<le> 2 * i + 1 \<or> \<not> lt (xs ! ?j) (xs ! i)")
    case True
    then show ?thesis by (simp add: heap_down_stops)
  next
    case False
    then have e: "heap_down lt i n xs = heap_down lt ?j n (swap i ?j xs)" by (simp add: heap_down_moves)
    have j: "?j < n" "i < ?j" using False min_child_bounds(1) [of i lt n xs] min_child_bounds(2) [of i n lt xs] by auto
    have "length (snd (heap_down lt ?j n (swap i ?j xs))) = length xs \<and>
        mset (snd (heap_down lt ?j n (swap i ?j xs))) = mset (swap i ?j xs) \<and>
        (\<forall>m \<ge> n. snd (heap_down lt ?j n (swap i ?j xs)) ! m = swap i ?j xs ! m) \<and>
        ?j \<le> fst (heap_down lt ?j n (swap i ?j xs))"
      using less.hyps [of ?j "swap i ?j xs"] j less.prems by simp
    then show ?thesis unfolding e using j less.prems mset_swap_heap [of i xs ?j] nth_swap [of i xs ?j] by auto
  qed
qed

lemma heap_up_frame:
  assumes "j < length xs"
  shows "length (heap_up lt j xs) = length xs \<and> mset (heap_up lt j xs) = mset xs \<and>
     (\<forall>m > j. heap_up lt j xs ! m = xs ! m)"
  using assms
proof (induction lt j xs rule: heap_up.induct)
  case (1 lt j xs)
  let ?i = "(j - 1) div 2"
  show ?case
  proof (cases "?i = j \<or> \<not> lt (xs ! j) (xs ! ?i)")
    case True
    then have "heap_up lt j xs = xs" by (subst heap_up.simps) (auto simp: Let_def)
    then show ?thesis by simp
  next
    case False
    then have e: "heap_up lt j xs = heap_up lt ?i (swap ?i j xs)"
      by (subst heap_up.simps) (simp add: Let_def)
    have i: "?i < j" using False by auto
    have "length (heap_up lt ?i (swap ?i j xs)) = length (swap ?i j xs) \<and>
        mset (heap_up lt ?i (swap ?i j xs)) = mset (swap ?i j xs) \<and>
        (\<forall>m > ?i. heap_up lt ?i (swap ?i j xs) ! m = swap ?i j xs ! m)"
      by (rule "1.IH" [OF refl False]) (use i 1(2) in simp)
    then show ?thesis unfolding e using i 1(2) mset_swap_heap [of ?i xs j] nth_swap [of ?i xs j] by auto
  qed
qed

section \<open>The heap property\<close>

text \<open>
  \<open>heap_ok lt k n xs\<close>: below index \<open>n\<close>, no element beats its parent, for the parents from \<open>k\<close> on.
  The other two are the invariants of moving an element down from \<open>i\<close> and up from \<open>j\<close>.
\<close>

definition heap_ok :: "('a \<Rightarrow> 'a \<Rightarrow> bool) \<Rightarrow> nat \<Rightarrow> nat \<Rightarrow> 'a list \<Rightarrow> bool" where
  "heap_ok lt k n xs \<longleftrightarrow>
     (\<forall>m. 0 < m \<and> m < n \<and> k \<le> (m - 1) div 2 \<longrightarrow> \<not> lt (xs ! m) (xs ! ((m - 1) div 2)))"

definition sinking :: "('a \<Rightarrow> 'a \<Rightarrow> bool) \<Rightarrow> nat \<Rightarrow> nat \<Rightarrow> nat \<Rightarrow> 'a list \<Rightarrow> bool" where
  "sinking lt k n i xs \<longleftrightarrow>
     (\<forall>m. 0 < m \<and> m < n \<and> k \<le> (m - 1) div 2 \<and> m \<noteq> i \<and> (m - 1) div 2 \<noteq> i \<longrightarrow>
        \<not> lt (xs ! m) (xs ! ((m - 1) div 2))) \<and>
     (\<forall>m. 0 < m \<and> m < n \<and> (m - 1) div 2 = i \<and> 0 < i \<and> k \<le> (i - 1) div 2 \<longrightarrow>
        \<not> lt (xs ! m) (xs ! ((i - 1) div 2)))"

definition below_parent :: "('a \<Rightarrow> 'a \<Rightarrow> bool) \<Rightarrow> nat \<Rightarrow> nat \<Rightarrow> 'a list \<Rightarrow> bool" where
  "below_parent lt k i xs \<longleftrightarrow> 0 < i \<and> k \<le> (i - 1) div 2 \<longrightarrow> \<not> lt (xs ! i) (xs ! ((i - 1) div 2))"

definition rising :: "('a \<Rightarrow> 'a \<Rightarrow> bool) \<Rightarrow> nat \<Rightarrow> nat \<Rightarrow> 'a list \<Rightarrow> bool" where
  "rising lt n j xs \<longleftrightarrow>
     (\<forall>m. 0 < m \<and> m < n \<and> m \<noteq> j \<longrightarrow> \<not> lt (xs ! m) (xs ! ((m - 1) div 2))) \<and>
     (\<forall>m. 0 < m \<and> m < n \<and> (m - 1) div 2 = j \<and> 0 < j \<longrightarrow> \<not> lt (xs ! m) (xs ! ((j - 1) div 2)))"

locale heap_order =
  fixes lt :: "'a \<Rightarrow> 'a \<Rightarrow> bool"
  assumes asym: "lt a b \<Longrightarrow> \<not> lt b a"
    and negtrans: "\<not> lt a b \<Longrightarrow> \<not> lt b c \<Longrightarrow> \<not> lt a c"
begin

lemma sinking_step:
  assumes s: "sinking lt k n i xs" and len: "n \<le> length xs" and k: "k \<le> i"
    and j: "0 < j" "j < n" "(j - 1) div 2 = i" and ltj: "lt (xs ! j) (xs ! i)"
    and best: "\<And>m. 0 < m \<Longrightarrow> m < n \<Longrightarrow> (m - 1) div 2 = i \<Longrightarrow> \<not> lt (xs ! m) (xs ! j)"
  shows "sinking lt k n j (swap i j xs)" and "below_parent lt k j (swap i j xs)"
proof -
  have ij: "i < j" using j by auto
  note nth = nth_swap [of i xs j]
  have sw: "swap i j xs ! m = (if m = i then xs ! j else if m = j then xs ! i else xs ! m)" for m
    using nth ij j(2) len by simp
  have as: "\<not> lt (xs ! i) (xs ! j)" using asym [OF ltj] .
  show "below_parent lt k j (swap i j xs)" using as ij j(3) by (simp add: below_parent_def sw)
  show "sinking lt k n j (swap i j xs)"
    unfolding sinking_def
  proof (intro conjI allI impI; elim conjE)
    fix m assume m: "0 < m" "m < n" "k \<le> (m - 1) div 2" "m \<noteq> j" "(m - 1) div 2 \<noteq> j"
    show "\<not> lt (swap i j xs ! m) (swap i j xs ! ((m - 1) div 2))"
    proof (cases "m = i")
      case True
      then have "\<not> lt (xs ! j) (xs ! ((i - 1) div 2))" using s j m unfolding sinking_def by blast
      moreover have "(i - 1) div 2 < i" using True m(1) by simp
      ultimately show ?thesis using True ij by (simp add: sw)
    next
      case False
      then show ?thesis
        using best [OF m(1,2)] s m unfolding sinking_def by (cases "(m - 1) div 2 = i") (auto simp: sw)
    qed
  next
    fix m assume m: "0 < m" "m < n" "(m - 1) div 2 = j" "0 < j" "k \<le> (j - 1) div 2"
    have mij: "m \<noteq> i" "m \<noteq> j" using m ij by auto
    have "\<forall>m. 0 < m \<and> m < n \<and> k \<le> (m - 1) div 2 \<and> m \<noteq> i \<and> (m - 1) div 2 \<noteq> i \<longrightarrow>
        \<not> lt (xs ! m) (xs ! ((m - 1) div 2))"
      using s unfolding sinking_def by blast
    from spec [OF this, of m] have "\<not> lt (xs ! m) (xs ! j)" using m mij ij k by simp
    then show "\<not> lt (swap i j xs ! m) (swap i j xs ! ((j - 1) div 2))"
      unfolding j(3) sw using mij by simp
  qed
qed

lemma min_child_best:
  assumes "0 < m" and "m < n" and "(m - 1) div 2 = i"
  shows "\<not> lt (xs ! m) (xs ! min_child lt i n xs)"
proof -
  have "m = 2 * i + 1 \<or> m = 2 * i + 1 + 1" using assms by auto
  then show ?thesis using assms(2) asym by (auto simp: min_child_def Let_def)
qed

lemma heap_down_ok:
  assumes "sinking lt k n i xs" and "below_parent lt k i xs" and "n \<le> length xs" and "k \<le> i"
  shows "heap_ok lt k n (snd (heap_down lt i n xs))"
  using assms
proof (induction "n - i" arbitrary: i xs rule: less_induct)
  case (less i xs)
  let ?j = "min_child lt i n xs"
  show ?case
  proof (cases "n \<le> 2 * i + 1 \<or> \<not> lt (xs ! ?j) (xs ! i)")
    case True
    have "\<not> lt (xs ! m) (xs ! ((m - 1) div 2))" if m: "0 < m" "m < n" "k \<le> (m - 1) div 2" for m
    proof (cases "(m - 1) div 2 = i")
      case child: True
      then have "\<not> lt (xs ! ?j) (xs ! i)" using True m by auto
      then show ?thesis using negtrans [OF min_child_best [OF m(1,2) child]] child by simp
    next
      case False
      then show ?thesis using less.prems(1,2) m unfolding sinking_def below_parent_def by blast
    qed
    then show ?thesis using True by (simp add: heap_down_stops heap_ok_def)
  next
    case False
    then have e: "heap_down lt i n xs = heap_down lt ?j n (swap i ?j xs)" by (simp add: heap_down_moves)
    have j: "0 < ?j" "?j < n" "(?j - 1) div 2 = i" "i < ?j" 
      using False min_child_bounds(1) [of i lt n xs] min_child_bounds(2) [of i n lt xs] min_child_bounds(3,4) [of lt i n xs]
      by auto
    note st = sinking_step [OF less.prems(1,3,4) j(1-3)]
    have "sinking lt k n ?j (swap i ?j xs)" "below_parent lt k ?j (swap i ?j xs)"
      using st False min_child_best by blast+
    then show ?thesis unfolding e using less.hyps [of ?j "swap i ?j xs"] less.prems(3,4) j by simp
  qed
qed

lemma rising_step:
  assumes r: "rising lt n j xs" and len: "n \<le> length xs" "j < n" and j: "i = (j - 1) div 2" "i \<noteq> j"
    and ltj: "lt (xs ! j) (xs ! i)"
  shows "rising lt n i (swap i j xs)"
proof -
  have ij: "i < j" using j by auto
  have sw: "swap i j xs ! m = (if m = i then xs ! j else if m = j then xs ! i else xs ! m)" for m
    using nth_swap [of i xs j] ij len by simp
  have as: "\<not> lt (xs ! i) (xs ! j)" using asym [OF ltj] .
  have old: "\<not> lt (xs ! m) (xs ! ((m - 1) div 2))" if "0 < m" "m < n" "m \<noteq> j" for m
    using r that unfolding rising_def by blast
  show ?thesis
    unfolding rising_def
  proof (intro conjI allI impI; elim conjE)
    fix m assume m: "0 < m" "m < n" "m \<noteq> i"
    show "\<not> lt (swap i j xs ! m) (swap i j xs ! ((m - 1) div 2))"
    proof (cases "m = j")
      case True
      then show ?thesis unfolding sw j(1) [symmetric] True using as ij by simp
    next
      case False
      show ?thesis
      proof (cases "(m - 1) div 2 = j")
        case True
        then have "\<not> lt (xs ! m) (xs ! i)" using r m ij j(1) unfolding rising_def by auto
        then show ?thesis using True False m ij by (simp add: sw)
      next
        case notj: False
        show ?thesis
          using old [OF m(1,2) False] negtrans [OF _ as] False notj m by (cases "(m - 1) div 2 = i") (auto simp: sw)
      qed
    qed
  next
    fix m assume m: "0 < m" "m < n" "(m - 1) div 2 = i" "0 < i"
    have i: "\<not> lt (xs ! i) (xs ! ((i - 1) div 2))" using old [of i] m ij len by simp
    have p: "(i - 1) div 2 < i" using m(4) by simp
    have "m \<noteq> i" using m by auto
    then show "\<not> lt (swap i j xs ! m) (swap i j xs ! ((i - 1) div 2))"
      using i p ij old [OF m(1,2)] negtrans [OF _ i] m(3) by (auto simp: sw)
  qed
qed

lemma heap_up_ok:
  assumes "rising lt n j xs" and "j < n" and "n \<le> length xs"
  shows "heap_ok lt 0 n (heap_up lt j xs)"
  using assms
proof (induction j arbitrary: xs rule: less_induct)
  case (less j xs)
  let ?i = "(j - 1) div 2"
  show ?case
  proof (cases "?i = j \<or> \<not> lt (xs ! j) (xs ! ?i)")
    case True
    then have e: "heap_up lt j xs = xs" by (subst heap_up.simps) (auto simp: Let_def)
    show ?thesis unfolding e heap_ok_def using less.prems(1) True unfolding rising_def by fastforce
  next
    case False
    then have e: "heap_up lt j xs = heap_up lt ?i (swap ?i j xs)"
      by (subst heap_up.simps) (simp add: Let_def)
    have "?i < j" using False by auto
    moreover have "rising lt n ?i (swap ?i j xs)"
      by (rule rising_step [OF less.prems(1,3,2) refl]) (use False in auto)
    ultimately show ?thesis unfolding e using less.IH [of ?i "swap ?i j xs"] less.prems(2,3) by simp
  qed
qed

text \<open>Restoring the heap after one element was replaced: down, or up if it did not move.\<close>

lemma restore_ok:
  assumes s: "sinking lt 0 n i xs" and n: "n \<le> length xs" "i < n"
  defines "ys \<equiv> (let (i', zs) = heap_down lt i n xs in if \<not> i' > i then heap_up lt i zs else zs)"
  shows "heap_ok lt 0 n ys \<and> length ys = length xs \<and> mset ys = mset xs \<and> (\<forall>m \<ge> n. ys ! m = xs ! m)"
proof (cases "n \<le> 2 * i + 1 \<or> \<not> lt (xs ! min_child lt i n xs) (xs ! i)")
  case True
  then have ys: "ys = heap_up lt i xs" by (simp add: ys_def heap_down_stops)
  have "\<not> lt (xs ! m) (xs ! ((m - 1) div 2))" if m: "0 < m" "m < n" "m \<noteq> i" for m
  proof (cases "(m - 1) div 2 = i")
    case child: True
    then have "\<not> lt (xs ! min_child lt i n xs) (xs ! i)" using True m by auto
    then show ?thesis using negtrans [OF min_child_best [OF m(1,2) child]] child by simp
  next
    case False
    then show ?thesis using s m unfolding sinking_def by blast
  qed
  then have "rising lt n i xs" using s unfolding rising_def sinking_def by blast
  then show ?thesis
    using heap_up_ok [OF _ n(2,1)] heap_up_frame [of i xs lt] n by (auto simp: ys)
next
  case False
  let ?j = "min_child lt i n xs"
  have j: "0 < ?j" "?j < n" "(?j - 1) div 2 = i" "i < ?j"
    using False min_child_bounds(1) [of i lt n xs] min_child_bounds(2) [of i n lt xs] min_child_bounds(3,4) [of lt i n xs]
    by auto
  have e: "heap_down lt i n xs = heap_down lt ?j n (swap i ?j xs)" using False by (simp add: heap_down_moves)
  note st = sinking_step [OF s n(1) le0 j(1-3)]
  have "sinking lt 0 n ?j (swap i ?j xs)" "below_parent lt 0 ?j (swap i ?j xs)"
    using st False min_child_best by blast+
  then have ok: "heap_ok lt 0 n (snd (heap_down lt i n xs))" unfolding e using heap_down_ok n(1) by simp
  have "?j \<le> fst (heap_down lt i n xs)" unfolding e using heap_down_frame [of n "swap i ?j xs" lt ?j] n(1) by simp
  then have "ys = snd (heap_down lt i n xs)" using j(4) by (simp add: ys_def case_prod_beta Let_def)
  then show ?thesis using ok heap_down_frame [OF n(1), of lt i] by simp
qed

text \<open>The contract: every routine keeps the heap and accounts for every element.\<close>

lemma heap_best: "heap_ok lt 0 (length xs) xs \<Longrightarrow> i < length xs \<Longrightarrow> \<not> lt (xs ! i) (xs ! 0)"
proof (induction i rule: less_induct)
  case (less i)
  show ?case
  proof (cases "i = 0")
    case True
    then show ?thesis using asym by auto
  next
    case False
    then have "\<not> lt (xs ! ((i - 1) div 2)) (xs ! 0)" using less.IH [of "(i - 1) div 2"] less.prems by auto
    moreover have "\<not> lt (xs ! i) (xs ! ((i - 1) div 2))" using less.prems False by (simp add: heap_ok_def)
    ultimately show ?thesis using negtrans by blast
  qed
qed

lemma heap_best_mem: "heap_ok lt 0 (length xs) xs \<Longrightarrow> x \<in> set xs \<Longrightarrow> \<not> lt x (xs ! 0)"
  using heap_best by (metis in_set_conv_nth)

lemma Init_loop:
  "n \<le> length xs \<Longrightarrow> heap_ok lt k n xs \<Longrightarrow>
     let ys = fold (\<lambda>i ys. snd (heap_down lt i n ys)) (rev [0..<k]) xs
     in heap_ok lt 0 n ys \<and> length ys = length xs \<and> mset ys = mset xs"
proof (induction k arbitrary: xs)
  case 0
  then show ?case by simp
next
  case (Suc k)
  let ?ys = "snd (heap_down lt k n xs)"
  have no: "\<not> (0 < k \<and> k \<le> (k - 1) div 2)" by auto
  have "sinking lt k n k xs"
    unfolding sinking_def
  proof (intro conjI allI impI; elim conjE)
    fix m assume m: "0 < m" "m < n" "k \<le> (m - 1) div 2" "(m - 1) div 2 \<noteq> k"
    then have "Suc k \<le> (m - 1) div 2" by simp
    then show "\<not> lt (xs ! m) (xs ! ((m - 1) div 2))" using Suc.prems(2) m unfolding heap_ok_def by blast
  qed (use no in blast)
  moreover have "below_parent lt k k xs" using no unfolding below_parent_def by blast
  ultimately have "heap_ok lt k n ?ys" using heap_down_ok Suc.prems(1) by simp
  then show ?case using Suc.IH [of ?ys] heap_down_frame [OF Suc.prems(1), of lt k] Suc.prems(1) by simp
qed

lemma Init_ok: "heap_ok lt 0 (length xs) (heap_Init lt xs)" "length (heap_Init lt xs) = length xs"
  "mset (heap_Init lt xs) = mset xs"
proof -
  have "heap_ok lt (length xs div 2) (length xs) xs" by (auto simp: heap_ok_def)
  from Init_loop [OF le_refl this]
  show "heap_ok lt 0 (length xs) (heap_Init lt xs)" "length (heap_Init lt xs) = length xs"
    "mset (heap_Init lt xs) = mset xs"
    by (simp_all add: heap_Init_def Let_def)
qed

lemma Push_ok:
  assumes "heap_ok lt 0 (length xs) xs"
  shows "heap_ok lt 0 (Suc (length xs)) (heap_Push lt x xs)" "length (heap_Push lt x xs) = Suc (length xs)"
    "mset (heap_Push lt x xs) = add_mset x (mset xs)"
proof -
  have "rising lt (length (xs @ [x])) (length xs) (xs @ [x])"
    unfolding rising_def
  proof (intro conjI allI impI; elim conjE)
    fix m assume m: "0 < m" "m < length (xs @ [x])" "m \<noteq> length xs"
    then show "\<not> lt ((xs @ [x]) ! m) ((xs @ [x]) ! ((m - 1) div 2))"
      using assms by (auto simp: heap_ok_def nth_append)
  next
    fix m assume "0 < m" "m < length (xs @ [x])" "(m - 1) div 2 = length xs"
    then show "\<not> lt ((xs @ [x]) ! m) ((xs @ [x]) ! ((length xs - 1) div 2))"
      using div_le_dividend [of "m - 1" 2] by simp
  qed
  from heap_up_ok [OF this] heap_up_frame [of "length xs" "xs @ [x]" lt]
  show "heap_ok lt 0 (Suc (length xs)) (heap_Push lt x xs)" "length (heap_Push lt x xs) = Suc (length xs)"
    "mset (heap_Push lt x xs) = add_mset x (mset xs)"
    by (simp_all add: heap_Push_def)
qed

lemma mset_take_last: "length ys = Suc n \<Longrightarrow> add_mset (ys ! n) (mset (take n ys)) = mset ys"
  by (metis lessI mset_append mset.simps(1,2) take_Suc_conv_app_nth take_all order_refl add_mset_add_single)

lemma Pop_ok:
  assumes "heap_ok lt 0 (length xs) xs" and "xs \<noteq> []"
  shows "fst (heap_Pop lt xs) = xs ! 0" "heap_ok lt 0 (length xs - 1) (snd (heap_Pop lt xs))"
    "length (snd (heap_Pop lt xs)) = length xs - 1" "mset xs = add_mset (xs ! 0) (mset (snd (heap_Pop lt xs)))"
proof -
  define n where "n = length xs - 1"
  let ?s = "swap 0 n xs"
  let ?ys = "snd (heap_down lt 0 n ?s)"
  have n: "length xs = Suc n" using assms(2) by (simp add: n_def)
  have sw: "?s ! m = (if m = 0 then xs ! n else if m = n then xs ! 0 else xs ! m)" for m
    using nth_swap [of 0 xs n] n by simp
  have "sinking lt 0 n 0 ?s"
    using assms(1) n by (auto simp: sinking_def heap_ok_def sw)
  then have ok: "heap_ok lt 0 n ?ys" using heap_down_ok [of 0 n 0 ?s] n by (simp add: below_parent_def)
  have fr: "length ?ys = Suc n" "mset ?ys = mset xs" "?ys ! n = xs ! 0"
    using heap_down_frame [of n ?s lt 0] n mset_swap_heap [of 0 xs n] sw [of n] by (auto split: if_splits)
  have pop: "heap_Pop lt xs = (?ys ! n, take n ?ys)" by (simp add: heap_Pop_def n_def Let_def)
  show "fst (heap_Pop lt xs) = xs ! 0" using pop fr(3) by simp
  show "heap_ok lt 0 (length xs - 1) (snd (heap_Pop lt xs))" "length (snd (heap_Pop lt xs)) = length xs - 1"
    using pop ok n fr(1) by (auto simp: heap_ok_def)
  show "mset xs = add_mset (xs ! 0) (mset (snd (heap_Pop lt xs)))"
    using pop fr mset_take_last [OF fr(1)] by simp
qed

lemma Remove_ok:
  assumes "heap_ok lt 0 (length xs) xs" and "i < length xs"
  shows "fst (heap_Remove lt i xs) = xs ! i" "heap_ok lt 0 (length xs - 1) (snd (heap_Remove lt i xs))"
    "length (snd (heap_Remove lt i xs)) = length xs - 1" "mset xs = add_mset (xs ! i) (mset (snd (heap_Remove lt i xs)))"
proof -
  define n where "n = length xs - 1"
  have n: "length xs = Suc n" using assms(2) by (simp add: n_def)
  let ?s = "swap i n xs"
  let ?ys = "if n \<noteq> i then (let (i', zs) = heap_down lt i n ?s in if \<not> i' > i then heap_up lt i zs else zs) else xs"
  have sw: "?s ! m = (if m = i then xs ! n else if m = n then xs ! i else xs ! m)" for m
    using nth_swap [of i xs n] n assms(2) by simp
  have ys: "heap_ok lt 0 n ?ys \<and> length ?ys = Suc n \<and> mset ?ys = mset xs \<and> ?ys ! n = xs ! i"
  proof (cases "n = i")
    case True
    then show ?thesis using assms(1) n by (simp add: heap_ok_def)
  next
    case False
    then have i: "i < n" using assms(2) n by simp
    have up: "\<not> lt (xs ! m) (xs ! ((m - 1) div 2))" if "0 < m" "m < Suc n" for m
      using assms(1) n that by (simp add: heap_ok_def)
    have "sinking lt 0 n i ?s"
      unfolding sinking_def
    proof (intro conjI allI impI; elim conjE)
      fix m assume "0 < m" "m < n" "m \<noteq> i" "(m - 1) div 2 \<noteq> i"
      moreover from this have "(m - 1) div 2 \<noteq> n" by auto
      ultimately show "\<not> lt (?s ! m) (?s ! ((m - 1) div 2))" using up [of m] by (simp add: sw)
    next
      fix m assume m: "0 < m" "m < n" "(m - 1) div 2 = i" "0 < i"
      have "m \<noteq> i" "(i - 1) div 2 \<noteq> i" "(i - 1) div 2 < n" using m i by auto
      moreover have "\<not> lt (xs ! m) (xs ! ((i - 1) div 2))"
        using negtrans [of "xs ! m" "xs ! i"] up [of m] up [of i] m i by simp
      ultimately show "\<not> lt (?s ! m) (?s ! ((i - 1) div 2))" using m by (simp add: sw)
    qed
    from restore_ok [OF this _ i] show ?thesis
      using False n mset_swap_heap [of i xs n] assms(2) sw [of n] by (simp add: case_prod_beta Let_def)
  qed
  have rem: "heap_Remove lt i xs = (?ys ! n, take n ?ys)" by (simp add: heap_Remove_def n_def Let_def)
  show "fst (heap_Remove lt i xs) = xs ! i" unfolding rem using ys by simp
  show "heap_ok lt 0 (length xs - 1) (snd (heap_Remove lt i xs))" "length (snd (heap_Remove lt i xs)) = length xs - 1"
    unfolding rem using ys n by (auto simp: heap_ok_def)
  show "mset xs = add_mset (xs ! i) (mset (snd (heap_Remove lt i xs)))"
    unfolding rem using ys mset_take_last [of ?ys n] by (simp only: snd_conv)
qed

lemma Fix_ok:
  assumes "heap_ok lt 0 (length xs) xs" and "i < length xs"
  shows "heap_ok lt 0 (length xs) (heap_Fix lt i (xs[i := x]))" "length (heap_Fix lt i (xs[i := x])) = length xs"
    "mset (heap_Fix lt i (xs[i := x])) = mset (xs[i := x])"
proof -
  have up: "\<not> lt (xs ! m) (xs ! ((m - 1) div 2))" if "0 < m" "m < length xs" for m
    using assms(1) that by (simp add: heap_ok_def)
  have "sinking lt 0 (length (xs[i := x])) i (xs[i := x])"
    unfolding sinking_def
  proof (intro conjI allI impI; elim conjE)
    fix m assume "0 < m" "m < length (xs[i := x])" "m \<noteq> i" "(m - 1) div 2 \<noteq> i"
    then show "\<not> lt (xs[i := x] ! m) (xs[i := x] ! ((m - 1) div 2))" using up [of m] by simp
  next
    fix m assume m: "0 < m" "m < length (xs[i := x])" "(m - 1) div 2 = i" "0 < i"
    have "m \<noteq> i" "(i - 1) div 2 \<noteq> i" using m by auto
    then show "\<not> lt (xs[i := x] ! m) (xs[i := x] ! ((i - 1) div 2))"
      using negtrans [of "xs ! m" "xs ! i"] up [of m] up [of i] m assms(2) by simp
  qed
  from restore_ok [OF this le_refl] assms(2)
  show "heap_ok lt 0 (length xs) (heap_Fix lt i (xs[i := x]))" "length (heap_Fix lt i (xs[i := x])) = length xs"
    "mset (heap_Fix lt i (xs[i := x])) = mset (xs[i := x])"
    by (simp_all add: heap_Fix_def)
qed

end

end
