(* ===== verification/TxList.thy ===== *)
theory TxList
  imports Heap GoMap Signing
begin

text \<open>
  The per-account transaction lists of the pool (\<open>src/core/tx_list.go\<close>): \<open>txSortedMap\<close>, a map from
  nonces to transactions with a heap of the nonces and a cached sorted slice, and \<open>txList\<close> on top of
  it with the caps on cost and gas. A slice of transaction pointers that the code fills by looking
  nonces up is a list of options; the invariant shows that no pointer is nil.
\<close>

section \<open>Nonce-sorted maps\<close>

definition nonce_of :: "Transaction \<Rightarrow> u64" where
  "nonce_of tx = tx_nonce (tx_inner tx)"

record txSortedMap =
  sm_items :: "(u64, Transaction) entries"
  sm_index :: "u64 list"
  sm_cache :: "Transaction list option"

definition newTxSortedMap :: txSortedMap where
  "newTxSortedMap = \<lparr>sm_items = [], sm_index = [], sm_cache = None\<rparr>"

definition sm_Get :: "u64 \<Rightarrow> txSortedMap \<Rightarrow> Transaction option" where
  "sm_Get nonce m = map_of (sm_items m) nonce"

definition sm_Put :: "Transaction \<Rightarrow> txSortedMap \<Rightarrow> txSortedMap" where
  "sm_Put tx m =
     (let nonce = nonce_of tx;
          m' = (if map_of (sm_items m) nonce = None then m\<lparr>sm_index := heap_Push (<) nonce (sm_index m)\<rparr> else m)
      in m'\<lparr>sm_items := AList.update nonce tx (sm_items m), sm_cache := None\<rparr>)"

lemma length_heap_Pop: "length (snd (heap_Pop lt xs)) = length xs - 1"
  using heap_down_frame [of "length xs - 1" "swap 0 (length xs - 1) xs" lt 0] by (simp add: heap_Pop_def Let_def)

function sm_Forward_loop :: "u64 \<Rightarrow> Transaction option list \<Rightarrow> txSortedMap \<Rightarrow> Transaction option list \<times> txSortedMap" where
  "sm_Forward_loop threshold removed m =
     (if length (sm_index m) > 0 \<and> sm_index m ! 0 < threshold then
        (let p = heap_Pop (<) (sm_index m)
         in sm_Forward_loop threshold (removed @ [map_of (sm_items m) (fst p)])
              (m\<lparr>sm_items := AList.delete (fst p) (sm_items m), sm_index := snd p\<rparr>))
      else (removed, m))"
  by pat_completeness auto
termination
  by (relation "measure (\<lambda>(t, r, m). length (sm_index m))") (simp_all add: length_heap_Pop)

definition sm_Forward :: "u64 \<Rightarrow> txSortedMap \<Rightarrow> Transaction option list \<times> txSortedMap" where
  "sm_Forward threshold m =
     (let (removed, m') = sm_Forward_loop threshold [] m
      in (removed, m'\<lparr>sm_cache := map_option (drop (length removed)) (sm_cache m')\<rparr>))"

definition sm_filter :: "(Transaction \<Rightarrow> bool) \<Rightarrow> txSortedMap \<Rightarrow> Transaction list \<times> txSortedMap" where
  "sm_filter f m =
     (let removed = filter f (map snd (sm_items m));
          m' = m\<lparr>sm_items := filter (\<lambda>e. \<not> f (snd e)) (sm_items m)\<rparr>
      in (removed, if length removed > 0 then m'\<lparr>sm_cache := None\<rparr> else m'))"

definition sm_reheap :: "txSortedMap \<Rightarrow> txSortedMap" where
  "sm_reheap m = m\<lparr>sm_index := heap_Init (<) (keys (sm_items m)), sm_cache := None\<rparr>"

definition sm_Filter :: "(Transaction \<Rightarrow> bool) \<Rightarrow> txSortedMap \<Rightarrow> Transaction list \<times> txSortedMap" where
  "sm_Filter f m =
     (let (removed, m') = sm_filter f m in (removed, if length removed > 0 then sm_reheap m' else m'))"

text \<open>The limit is never negative in the pool.\<close>

definition sm_Cap :: "nat \<Rightarrow> txSortedMap \<Rightarrow> Transaction option list \<times> txSortedMap" where
  "sm_Cap threshold m =
     (if length (sm_items m) \<le> threshold then ([], m)
      else let idx = go_sort (<) (sm_index m);
               dropped = map ((!) idx) (rev [threshold..<length (sm_items m)]);
               drops = map (map_of (sm_items m)) dropped
           in (drops, m\<lparr>sm_items := fold AList.delete dropped (sm_items m),
                         sm_index := heap_Init (<) (take threshold idx),
                         sm_cache := map_option (\<lambda>c. take (length c - length drops) c) (sm_cache m)\<rparr>))"

definition sm_Remove :: "u64 \<Rightarrow> txSortedMap \<Rightarrow> bool \<times> txSortedMap" where
  "sm_Remove nonce m =
     (if map_of (sm_items m) nonce = None then (False, m)
      else let index = (case List.find (\<lambda>i. sm_index m ! i = nonce) [0..<length (sm_index m)] of
                          None \<Rightarrow> sm_index m
                        | Some i \<Rightarrow> snd (heap_Remove (<) i (sm_index m)))
           in (True, m\<lparr>sm_index := index, sm_items := AList.delete nonce (sm_items m), sm_cache := None\<rparr>))"

function sm_Ready_loop :: "u64 \<Rightarrow> Transaction option list \<Rightarrow> txSortedMap \<Rightarrow> Transaction option list \<times> txSortedMap" where
  "sm_Ready_loop next ready m =
     (if length (sm_index m) > 0 \<and> sm_index m ! 0 = next then
        sm_Ready_loop (next + 1) (ready @ [map_of (sm_items m) next])
          (m\<lparr>sm_items := AList.delete next (sm_items m), sm_index := snd (heap_Pop (<) (sm_index m))\<rparr>)
      else (ready, m))"
  by pat_completeness auto
termination
  by (relation "measure (\<lambda>(n, r, m). length (sm_index m))") (simp_all add: length_heap_Pop)

declare sm_Forward_loop.simps [simp del] sm_Ready_loop.simps [simp del]

definition sm_Ready :: "u64 \<Rightarrow> txSortedMap \<Rightarrow> Transaction option list \<times> txSortedMap" where
  "sm_Ready start m =
     (if length (sm_index m) = 0 \<or> sm_index m ! 0 > start then ([], m)
      else let (ready, m') = sm_Ready_loop (sm_index m ! 0) [] m in (ready, m'\<lparr>sm_cache := None\<rparr>))"

definition sm_Len :: "txSortedMap \<Rightarrow> nat" where
  "sm_Len m = length (sm_items m)"

definition sm_flatten :: "txSortedMap \<Rightarrow> Transaction list \<times> txSortedMap" where
  "sm_flatten m =
     (case sm_cache m of
        Some c \<Rightarrow> (c, m)
      | None \<Rightarrow> let c = go_sort (\<lambda>a b. nonce_of a < nonce_of b) (map snd (sm_items m))
                in (c, m\<lparr>sm_cache := Some c\<rparr>))"

definition sm_LastElement :: "txSortedMap \<Rightarrow> panic + Transaction \<times> txSortedMap" where
  "sm_LastElement m =
     (let (c, m') = sm_flatten m
      in if length c = 0 then Inl PanicIndex else Inr (c ! (length c - 1), m'))"

section \<open>Transaction lists\<close>

record txList =
  tl_strict :: bool
  tl_txs :: txSortedMap
  tl_costcap :: int
  tl_gascap :: u64

definition newTxList :: "bool \<Rightarrow> txList" where
  "newTxList strict = \<lparr>tl_strict = strict, tl_txs = newTxSortedMap, tl_costcap = 0, tl_gascap = 0\<rparr>"

definition tl_Overlaps :: "Transaction \<Rightarrow> txList \<Rightarrow> bool" where
  "tl_Overlaps tx l \<longleftrightarrow> sm_Get (nonce_of tx) (tl_txs l) \<noteq> None"

text \<open>The bump is converted to \<open>int64\<close>: \<open>sint\<close>.\<close>

definition tl_Add :: "Transaction \<Rightarrow> u64 \<Rightarrow> txList \<Rightarrow> (bool \<times> Transaction option) \<times> txList" where
  "tl_Add tx priceBump l =
     (let old = sm_Get (nonce_of tx) (tl_txs l);
          d = tx_inner tx;
          refused = (case old of
             None \<Rightarrow> False
           | Some otx \<Rightarrow>
               let od = tx_inner otx;
                   a = sint (100 + priceBump);
                   thresholdFeeCap = a * tx_gasFeeCap od div 100;
                   thresholdTip = a * tx_gasTipCap od div 100
               in tx_gasFeeCap od \<ge> tx_gasFeeCap d \<or> tx_gasTipCap od \<ge> tx_gasTipCap d \<or>
                  tx_gasFeeCap d < thresholdFeeCap \<or> tx_gasTipCap d < thresholdTip)
      in if refused then ((False, None), l)
         else ((True, old),
               l\<lparr>tl_txs := sm_Put tx (tl_txs l),
                 tl_costcap := (if tl_costcap l < Cost d then Cost d else tl_costcap l),
                 tl_gascap := (if tl_gascap l < tx_gas d then tx_gas d else tl_gascap l)\<rparr>))"

definition tl_Forward :: "u64 \<Rightarrow> txList \<Rightarrow> Transaction option list \<times> txList" where
  "tl_Forward threshold l = (let (r, m) = sm_Forward threshold (tl_txs l) in (r, l\<lparr>tl_txs := m\<rparr>))"

definition tl_lowest :: "Transaction list \<Rightarrow> u64" where
  "tl_lowest removed =
     fold (\<lambda>tx low. if low > nonce_of tx then nonce_of tx else low) removed 0xffffffffffffffff"

definition tl_Filter :: "int \<Rightarrow> u64 \<Rightarrow> txList \<Rightarrow> (Transaction list \<times> Transaction list) \<times> txList" where
  "tl_Filter costLimit gasLimit l =
     (if tl_costcap l \<le> costLimit \<and> tl_gascap l \<le> gasLimit then (([], []), l)
      else let l1 = l\<lparr>tl_costcap := costLimit, tl_gascap := gasLimit\<rparr>;
               (removed, m1) = sm_Filter (\<lambda>tx. tx_gas (tx_inner tx) > gasLimit \<or> Cost (tx_inner tx) > costLimit) (tl_txs l1)
           in if length removed = 0 then (([], []), l1\<lparr>tl_txs := m1\<rparr>)
              else let (invalids, m2) = (if tl_strict l1
                         then sm_filter (\<lambda>tx. nonce_of tx > tl_lowest removed) m1 else ([], m1))
                   in ((removed, invalids), l1\<lparr>tl_txs := sm_reheap m2\<rparr>))"

definition tl_Cap :: "nat \<Rightarrow> txList \<Rightarrow> Transaction option list \<times> txList" where
  "tl_Cap threshold l = (let (r, m) = sm_Cap threshold (tl_txs l) in (r, l\<lparr>tl_txs := m\<rparr>))"

definition tl_Remove :: "Transaction \<Rightarrow> txList \<Rightarrow> (bool \<times> Transaction list) \<times> txList" where
  "tl_Remove tx l =
     (let nonce = nonce_of tx;
          (removed, m) = sm_Remove nonce (tl_txs l)
      in if \<not> removed then ((False, []), l\<lparr>tl_txs := m\<rparr>)
         else if tl_strict l then
           (let (invalids, m') = sm_Filter (\<lambda>t. nonce_of t > nonce) m in ((True, invalids), l\<lparr>tl_txs := m'\<rparr>))
         else ((True, []), l\<lparr>tl_txs := m\<rparr>))"

definition tl_Ready :: "u64 \<Rightarrow> txList \<Rightarrow> Transaction option list \<times> txList" where
  "tl_Ready start l = (let (r, m) = sm_Ready start (tl_txs l) in (r, l\<lparr>tl_txs := m\<rparr>))"

definition tl_Len :: "txList \<Rightarrow> nat" where
  "tl_Len l = sm_Len (tl_txs l)"

definition tl_Empty :: "txList \<Rightarrow> bool" where
  "tl_Empty l \<longleftrightarrow> tl_Len l = 0"

definition tl_Flatten :: "txList \<Rightarrow> Transaction list \<times> txList" where
  "tl_Flatten l = (let (c, m) = sm_flatten (tl_txs l) in (c, l\<lparr>tl_txs := m\<rparr>))"

definition tl_LastElement :: "txList \<Rightarrow> panic + Transaction \<times> txList" where
  "tl_LastElement l = bindE (sm_LastElement (tl_txs l)) (\<lambda>(tx, m). Inr (tx, l\<lparr>tl_txs := m\<rparr>))"

end
