(* ===== verification/TxListProps.thy ===== *)
theory TxListProps
  imports TxList
begin

text \<open>
  The lists of \<open>TxList\<close> implement finite maps from nonces to transactions: \<open>content\<close> is the
  abstraction, \<open>sm_ok\<close> the invariant that ties the heap of nonces and the cached slice to the map,
  and every operation is the corresponding operation on finite maps.
\<close>

section \<open>Nonces in order\<close>

interpretation nonces: heap_order "(<) :: u64 \<Rightarrow> u64 \<Rightarrow> bool"
  by unfold_locales auto

type_synonym tx_map = "u64 \<Rightarrow> Transaction option"

definition ordered_nonces :: "tx_map \<Rightarrow> u64 list" where
  "ordered_nonces c = sorted_list_of_set (dom c)"

definition in_order :: "tx_map \<Rightarrow> Transaction list" where
  "in_order c = map (the \<circ> c) (ordered_nonces c)"

lemma finite_dom_u64 [simp]: "finite (dom (c :: tx_map))"
  by simp

lemma ordered_nonces_props [simp]:
  "sorted (ordered_nonces c)" "distinct (ordered_nonces c)" "set (ordered_nonces c) = dom c"
  by (simp_all add: ordered_nonces_def)

lemma ordered_unique: "sorted ns \<Longrightarrow> distinct ns \<Longrightarrow> set ns = dom c \<Longrightarrow> ordered_nonces c = ns"
  by (metis ordered_nonces_props sorted_distinct_set_unique)

lemma length_in_order [simp]: "length (in_order c) = length (ordered_nonces c)"
  by (simp add: in_order_def)

lemma ordered_restrict_take:
  "ordered_nonces (c |` set (take k (ordered_nonces c))) = take k (ordered_nonces c)"
  by (rule ordered_unique) (auto dest: in_set_takeD simp: sorted_wrt_take)

lemma ordered_restrict_drop:
  "ordered_nonces (c |` set (drop k (ordered_nonces c))) = drop k (ordered_nonces c)"
  by (rule ordered_unique) (auto dest: in_set_dropD simp: sorted_wrt_drop)

lemma in_order_restrict: "set (ordered_nonces (c |` A)) \<subseteq> A \<Longrightarrow> in_order (c |` A) = map (the \<circ> c) (ordered_nonces (c |` A))"
  by (auto simp: in_order_def)

lemma in_order_take: "in_order (c |` set (take k (ordered_nonces c))) = take k (in_order c)"
  by (subst in_order_restrict) (auto simp: ordered_restrict_take in_order_def take_map)

lemma in_order_drop: "in_order (c |` set (drop k (ordered_nonces c))) = drop k (in_order c)"
  by (subst in_order_restrict) (auto simp: ordered_restrict_drop in_order_def drop_map)

lemma ordered_min:
  assumes "n \<in> dom c" and "\<forall>m \<in> dom c. n \<le> m"
  shows "ordered_nonces c = n # ordered_nonces (c(n := None))"
  using assms by (intro ordered_unique) (auto simp: order.order_iff_strict)

lemma in_order_min:
  assumes "n \<in> dom c" and "\<forall>m \<in> dom c. n \<le> m"
  shows "in_order c = the (c n) # in_order (c(n := None))"
  by (auto simp: in_order_def ordered_min [OF assms])

lemma ordered_split:
  "ordered_nonces c = ordered_nonces (c |` {..<t}) @ ordered_nonces (c |` {t..})"
  by (rule ordered_unique) (auto simp: sorted_append)

lemma in_order_split: "in_order c = in_order (c |` {..<t}) @ in_order (c |` {t..})"
  by (simp add: in_order_def ordered_split [of c t])

section \<open>The invariant\<close>

definition content :: "txSortedMap \<Rightarrow> tx_map" where
  "content m = map_of (sm_items m)"

definition sm_core :: "txSortedMap \<Rightarrow> bool" where
  "sm_core m \<longleftrightarrow>
     wf_entries (sm_items m) \<and> (\<forall>n tx. content m n = Some tx \<longrightarrow> nonce_of tx = n) \<and>
     mset (sm_index m) = mset (keys (sm_items m)) \<and> heap_ok (<) 0 (length (sm_index m)) (sm_index m)"

definition sm_ok :: "txSortedMap \<Rightarrow> bool" where
  "sm_ok m \<longleftrightarrow> sm_core m \<and> (\<forall>c. sm_cache m = Some c \<longrightarrow> c = in_order (content m))"

lemma sm_core_simps [simp]:
  "sm_core (m\<lparr>sm_cache := c\<rparr>) = sm_core m" "content (m\<lparr>sm_cache := c\<rparr>) = content m"
  by (simp_all add: sm_core_def content_def)

lemma sm_core_index:
  assumes "sm_core m"
  shows "set (sm_index m) = dom (content m)" "distinct (sm_index m)" "sort (sm_index m) = ordered_nonces (content m)"
    "length (sm_index m) = length (sm_items m)" "length (sm_items m) = length (ordered_nonces (content m))"
proof -
  have m: "mset (sm_index m) = mset (keys (sm_items m))" and w: "distinct (keys (sm_items m))"
    using assms by (simp_all add: sm_core_def wf_entries_def)
  show s: "set (sm_index m) = dom (content m)"
    using m by (metis set_mset_mset set_keys content_def)
  show d: "distinct (sm_index m)" using m w mset_eq_imp_distinct_iff by blast
  show o: "sort (sm_index m) = ordered_nonces (content m)"
    using s d by (intro ordered_unique [symmetric]) auto
  show "length (sm_index m) = length (sm_items m)" using m by (metis size_mset keys_def length_map)
  then show "length (sm_items m) = length (ordered_nonces (content m))" using o by (metis length_sort)
qed

lemma sm_core_first:
  assumes "sm_core m" and "sm_index m \<noteq> []"
  shows "sm_index m ! 0 \<in> dom (content m)" "\<forall>n \<in> dom (content m). sm_index m ! 0 \<le> n"
proof -
  show "sm_index m ! 0 \<in> dom (content m)"
    using sm_core_index(1) [OF assms(1)] assms(2) nth_mem [of 0 "sm_index m"] by auto
  show "\<forall>n \<in> dom (content m). sm_index m ! 0 \<le> n"
    using nonces.heap_best_mem [of "sm_index m"] assms(1) sm_core_index(1) [OF assms(1)]
    by (auto simp: sm_core_def not_less)
qed

text \<open>The items of the map sorted by nonce are the contents in order.\<close>

lemma sorted_items:
  assumes "sm_core m"
  shows "go_sort (\<lambda>a b. nonce_of a < nonce_of b) (map snd (sm_items m)) = in_order (content m)"
proof -
  let ?xs = "map snd (sm_items m)"
  have w: "distinct (map fst (sm_items m))" using assms by (simp add: sm_core_def wf_entries_def keys_def)
  have n: "nonce_of tx = k \<and> content m k = Some tx" if "(k, tx) \<in> set (sm_items m)" for k tx
  proof -
    have "content m k = Some tx" using that w by (simp add: content_def)
    then show ?thesis using assms by (simp add: sm_core_def)
  qed
  have keys: "map nonce_of ?xs = keys (sm_items m)" using n by (auto simp: keys_def)
  have srt: "go_sort (\<lambda>a b. nonce_of a < nonce_of b) ?xs = sort_key nonce_of ?xs" by (rule go_sort_key) auto
  have "map nonce_of (sort_key nonce_of ?xs) = ordered_nonces (content m)"
  proof (rule ordered_unique [symmetric])
    show "distinct (map nonce_of (sort_key nonce_of ?xs))"
      using keys w by (metis distinct_map keys_def mset_map mset_sort mset_eq_imp_distinct_iff)
    show "set (map nonce_of (sort_key nonce_of ?xs)) = dom (content m)"
      using keys set_keys [of "sm_items m"] by (metis content_def set_map set_sort)
  qed simp
  moreover have "sort_key nonce_of ?xs = map (the \<circ> content m) (map nonce_of (sort_key nonce_of ?xs))"
    using n by (auto intro!: map_idI [symmetric])
  ultimately show ?thesis by (simp add: srt in_order_def)
qed

section \<open>Operations\<close>

lemma new_ok: "sm_ok newTxSortedMap" "content newTxSortedMap = Map.empty"
  by (simp_all add: sm_ok_def sm_core_def newTxSortedMap_def content_def heap_ok_def fun_eq_iff)

lemma Put_ok:
  assumes "sm_ok m"
  shows "sm_ok (sm_Put tx m)" "content (sm_Put tx m) = (content m)(nonce_of tx \<mapsto> tx)"
proof -
  let ?n = "nonce_of tx"
  have core: "sm_core m" using assms by (simp add: sm_ok_def)
  then have w: "wf_entries (sm_items m)" and h: "heap_ok (<) 0 (length (sm_index m)) (sm_index m)"
    and mi: "mset (sm_index m) = mset (keys (sm_items m))"
    and nn: "\<forall>n tx. content m n = Some tx \<longrightarrow> nonce_of tx = n"
    by (simp_all add: sm_core_def)
  show c: "content (sm_Put tx m) = (content m)(?n \<mapsto> tx)"
    by (auto simp: sm_Put_def content_def Let_def fun_eq_iff)
  show "sm_ok (sm_Put tx m)"
  proof (cases "map_of (sm_items m) ?n = None")
    case True
    then have "?n \<notin> set (keys (sm_items m))" by (simp add: in_keys_iff)
    then show ?thesis
      using w nn mi True nonces.Push_ok [OF h, of ?n] c
      by (auto simp: sm_ok_def sm_core_def sm_Put_def Let_def keys_update)
  next
    case False
    then have "?n \<in> set (keys (sm_items m))" by (simp add: in_keys_iff)
    then show ?thesis
      using w nn mi h False c by (auto simp: sm_ok_def sm_core_def sm_Put_def Let_def keys_update)
  qed
qed

lemma core_delete:
  assumes "sm_core m" and "n \<in> dom (content m)"
    and "heap_ok (<) 0 (length idx) idx" and "mset (sm_index m) = add_mset n (mset idx)"
  shows "sm_core (m\<lparr>sm_items := AList.delete n (sm_items m), sm_index := idx\<rparr>)"
    "content (m\<lparr>sm_items := AList.delete n (sm_items m), sm_index := idx\<rparr>) = (content m)(n := None)"
proof -
  show c: "content (m\<lparr>sm_items := AList.delete n (sm_items m), sm_index := idx\<rparr>) = (content m)(n := None)"
    by (auto simp: content_def fun_eq_iff)
  have w: "distinct (keys (sm_items m))" using assms(1) by (simp add: sm_core_def wf_entries_def)
  have "n \<in> set (keys (sm_items m))" using assms(2) by (auto simp: content_def in_keys_iff)
  then have "add_mset n (mset (filter (\<lambda>k. k \<noteq> n) (keys (sm_items m)))) = mset (keys (sm_items m))"
    using w set_eq_iff_mset_eq_distinct [of "n # filter (\<lambda>k. k \<noteq> n) (keys (sm_items m))" "keys (sm_items m)"] by auto
  then have "add_mset n (mset idx) = add_mset n (mset (keys (AList.delete n (sm_items m))))"
    using assms(1,4) by (simp add: sm_core_def keys_delete)
  then have "mset idx = mset (keys (AList.delete n (sm_items m)))" by (simp only: add_mset_add_mset_same_iff)
  then show "sm_core (m\<lparr>sm_items := AList.delete n (sm_items m), sm_index := idx\<rparr>)"
    using assms(1,3) c by (auto simp: sm_core_def split: if_splits)
qed

lemma Pop_core:
  assumes "sm_core m" and "sm_index m \<noteq> []"
  defines "n \<equiv> sm_index m ! 0"
  defines "m' \<equiv> m\<lparr>sm_items := AList.delete n (sm_items m), sm_index := snd (heap_Pop (<) (sm_index m))\<rparr>"
  shows "fst (heap_Pop (<) (sm_index m)) = n" "sm_core m'" "content m' = (content m)(n := None)"
    "in_order (content m) = the (content m n) # in_order (content m')" "content m n = Some (the (content m n))"
    "ordered_nonces (content m) = n # ordered_nonces (content m')"
proof -
  have h: "heap_ok (<) 0 (length (sm_index m)) (sm_index m)" using assms(1) by (simp add: sm_core_def)
  note pop = nonces.Pop_ok [OF h assms(2)]
  note first = sm_core_first [OF assms(1,2)]
  show "fst (heap_Pop (<) (sm_index m)) = n" using pop(1) by (simp add: n_def)
  show c: "sm_core m'" and e: "content m' = (content m)(n := None)"
    unfolding m'_def n_def using core_delete [OF assms(1) first(1)] pop by simp_all
  show "in_order (content m) = the (content m n) # in_order (content m')"
    "ordered_nonces (content m) = n # ordered_nonces (content m')"
    unfolding e using in_order_min ordered_min first by (simp_all add: n_def)
  show "content m n = Some (the (content m n))" using first(1) by (auto simp: n_def)
qed

lemma Forward_loop:
  assumes "sm_core m"
  shows "\<exists>m'. sm_Forward_loop t r m = (r @ map Some (in_order (content m |` {..<t})), m') \<and>
     sm_core m' \<and> content m' = content m |` {t..} \<and> sm_cache m' = sm_cache m"
  using assms
proof (induction t r m rule: sm_Forward_loop.induct)
  case (1 t r m)
  let ?n = "sm_index m ! 0"
  show ?case
  proof (cases "sm_index m \<noteq> [] \<and> ?n < t")
    case True
    let ?m = "m\<lparr>sm_items := AList.delete ?n (sm_items m), sm_index := snd (heap_Pop (<) (sm_index m))\<rparr>"
    have ne: "sm_index m \<noteq> []" using True by simp
    note p = Pop_core [OF 1(2) ne]
    have lo: "in_order (content m |` {..<t}) = the (content m ?n) # in_order (content ?m |` {..<t})"
    proof -
      have "in_order (content m |` {..<t}) = the ((content m |` {..<t}) ?n) # in_order ((content m |` {..<t})(?n := None))"
        by (rule in_order_min) (use sm_core_first [OF 1(2) ne] True in auto)
      moreover have "(content m |` {..<t})(?n := None) = content ?m |` {..<t}"
        using p(3) by (auto simp: fun_eq_iff restrict_map_def)
      ultimately show ?thesis using True by simp
    qed
    have hi: "content ?m |` {t..} = content m |` {t..}" using p(3) True by (auto simp: fun_eq_iff restrict_map_def)
    have step: "sm_Forward_loop t r m = sm_Forward_loop t (r @ [map_of (sm_items m) ?n]) ?m"
      using True p(1) by (subst sm_Forward_loop.simps) (simp add: Let_def)
    obtain m' where "sm_Forward_loop t (r @ [map_of (sm_items m) ?n]) ?m =
        ((r @ [map_of (sm_items m) ?n]) @ map Some (in_order (content ?m |` {..<t})), m')"
      "sm_core m'" "content m' = content ?m |` {t..}" "sm_cache m' = sm_cache ?m"
      using 1(1) [OF _ refl] True p(1,2) by auto
    then show ?thesis unfolding step lo using hi p(5) by (simp add: content_def)
  next
    case False
    have "n \<ge> t" if "n \<in> dom (content m)" for n
    proof -
      have "sm_index m \<noteq> []" using that sm_core_index(1) [OF 1(2)] by auto
      then show ?thesis using sm_core_first(2) [OF 1(2)] that False by force
    qed
    then have "content m n = None" if "n < t" for n
      using that by (cases "content m n") (auto simp: dom_def not_le [symmetric])
    then have "content m |` {..<t} = Map.empty" "content m |` {t..} = content m"
      by (auto simp: fun_eq_iff restrict_map_def not_le)
    moreover have "sm_Forward_loop t r m = (r, m)" using False by (subst sm_Forward_loop.simps) auto
    ultimately show ?thesis using 1(2) by (simp add: in_order_def ordered_nonces_def)
  qed
qed

lemma Forward_ok:
  assumes "sm_ok m"
  shows "fst (sm_Forward t m) = map Some (in_order (content m |` {..<t}))" "sm_ok (snd (sm_Forward t m))"
    "content (snd (sm_Forward t m)) = content m |` {t..}"
proof -
  obtain m' where m': "sm_Forward_loop t [] m = (map Some (in_order (content m |` {..<t})), m')"
      "sm_core m'" "content m' = content m |` {t..}" "sm_cache m' = sm_cache m"
    using Forward_loop [of m t "[]"] assms by (auto simp: sm_ok_def)
  show "fst (sm_Forward t m) = map Some (in_order (content m |` {..<t}))"
    "content (snd (sm_Forward t m)) = content m |` {t..}"
    using m' by (simp_all add: sm_Forward_def)
  have "drop (length (in_order (content m |` {..<t}))) (in_order (content m)) = in_order (content m |` {t..})"
    by (metis append_eq_conv_conj in_order_split)
  then show "sm_ok (snd (sm_Forward t m))"
    using m' assms by (auto simp: sm_Forward_def sm_ok_def)
qed

definition without :: "(Transaction \<Rightarrow> bool) \<Rightarrow> tx_map \<Rightarrow> tx_map" where
  "without f c = (\<lambda>n. case c n of Some tx \<Rightarrow> if f tx then None else Some tx | None \<Rightarrow> None)"

lemma map_of_filter_val:
  "distinct (map fst es) \<Longrightarrow> map_of (filter (\<lambda>e. \<not> f (snd e)) es) = without f (map_of es)"
proof (induction es)
  case Nil
  then show ?case by (simp add: without_def)
next
  case (Cons e es)
  then have "map_of es (fst e) = None" by (simp add: map_of_eq_None_iff)
  then show ?case using Cons by (cases e) (auto simp: without_def fun_eq_iff split: option.splits)
qed

lemma filter_raw:
  assumes "sm_core m"
  shows "set (fst (sm_filter f m)) = {tx \<in> ran (content m). f tx}" "distinct (fst (sm_filter f m))"
    "content (snd (sm_filter f m)) = without f (content m)" "wf_entries (sm_items (snd (sm_filter f m)))"
    "fst (sm_filter f m) = [] \<Longrightarrow> snd (sm_filter f m) = m"
proof -
  have w: "distinct (map fst (sm_items m))" using assms by (simp add: sm_core_def wf_entries_def keys_def)
  have n: "nonce_of tx = k" if "(k, tx) \<in> set (sm_items m)" for k tx
    using that assms w by (simp add: sm_core_def content_def)
  have "inj_on snd (set (sm_items m))" by (rule inj_onI) (metis n prod.collapse)
  then have "distinct (map snd (sm_items m))" using w by (simp add: distinct_map)
  then show "distinct (fst (sm_filter f m))" by (simp add: sm_filter_def Let_def)
  have "ran (content m) = set (map snd (sm_items m))" using w by (auto simp: content_def ran_distinct)
  then show "set (fst (sm_filter f m)) = {tx \<in> ran (content m). f tx}" by (auto simp: sm_filter_def Let_def)
  show "content (snd (sm_filter f m)) = without f (content m)"
    using map_of_filter_val [OF w] by (simp add: sm_filter_def content_def Let_def)
  show "wf_entries (sm_items (snd (sm_filter f m)))"
    using w by (simp add: sm_filter_def Let_def wf_entries_def keys_def distinct_map_filter)
  assume e: "fst (sm_filter f m) = []"
  then have "\<forall>x \<in> set (sm_items m). \<not> f (snd x)" by (auto simp: sm_filter_def Let_def filter_empty_conv)
  then have "filter (\<lambda>e. \<not> f (snd e)) (sm_items m) = sm_items m" by (simp add: filter_id_conv)
  then show "snd (sm_filter f m) = m" using e by (simp add: sm_filter_def Let_def)
qed

lemma reheap_ok:
  assumes "wf_entries (sm_items m)" and "\<forall>n tx. content m n = Some tx \<longrightarrow> nonce_of tx = n"
  shows "sm_ok (sm_reheap m)" "content (sm_reheap m) = content m"
  using assms nonces.Init_ok [of "keys (sm_items m)"]
  by (simp_all add: sm_reheap_def sm_ok_def sm_core_def content_def)

lemma without_nonces:
  "\<forall>n tx. c n = Some tx \<longrightarrow> nonce_of tx = n \<Longrightarrow> \<forall>n tx. without f c n = Some tx \<longrightarrow> nonce_of tx = n"
  by (auto simp: without_def split: option.splits if_splits)

lemma Filter_ok:
  assumes "sm_ok m"
  shows "set (fst (sm_Filter f m)) = {tx \<in> ran (content m). f tx}" "distinct (fst (sm_Filter f m))"
    "sm_ok (snd (sm_Filter f m))" "content (snd (sm_Filter f m)) = without f (content m)"
proof -
  have core: "sm_core m" using assms by (simp add: sm_ok_def)
  note r = filter_raw [OF core, of f]
  have nn: "\<forall>n tx. content m n = Some tx \<longrightarrow> nonce_of tx = n" using core by (simp add: sm_core_def)
  have re: "sm_ok (sm_reheap (snd (sm_filter f m)))" "content (sm_reheap (snd (sm_filter f m))) = without f (content m)"
    using reheap_ok [OF r(4)] r(3) without_nonces [OF nn, of f] by simp_all
  have F: "sm_Filter f m = (fst (sm_filter f m), if fst (sm_filter f m) \<noteq> [] then sm_reheap (snd (sm_filter f m)) else snd (sm_filter f m))"
    by (simp add: sm_Filter_def case_prod_beta Let_def)
  show "set (fst (sm_Filter f m)) = {tx \<in> ran (content m). f tx}" "distinct (fst (sm_Filter f m))"
    using r(1,2) by (simp_all add: F)
  show "sm_ok (snd (sm_Filter f m))" "content (snd (sm_Filter f m)) = without f (content m)"
    using re r(3,5) assms by (auto simp: F)
qed

lemma keys_fold_delete: "keys (fold AList.delete ns es) = filter (\<lambda>k. k \<notin> set ns) (keys es)"
  by (induction ns arbitrary: es) (simp_all add: keys_delete conj_commute)

lemma map_of_fold_delete: "map_of (fold AList.delete ns es) n = (if n \<in> set ns then None else map_of es n)"
  by (induction ns arbitrary: es) auto

lemma map_nth_drop: "map ((!) xs) [k..<length xs] = drop k xs"
  by (rule nth_equalityI) auto

lemma Cap_ok:
  assumes "sm_ok m"
  shows "fst (sm_Cap k m) = map Some (rev (drop k (in_order (content m))))" "sm_ok (snd (sm_Cap k m))"
    "content (snd (sm_Cap k m)) = content m |` set (take k (ordered_nonces (content m)))"
proof -
  let ?c = "content m" and ?ns = "ordered_nonces (content m)"
  have core: "sm_core m" using assms by (simp add: sm_ok_def)
  note idx = sm_core_index [OF core]
  show "fst (sm_Cap k m) = map Some (rev (drop k (in_order ?c)))" "sm_ok (snd (sm_Cap k m))"
    "content (snd (sm_Cap k m)) = ?c |` set (take k ?ns)"
  proof (atomize (full), cases "length (sm_items m) \<le> k")
    case True
    then have "take k ?ns = ?ns" "drop k (in_order ?c) = []" using idx(5) by simp_all
    moreover have "?c |` dom ?c = ?c" by (rule ext) (simp add: restrict_map_def domIff)
    ultimately show "fst (sm_Cap k m) = map Some (rev (drop k (in_order ?c))) \<and> sm_ok (snd (sm_Cap k m)) \<and>
      content (snd (sm_Cap k m)) = ?c |` set (take k ?ns)"
      using True assms by (simp add: sm_Cap_def)
  next
    case False
    let ?D = "rev (drop k ?ns)"
    have srt: "go_sort (<) (sm_index m) = ?ns" using idx(3) by (simp add: go_sort_less)
    have D: "map ((!) ?ns) (rev [k..<length (sm_items m)]) = ?D"
      by (simp add: rev_map [symmetric] idx(5) map_nth_drop)
    let ?m = "m\<lparr>sm_items := fold AList.delete ?D (sm_items m), sm_index := heap_Init (<) (take k ?ns),
        sm_cache := map_option (\<lambda>c. take (length c - length ?D) c) (sm_cache m)\<rparr>"
    have cap: "sm_Cap k m = (map ?c ?D, ?m)"
      using False unfolding sm_Cap_def Let_def srt D by (simp add: content_def)
    have ns: "set (drop k ?ns) = dom ?c - set (take k ?ns)" "set (drop k ?ns) \<inter> set (take k ?ns) = {}"
    proof -
      have "distinct (take k ?ns @ drop k ?ns)" by simp
      then show "set (drop k ?ns) \<inter> set (take k ?ns) = {}" by (simp add: Int_commute del: append_take_drop_id)
      moreover have "set (take k ?ns) \<union> set (drop k ?ns) = dom ?c"
        by (metis append_take_drop_id set_append ordered_nonces_props(3))
      ultimately show "set (drop k ?ns) = dom ?c - set (take k ?ns)" by blast
    qed
    have r: "map ?c ?D = map Some (rev (drop k (in_order ?c)))"
      by (auto simp: in_order_def drop_map rev_map intro!: map_cong dest: in_set_dropD)
         (metis domIff in_set_dropD option.collapse ordered_nonces_props(3))
    have con: "content ?m = ?c |` set (take k ?ns)"
      using ns(1) by (auto simp: content_def map_of_fold_delete fun_eq_iff restrict_map_def dom_def)
    have "set (keys (fold AList.delete ?D (sm_items m))) = dom (content ?m)" by (simp add: set_keys content_def)
    also have "\<dots> = set (take k ?ns)" unfolding con using ordered_nonces_props(3) [of ?c] by (auto dest: in_set_takeD)
    finally have "set (keys (fold AList.delete ?D (sm_items m))) = set (take k ?ns)" .
    moreover have "distinct (keys (fold AList.delete ?D (sm_items m)))"
      using core by (simp add: keys_fold_delete sm_core_def wf_entries_def)
    ultimately have ms: "mset (take k ?ns) = mset (keys (fold AList.delete ?D (sm_items m)))"
      using set_eq_iff_mset_eq_distinct [of "take k ?ns" "keys (fold AList.delete ?D (sm_items m))"] by simp
    have nn: "nonce_of tx = n" if "content ?m n = Some tx" for n tx
      using that core unfolding con by (auto simp: sm_core_def restrict_map_def split: if_splits)
    have "sm_core ?m"
      using nonces.Init_ok [of "take k ?ns"] ms core nn
      by (simp add: sm_core_def wf_entries_def keys_fold_delete)
    moreover have "take (length ?ns - (length ?ns - k)) (in_order ?c) = take k (in_order ?c)"
      using False idx(5) by simp
    ultimately have "sm_ok ?m"
      using assms con in_order_take [of ?c k] by (auto simp: sm_ok_def)
    then show "fst (sm_Cap k m) = map Some (rev (drop k (in_order ?c))) \<and> sm_ok (snd (sm_Cap k m)) \<and>
      content (snd (sm_Cap k m)) = ?c |` set (take k ?ns)"
      using cap r con by simp
  qed
qed

lemma Remove_map_ok:
  assumes "sm_ok m"
  shows "fst (sm_Remove n m) \<longleftrightarrow> content m n \<noteq> None" "sm_ok (snd (sm_Remove n m))"
    "content (snd (sm_Remove n m)) = (content m)(n := None)"
proof -
  have core: "sm_core m" using assms by (simp add: sm_ok_def)
  show "fst (sm_Remove n m) \<longleftrightarrow> content m n \<noteq> None" by (simp add: sm_Remove_def content_def Let_def)
  show "sm_ok (snd (sm_Remove n m))" "content (snd (sm_Remove n m)) = (content m)(n := None)"
  proof (atomize (full), cases "content m n = None")
    case True
    then show "sm_ok (snd (sm_Remove n m)) \<and> content (snd (sm_Remove n m)) = (content m)(n := None)"
      using assms by (simp add: sm_Remove_def content_def fun_upd_idem)
  next
    case False
    then obtain tx where tx: "map_of (sm_items m) n = Some tx" by (auto simp: content_def)
    have dom: "n \<in> dom (content m)" using False by auto
    then have "n \<in> set (sm_index m)" using sm_core_index(1) [OF core] by simp
    then have "List.find (\<lambda>i. sm_index m ! i = n) [0..<length (sm_index m)] \<noteq> None"
      by (auto simp: find_None_iff in_set_conv_nth)
    then obtain i where i: "List.find (\<lambda>i. sm_index m ! i = n) [0..<length (sm_index m)] = Some i" by auto
    then have ix: "i < length (sm_index m)" "sm_index m ! i = n" by (auto simp: find_Some_iff)
    have "heap_ok (<) 0 (length (sm_index m)) (sm_index m)" using core by (simp add: sm_core_def)
    note rem = nonces.Remove_ok [OF this ix(1)]
    let ?m = "m\<lparr>sm_items := AList.delete n (sm_items m), sm_index := snd (heap_Remove (<) i (sm_index m))\<rparr>"
    have "sm_core ?m" "content ?m = (content m)(n := None)"
      using core_delete [OF core dom] rem ix(2) by simp_all
    moreover have "snd (sm_Remove n m) = ?m\<lparr>sm_cache := None\<rparr>"
      using tx i by (simp add: sm_Remove_def Let_def)
    ultimately show "sm_ok (snd (sm_Remove n m)) \<and> content (snd (sm_Remove n m)) = (content m)(n := None)"
      by (simp add: sm_ok_def)
  qed
qed

text \<open>How many of the nonces continue \<open>n\<close> without a gap.\<close>

fun run_length :: "u64 \<Rightarrow> u64 list \<Rightarrow> nat" where
  "run_length n [] = 0"
| "run_length n (k # ks) = (if k = n then Suc (run_length (n + 1) ks) else 0)"

lemma Ready_loop:
  assumes "sm_core m"
  shows "\<exists>m'. sm_Ready_loop n r m =
       (r @ map Some (take (run_length n (ordered_nonces (content m))) (in_order (content m))), m') \<and> sm_core m' \<and>
     content m' = content m |` set (drop (run_length n (ordered_nonces (content m))) (ordered_nonces (content m)))"
  using assms
proof (induction "length (sm_index m)" arbitrary: n r m rule: less_induct)
  case (less m n r)
  let ?c = "content m"
  have idx: "sm_index m = [] \<longleftrightarrow> ordered_nonces ?c = []"
    using sm_core_index(4,5) [OF less.prems(1)] by (metis length_0_conv)
  show ?case
  proof (cases "sm_index m \<noteq> [] \<and> sm_index m ! 0 = n")
    case True
    let ?m = "m\<lparr>sm_items := AList.delete n (sm_items m), sm_index := snd (heap_Pop (<) (sm_index m))\<rparr>"
    have ne: "sm_index m \<noteq> []" and n: "sm_index m ! 0 = n" using True by auto
    note p = Pop_core [OF less.prems(1) ne, unfolded n]
    have step: "sm_Ready_loop n r m = sm_Ready_loop (n + 1) (r @ [?c n]) ?m"
      using True by (subst sm_Ready_loop.simps) (simp add: content_def)
    let ?k = "run_length (n + 1) (ordered_nonces (content ?m))"
    have k: "run_length n (ordered_nonces ?c) = Suc ?k" by (simp add: p(6))
    have "length (sm_index ?m) < length (sm_index m)" using ne by (simp add: length_heap_Pop)
    from less.hyps [OF this p(2), of "n + 1" "r @ [?c n]"] obtain m' where
      m': "sm_Ready_loop (n + 1) (r @ [?c n]) ?m = ((r @ [?c n]) @ map Some (take ?k (in_order (content ?m))), m')"
        "sm_core m'" "content m' = content ?m |` set (drop ?k (ordered_nonces (content ?m)))" by blast
    have "n \<notin> set (ordered_nonces (content ?m))" using p(3) by simp
    then have "n \<notin> set (drop ?k (ordered_nonces (content ?m)))" by (meson in_set_dropD)
    then have "content ?m |` set (drop ?k (ordered_nonces (content ?m))) = ?c |` set (drop ?k (ordered_nonces (content ?m)))"
      unfolding p(3) by (auto simp: fun_eq_iff restrict_map_def)
    then show ?thesis
      unfolding step k using m' p(4-6) by (simp del: fun_upd_apply)
  next
    case False
    have "run_length n (ordered_nonces ?c) = 0"
    proof (cases "sm_index m = []")
      case True
      then show ?thesis using idx by simp
    next
      case ne: False
      then show ?thesis using False Pop_core(6) [OF less.prems(1) ne] by simp
    qed
    moreover have "sm_Ready_loop n r m = (r, m)" using False by (subst sm_Ready_loop.simps) auto
    moreover have "?c |` dom ?c = ?c" by (rule ext) (simp add: restrict_map_def domIff)
    ultimately show ?thesis using less.prems(1) by simp
  qed
qed

definition ready_count :: "u64 \<Rightarrow> tx_map \<Rightarrow> nat" where
  "ready_count start c =
     (case ordered_nonces c of [] \<Rightarrow> 0 | n # ns \<Rightarrow> if n > start then 0 else run_length n (n # ns))"

lemma Ready_ok:
  assumes "sm_ok m"
  shows "fst (sm_Ready start m) = map Some (take (ready_count start (content m)) (in_order (content m)))"
    "sm_ok (snd (sm_Ready start m))"
    "content (snd (sm_Ready start m)) = content m |` set (drop (ready_count start (content m)) (ordered_nonces (content m)))"
proof -
  let ?c = "content m"
  have core: "sm_core m" using assms by (simp add: sm_ok_def)
  have all: "?c |` dom ?c = ?c" by (rule ext) (simp add: restrict_map_def domIff)
  show "fst (sm_Ready start m) = map Some (take (ready_count start ?c) (in_order ?c))"
    "sm_ok (snd (sm_Ready start m))"
    "content (snd (sm_Ready start m)) = ?c |` set (drop (ready_count start ?c) (ordered_nonces ?c))"
  proof (atomize (full), cases "sm_index m = [] \<or> sm_index m ! 0 > start")
    case True
    have "ready_count start ?c = 0"
    proof (cases "sm_index m = []")
      case True
      then have "ordered_nonces ?c = []" using sm_core_index(4,5) [OF core] by (metis length_0_conv)
      then show ?thesis by (simp add: ready_count_def)
    next
      case False
      then show ?thesis using Pop_core(6) [OF core False] True by (simp add: ready_count_def)
    qed
    then show "fst (sm_Ready start m) = map Some (take (ready_count start ?c) (in_order ?c)) \<and>
      sm_ok (snd (sm_Ready start m)) \<and>
      content (snd (sm_Ready start m)) = ?c |` set (drop (ready_count start ?c) (ordered_nonces ?c))"
      using True assms all by (auto simp: sm_Ready_def)
  next
    case False
    let ?n = "sm_index m ! 0"
    have "ordered_nonces ?c = ?n # ordered_nonces (content (m\<lparr>sm_items := AList.delete ?n (sm_items m), sm_index := snd (heap_Pop (<) (sm_index m))\<rparr>))"
      using Pop_core(6) [OF core] False by blast
    then have k: "ready_count start ?c = run_length ?n (ordered_nonces ?c)"
      using False by (simp add: ready_count_def)
    obtain m' where m': "sm_Ready_loop ?n [] m = ([] @ map Some (take (ready_count start ?c) (in_order ?c)), m')"
        "sm_core m'" "content m' = ?c |` set (drop (ready_count start ?c) (ordered_nonces ?c))"
      using Ready_loop [OF core, of ?n "[]"] unfolding k by blast
    have "sm_Ready start m = (map Some (take (ready_count start ?c) (in_order ?c)), m'\<lparr>sm_cache := None\<rparr>)"
      using False m'(1) by (simp add: sm_Ready_def)
    then show "fst (sm_Ready start m) = map Some (take (ready_count start ?c) (in_order ?c)) \<and>
      sm_ok (snd (sm_Ready start m)) \<and>
      content (snd (sm_Ready start m)) = ?c |` set (drop (ready_count start ?c) (ordered_nonces ?c))"
      using m'(2,3) by (simp add: sm_ok_def)
  qed
qed

lemma flatten_ok:
  assumes "sm_ok m"
  shows "fst (sm_flatten m) = in_order (content m)" "sm_ok (snd (sm_flatten m))"
    "content (snd (sm_flatten m)) = content m"
  using assms sorted_items [of m]
  by (auto simp: sm_flatten_def sm_ok_def Let_def content_def [of m] split: option.splits)

section \<open>Transaction lists\<close>

text \<open>The caps bound the cost and the gas of every transaction in the list.\<close>

definition tl_ok :: "txList \<Rightarrow> bool" where
  "tl_ok l \<longleftrightarrow> sm_ok (tl_txs l) \<and>
     (\<forall>tx \<in> ran (content (tl_txs l)). Cost (tx_inner tx) \<le> tl_costcap l \<and> tx_gas (tx_inner tx) \<le> tl_gascap l)"

lemma tl_lowest_min:
  "removed \<noteq> [] \<Longrightarrow> tl_lowest removed = Min (nonce_of ` set removed)"
proof -
  have "fold (\<lambda>tx low. if low > nonce_of tx then nonce_of tx else low) xs a = Min (insert a (nonce_of ` set xs))" for xs a
  proof (induction xs arbitrary: a)
    case Nil
    then show ?case by simp
  next
    case (Cons x xs)
    have "(if a > nonce_of x then nonce_of x else a) = min a (nonce_of x)" by (auto simp: min_def)
    then show ?case using Cons [of "min a (nonce_of x)"]
      by (simp add: insert_commute) (cases "xs = []"; simp add: Min_insert min.assoc [symmetric] min.commute)
  qed
  then have "tl_lowest removed = Min (insert 0xffffffffffffffff (nonce_of ` set removed))" by (simp add: tl_lowest_def)
  moreover have "w \<le> 0xffffffffffffffff" for w :: u64
    using unat_u64_bound [of w] by (simp add: word_le_nat_alt)
  moreover assume "removed \<noteq> []"
  ultimately show ?thesis by (simp add: Min_insert min_absorb2 del: Min_le_iff)
qed

lemma ran_without: "ran (without f c) = {tx \<in> ran c. \<not> f tx}"
  by (auto simp: without_def ran_def split: option.splits if_splits)

lemma without_without: "without g (without f c) = without (\<lambda>tx. f tx \<or> g tx) c"
  by (auto simp: without_def fun_eq_iff split: option.splits)

lemma without_none: "\<forall>tx \<in> ran c. \<not> f tx \<Longrightarrow> without f c = c"
  by (rule ext) (auto simp: without_def ran_def split: option.splits)

lemma ran_update_subset: "ran (c(n \<mapsto> tx)) \<subseteq> insert tx (ran c)"
  by (auto simp: ran_def)

lemma tl_Add_ok:
  assumes "tl_ok l"
  shows "tl_ok (snd (tl_Add tx bump l))"
proof (cases "fst (fst (tl_Add tx bump l))")
  case True
  then have l: "snd (tl_Add tx bump l) = l\<lparr>tl_txs := sm_Put tx (tl_txs l),
      tl_costcap := (if tl_costcap l < Cost (tx_inner tx) then Cost (tx_inner tx) else tl_costcap l),
      tl_gascap := (if tl_gascap l < tx_gas (tx_inner tx) then tx_gas (tx_inner tx) else tl_gascap l)\<rparr>"
    by (simp add: tl_Add_def Let_def split: if_splits)
  show ?thesis
    unfolding l tl_ok_def using assms Put_ok [of "tl_txs l" tx] ran_update_subset [of "content (tl_txs l)" "nonce_of tx" tx]
    by (fastforce simp: tl_ok_def)
next
  case False
  then have "snd (tl_Add tx bump l) = l" by (simp add: tl_Add_def Let_def split: if_splits)
  then show ?thesis using assms by simp
qed

definition over_limits :: "int \<Rightarrow> u64 \<Rightarrow> Transaction \<Rightarrow> bool" where
  "over_limits costLimit gasLimit tx \<longleftrightarrow> tx_gas (tx_inner tx) > gasLimit \<or> Cost (tx_inner tx) > costLimit"

definition later_than_removed :: "bool \<Rightarrow> (Transaction \<Rightarrow> bool) \<Rightarrow> tx_map \<Rightarrow> Transaction \<Rightarrow> bool" where
  "later_than_removed strict f c tx \<longleftrightarrow>
     strict \<and> (\<exists>x \<in> ran c. f x) \<and> nonce_of tx > Min (nonce_of ` {x \<in> ran c. f x})"

lemma tl_Filter_slow:
  assumes "tl_ok l" and "c = content (tl_txs l)" and "over = over_limits costLimit gasLimit"
    and "\<not> (tl_costcap l \<le> costLimit \<and> tl_gascap l \<le> gasLimit)"
  shows "tl_ok (snd (tl_Filter costLimit gasLimit l)) \<and>
    content (tl_txs (snd (tl_Filter costLimit gasLimit l))) =
      without (\<lambda>tx. over tx \<or> later_than_removed (tl_strict l) over c tx) c \<and>
    set (fst (fst (tl_Filter costLimit gasLimit l))) = {tx \<in> ran c. over tx} \<and>
    set (snd (fst (tl_Filter costLimit gasLimit l))) = {tx \<in> ran c. \<not> over tx \<and> later_than_removed (tl_strict l) over c tx}"
proof -
  let ?late = "later_than_removed (tl_strict l) over c"
  define r m1 where "r = fst (sm_Filter over (tl_txs l))" and "m1 = snd (sm_Filter over (tl_txs l))"
  have sm: "sm_ok (tl_txs l)" using assms(1) by (simp add: tl_ok_def)
  note f = Filter_ok [OF sm, of over, folded r_def m1_def assms(2)]
  have ov: "over = (\<lambda>tx. tx_gas (tx_inner tx) > gasLimit \<or> Cost (tx_inner tx) > costLimit)"
    by (simp add: assms(3) over_limits_def fun_eq_iff)
  have within: "Cost (tx_inner tx) \<le> costLimit \<and> tx_gas (tx_inner tx) \<le> gasLimit" if "\<not> over tx" for tx
    using that by (auto simp: ov)
  have F: "tl_Filter costLimit gasLimit l =
     (let l1 = l\<lparr>tl_costcap := costLimit, tl_gascap := gasLimit\<rparr>
      in if r = [] then (([], []), l1\<lparr>tl_txs := m1\<rparr>)
         else let (invalids, m2) = (if tl_strict l
                    then sm_filter (\<lambda>tx. nonce_of tx > tl_lowest r) m1 else ([], m1))
              in ((r, invalids), l1\<lparr>tl_txs := sm_reheap m2\<rparr>))"
    unfolding tl_Filter_def if_not_P [OF assms(4)] Let_def r_def m1_def ov by (simp add: case_prod_beta)
  show ?thesis
  proof (cases "r = []")
    case True
    then have "{tx \<in> ran c. over tx} = {}" using f(1) by simp
    moreover from this have "?late tx = False" for tx by (auto simp: later_than_removed_def)
    ultimately show ?thesis using True F f(3,4) within by (auto simp: tl_ok_def ran_without)
  next
    case False
    have core: "sm_core m1" using f(3) by (simp add: sm_ok_def)
    have nn: "\<forall>n tx. content m1 n = Some tx \<longrightarrow> nonce_of tx = n" using core by (simp add: sm_core_def)
    have low: "tl_lowest r = Min (nonce_of ` {x \<in> ran c. over x})" using tl_lowest_min [OF False] f(1) by simp
    have some: "\<exists>x \<in> ran c. over x" using False f(1) by (cases r) auto
    show ?thesis
    proof (cases "tl_strict l")
      case True
      let ?g = "\<lambda>tx. nonce_of tx > tl_lowest r"
      note g = filter_raw [OF core, of ?g]
      have late: "?late = ?g" using True some low by (auto simp: later_than_removed_def fun_eq_iff)
      note h = reheap_ok [OF g(4)]
      have "sm_ok (sm_reheap (snd (sm_filter ?g m1)))" "content (sm_reheap (snd (sm_filter ?g m1))) = without ?g (without over c)"
        using h g(3) f(4) without_nonces [OF nn, of ?g] by simp_all
      then show ?thesis unfolding late using False F True g(1) f(1,4) within
        by (auto simp: Let_def case_prod_beta tl_ok_def ran_without without_without)
    next
      case ns: False
      have late: "?late tx = False" for tx using ns by (simp add: later_than_removed_def)
      have "sm_ok (sm_reheap m1)" "content (sm_reheap m1) = without over c"
        using reheap_ok [of m1] core nn f(4) by (simp_all add: sm_core_def)
      then show ?thesis unfolding late using False F ns f(1) within by (auto simp: Let_def tl_ok_def ran_without)
    qed
  qed
qed

section \<open>Properties\<close>

text \<open>
  C29. The nonce-sorted map of the pool is a finite map from nonces to transactions. The heap of
  nonces and the cached slice stay consistent with it under every operation: \<open>Put\<close> updates,
  \<open>Remove\<close> deletes, \<open>Forward\<close> returns the transactions below the threshold in nonce order and keeps
  the rest, \<open>Filter\<close> removes exactly what the predicate selects, \<open>Cap\<close> keeps the lowest nonces and
  returns the others from the highest down, \<open>Ready\<close> returns the gap-free run from the lowest nonce
  if that is not above the start (nonces below the start but behind a gap stay, although the comment on
  \<open>Ready\<close> says they are returned too), and flattening lists the transactions in nonce order.
\<close>

theorem txSortedMap_refines:
  assumes "sm_ok m"
  shows "(let m' = sm_Put tx m in sm_ok m' \<and> content m' = (content m)(nonce_of tx \<mapsto> tx)) \<and>
    (let (b, m') = sm_Remove n m in sm_ok m' \<and> b = (content m n \<noteq> None) \<and> content m' = (content m)(n := None)) \<and>
    (let (r, m') = sm_Forward n m in sm_ok m' \<and> r = map Some (in_order (content m |` {..<n})) \<and> content m' = content m |` {n..}) \<and>
    (let (r, m') = sm_Filter f m in sm_ok m' \<and> set r = {tx \<in> ran (content m). f tx} \<and> distinct r \<and> content m' = without f (content m)) \<and>
    (let (r, m') = sm_Cap k m in sm_ok m' \<and> r = map Some (rev (drop k (in_order (content m)))) \<and>
        content m' = content m |` set (take k (ordered_nonces (content m)))) \<and>
    (let (r, m') = sm_Ready n m; k = ready_count n (content m) in sm_ok m' \<and> r = map Some (take k (in_order (content m))) \<and>
        content m' = content m |` set (drop k (ordered_nonces (content m)))) \<and>
    (let (r, m') = sm_flatten m in sm_ok m' \<and> r = in_order (content m) \<and> content m' = content m) \<and>
    sm_ok newTxSortedMap \<and> content newTxSortedMap = Map.empty"
  using Put_ok [OF assms] Remove_map_ok [OF assms] Forward_ok [OF assms] Filter_ok [OF assms] Cap_ok [OF assms]
    Ready_ok [OF assms] flatten_ok [OF assms] new_ok
  by (simp add: case_prod_beta Let_def)

definition exampleTx :: "u64 \<Rightarrow> int \<Rightarrow> Transaction" where
  "exampleTx nonce price = NewTx 0 (LegacyD \<lparr>ltx_Nonce = nonce, ltx_GasPrice = price, ltx_Gas = 21000, ltx_To = Some 9,
     ltx_Value = 5, ltx_Data = [], ltx_V = 27, ltx_R = 1, ltx_S = 1\<rparr>)"

theorem txSortedMap_refines_witness:
  "sm_ok (sm_Put (exampleTx 1 7) (sm_Put (exampleTx 0 7) newTxSortedMap)) \<and>
   fst (sm_flatten (sm_Put (exampleTx 0 7) newTxSortedMap)) = [exampleTx 0 7]"
proof -
  let ?m = "sm_Put (exampleTx 0 7) newTxSortedMap"
  have ok: "sm_ok newTxSortedMap" by (rule new_ok)
  from txSortedMap_refines [OF ok, of "exampleTx 0 7"]
  have 1: "sm_ok ?m" "content ?m = [0 \<mapsto> exampleTx 0 7]"
    by (simp_all add: Let_def nonce_of_def exampleTx_def NewTx_def)
  from txSortedMap_refines [OF 1(1), of "exampleTx 1 7"] show ?thesis
    by (simp add: Let_def case_prod_beta 1(2) in_order_def ordered_nonces_def)
qed

text \<open>
  C30. Filtering a list by funds and gas is exact, although it is skipped when the caps say so: from
  a list whose caps bound its transactions, \<open>Filter\<close> leaves only transactions within both limits
  (and, in a strict list, only those with a nonce below the first one dropped), returns as removed
  exactly the ones beyond a limit and as invalidated exactly the later ones of a strict list, and
  the caps bound the remaining transactions again. \<open>Add\<close> keeps the caps too.
\<close>

theorem txList_Filter_exact:
  assumes "tl_ok l" and "c = content (tl_txs l)"
    and "over = over_limits costLimit gasLimit" and "late = later_than_removed (tl_strict l) over c"
  shows "tl_ok (snd (tl_Filter costLimit gasLimit l)) \<and>
    content (tl_txs (snd (tl_Filter costLimit gasLimit l))) = without (\<lambda>tx. over tx \<or> late tx) c \<and>
    set (fst (fst (tl_Filter costLimit gasLimit l))) = {tx \<in> ran c. over tx} \<and>
    set (snd (fst (tl_Filter costLimit gasLimit l))) = {tx \<in> ran c. \<not> over tx \<and> late tx} \<and>
    tl_ok (snd (tl_Add tx bump l))"
proof (cases "tl_costcap l \<le> costLimit \<and> tl_gascap l \<le> gasLimit")
  case True
  then have "\<forall>tx \<in> ran c. \<not> over tx" using assms(1) by (fastforce simp: tl_ok_def over_limits_def assms(2,3))
  then have "{tx \<in> ran c. over tx} = {}" "\<forall>tx. \<not> late tx" by (auto simp: later_than_removed_def assms(4))
  then show ?thesis
    using True assms(1,2) without_none [of c "\<lambda>tx. over tx \<or> late tx"] tl_Add_ok [OF assms(1)]
    by (auto simp: tl_Filter_def)
next
  case False
  then show ?thesis
    using tl_Filter_slow [OF assms(1-3)] tl_Add_ok [OF assms(1)] assms(4) by simp
qed

theorem txList_Filter_exact_witness:
  "\<exists>l. tl_ok l \<and> set (fst (fst (tl_Filter 10 30000 (snd (tl_Add (exampleTx 0 7) 10 (newTxList True)))))) = {exampleTx 0 7}"
proof -
  let ?l = "snd (tl_Add (exampleTx 0 7) 10 (newTxList True))"
  have new: "tl_ok (newTxList True)" using new_ok by (simp add: tl_ok_def newTxList_def)
  note 0 = txList_Filter_exact [OF new refl refl refl]
  have ok: "tl_ok ?l" using 0 by blast
  have "content (tl_txs ?l) = [0 \<mapsto> exampleTx 0 7]"
    using Put_ok(2) [OF new_ok(1)] new_ok
    by (simp add: tl_Add_def newTxList_def sm_Get_def newTxSortedMap_def [symmetric] Let_def content_def nonce_of_def
        exampleTx_def NewTx_def)
  moreover have "over_limits 10 30000 (exampleTx 0 7)"
    by (simp add: over_limits_def exampleTx_def NewTx_def Cost_def pledgeAmount_def SPECIAL_REGISTER_PNS_def
        SPECIAL_REGISTER_AUTHORIZE_def SPECIAL_REGISTER_LOSE_def)
  ultimately have "set (fst (fst (tl_Filter 10 30000 ?l))) = {exampleTx 0 7}"
    using txList_Filter_exact [OF ok refl refl refl, of 10 30000] by auto
  then show ?thesis using ok by blast
qed

end
