(* ===== verification/TxOrder.thy ===== *)
theory TxOrder
  imports Heap GoMap SigningProps
begin

text \<open>
  The order in which a block producer takes transactions (\<open>TransactionsByPriceAndNonce\<close> of
  \<open>src/core/types/transaction.go\<close>): per account the transactions in nonce order, and a heap of the
  accounts' next transactions by the fee they pay the producer. A sender that cannot be recovered is
  the zero address, as the code ignores the error.
\<close>

section \<open>The price heap\<close>

record TxWithMinerFee =
  mf_tx :: Transaction
  mf_minerFee :: int

definition NewTxWithMinerFee :: "Transaction \<Rightarrow> int option \<Rightarrow> TxWithMinerFee option" where
  "NewTxWithMinerFee tx baseFee =
     (let (minerFee, err) = EffectiveGasTip (tx_inner tx) baseFee
      in if err then None else Some \<lparr>mf_tx = tx, mf_minerFee = minerFee\<rparr>)"

definition price_less :: "TxWithMinerFee \<Rightarrow> TxWithMinerFee \<Rightarrow> bool" where
  "price_less a b =
     (if mf_minerFee a = mf_minerFee b then tx_time (mf_tx a) < tx_time (mf_tx b)
      else mf_minerFee a > mf_minerFee b)"

interpretation prices: heap_order price_less
  by unfold_locales (auto simp: price_less_def split: if_splits)

record TransactionsByPriceAndNonce =
  pn_txs :: "(address, Transaction list) entries"
  pn_heads :: "TxWithMinerFee list"
  pn_signer :: Signer
  pn_baseFee :: "int option"

definition sender_of :: "Crypto \<Rightarrow> Signer \<Rightarrow> Transaction \<Rightarrow> address" where
  "sender_of cy signer tx = (case fst (Sender cy signer tx) of Inr a \<Rightarrow> a | Inl e \<Rightarrow> 0)"

definition add_head :: "Crypto \<Rightarrow> Signer \<Rightarrow> int option \<Rightarrow> address \<times> Transaction list \<Rightarrow>
    (address, Transaction list) entries \<times> TxWithMinerFee list \<Rightarrow>
    panic + (address, Transaction list) entries \<times> TxWithMinerFee list" where
  "add_head cy signer baseFee e s =
     (case (e, s) of ((addr, accTxs), (txs, heads)) \<Rightarrow>
        case accTxs of
          [] \<Rightarrow> Inl PanicIndex
        | tx # rest \<Rightarrow>
            (case NewTxWithMinerFee tx baseFee of
               Some wrapped \<Rightarrow>
                 if sender_of cy signer tx \<noteq> addr then Inr (AList.delete addr txs, heads)
                 else Inr (AList.update addr rest txs, heads @ [wrapped])
             | None \<Rightarrow> Inr (AList.delete addr txs, heads)))"

definition NewTransactionsByPriceAndNonce ::
  "Crypto \<Rightarrow> Signer \<Rightarrow> (address, Transaction list) entries \<Rightarrow> int option \<Rightarrow> panic + TransactionsByPriceAndNonce" where
  "NewTransactionsByPriceAndNonce cy signer txs baseFee =
     bindE (foldE (add_head cy signer baseFee) txs (txs, [])) (\<lambda>(txs', heads).
       Inr \<lparr>pn_txs = txs', pn_heads = heap_Init price_less heads, pn_signer = signer, pn_baseFee = baseFee\<rparr>)"

definition pn_Peek :: "TransactionsByPriceAndNonce \<Rightarrow> Transaction option" where
  "pn_Peek t = (if length (pn_heads t) = 0 then None else Some (mf_tx (pn_heads t ! 0)))"

definition pn_Pop :: "TransactionsByPriceAndNonce \<Rightarrow> panic + TransactionsByPriceAndNonce" where
  "pn_Pop t =
     (if length (pn_heads t) = 0 then Inl PanicIndex
      else Inr (t\<lparr>pn_heads := snd (heap_Pop price_less (pn_heads t))\<rparr>))"

definition pn_Shift :: "Crypto \<Rightarrow> TransactionsByPriceAndNonce \<Rightarrow> panic + TransactionsByPriceAndNonce" where
  "pn_Shift cy t =
     (if length (pn_heads t) = 0 then Inl PanicIndex
      else let acc = sender_of cy (pn_signer t) (mf_tx (pn_heads t ! 0))
           in case map_of (pn_txs t) acc of
                Some (tx # rest) \<Rightarrow>
                  (case NewTxWithMinerFee tx (pn_baseFee t) of
                     Some wrapped \<Rightarrow>
                       Inr (t\<lparr>pn_heads := heap_Fix price_less 0 ((pn_heads t)[0 := wrapped]),
                              pn_txs := AList.update acc rest (pn_txs t)\<rparr>)
                   | None \<Rightarrow> pn_Pop t)
              | _ \<Rightarrow> pn_Pop t)"

section \<open>A queue per account\<close>

definition head_acc :: "Crypto \<Rightarrow> TransactionsByPriceAndNonce \<Rightarrow> TxWithMinerFee \<Rightarrow> address" where
  "head_acc cy t h = sender_of cy (pn_signer t) (mf_tx h)"

definition rest_of :: "TransactionsByPriceAndNonce \<Rightarrow> address \<Rightarrow> Transaction list" where
  "rest_of t a = (case map_of (pn_txs t) a of Some l \<Rightarrow> l | None \<Rightarrow> [])"

text \<open>The transactions still to come from an account, the next one first.\<close>

definition queue :: "Crypto \<Rightarrow> TransactionsByPriceAndNonce \<Rightarrow> address \<Rightarrow> Transaction list" where
  "queue cy t a = (case filter (\<lambda>h. head_acc cy t h = a) (pn_heads t) of [] \<Rightarrow> [] | h # hs \<Rightarrow> mf_tx h # rest_of t a)"

definition pn_ok :: "Crypto \<Rightarrow> TransactionsByPriceAndNonce \<Rightarrow> bool" where
  "pn_ok cy t \<longleftrightarrow>
     heap_ok price_less 0 (length (pn_heads t)) (pn_heads t) \<and>
     distinct (map (head_acc cy t) (pn_heads t)) \<and>
     (\<forall>h \<in> set (pn_heads t). NewTxWithMinerFee (mf_tx h) (pn_baseFee t) = Some h) \<and>
     (\<forall>a. \<forall>tx \<in> set (rest_of t a). sender_of cy (pn_signer t) tx = a)"

lemma filter_acc:
  assumes "distinct (map f hs)" and "h \<in> set hs"
  shows "filter (\<lambda>x. f x = f h) hs = [h]"
  using assms by (induction hs) (auto simp: filter_empty_conv image_iff)

lemma queue_head:
  assumes "pn_ok cy t" and "h \<in> set (pn_heads t)"
  shows "queue cy t (head_acc cy t h) = mf_tx h # rest_of t (head_acc cy t h)"
  using filter_acc [of "head_acc cy t" "pn_heads t" h] assms by (simp add: queue_def pn_ok_def)

lemma queue_none: "a \<notin> head_acc cy t ` set (pn_heads t) \<Longrightarrow> queue cy t a = []"
proof -
  assume "a \<notin> head_acc cy t ` set (pn_heads t)"
  then have "filter (\<lambda>h. head_acc cy t h = a) (pn_heads t) = []" by (auto simp: filter_empty_conv)
  then show ?thesis by (simp add: queue_def)
qed

lemma queue_cases:
  assumes "pn_ok cy t"
  obtains "queue cy t a = []" "a \<notin> head_acc cy t ` set (pn_heads t)"
  | h where "h \<in> set (pn_heads t)" "a = head_acc cy t h" "queue cy t a = mf_tx h # rest_of t a"
proof (cases "a \<in> head_acc cy t ` set (pn_heads t)")
  case True
  then obtain h where "h \<in> set (pn_heads t)" "a = head_acc cy t h" by blast
  then show ?thesis using that(2) queue_head [OF assms] by blast
next
  case False
  then show ?thesis using that(1) queue_none by blast
qed

text \<open>Two states agree on a queue when they agree on the heads of the account and its rest.\<close>

lemma queue_cong:
  assumes "pn_ok cy t" and "pn_ok cy t'" and "pn_signer t' = pn_signer t" and "rest_of t' a = rest_of t a"
    and "\<And>h. head_acc cy t h = a \<Longrightarrow> h \<in> set (pn_heads t') \<longleftrightarrow> h \<in> set (pn_heads t)"
  shows "queue cy t' a = queue cy t a"
proof -
  have acc: "head_acc cy t' = head_acc cy t" using assms(3) by (simp add: head_acc_def fun_eq_iff)
  show ?thesis
  proof (cases "a \<in> head_acc cy t ` set (pn_heads t)")
    case True
    then obtain h where h: "h \<in> set (pn_heads t)" "a = head_acc cy t h" by blast
    then have "h \<in> set (pn_heads t')" using assms(5) by blast
    then show ?thesis using queue_head [OF assms(1) h(1)] queue_head [OF assms(2)] h(2) assms(4) acc by metis
  next
    case False
    then have "a \<notin> head_acc cy t' ` set (pn_heads t')" using assms(5) unfolding acc by blast
    then show ?thesis using False queue_none by metis
  qed
qed

lemma pn_Pop_ok:
  assumes ok: "pn_ok cy t" and ne: "pn_heads t \<noteq> []"
  defines "a \<equiv> head_acc cy t (pn_heads t ! 0)"
  shows "\<exists>t'. pn_Pop t = Inr t' \<and> pn_ok cy t' \<and> queue cy t' = (queue cy t)(a := [])"
proof -
  let ?h = "pn_heads t ! 0"
  let ?t = "t\<lparr>pn_heads := snd (heap_Pop price_less (pn_heads t))\<rparr>"
  have heap: "heap_ok price_less 0 (length (pn_heads t)) (pn_heads t)" using ok by (simp add: pn_ok_def)
  note pop = prices.Pop_ok [OF heap ne]
  have acc: "head_acc cy ?t = head_acc cy t" "rest_of ?t = rest_of t" by (simp_all add: head_acc_def rest_of_def fun_eq_iff)
  have ms: "mset (map (head_acc cy t) (pn_heads t)) = add_mset a (mset (map (head_acc cy t) (pn_heads ?t)))"
    using pop(4) by (simp add: a_def)
  have d: "distinct (map (head_acc cy t) (pn_heads t))" using ok by (simp add: pn_ok_def)
  then have "distinct (a # map (head_acc cy t) (pn_heads ?t))"
    using ms mset_eq_imp_distinct_iff [of "map (head_acc cy t) (pn_heads t)" "a # map (head_acc cy t) (pn_heads ?t)"] by simp
  then have d': "distinct (map (head_acc cy t) (pn_heads ?t))" "a \<notin> head_acc cy t ` set (pn_heads ?t)" by simp_all
  have set: "set (pn_heads t) = insert ?h (set (pn_heads ?t))"
    using arg_cong [OF pop(4), of set_mset] by simp
  have ok': "pn_ok cy ?t"
    using ok pop(2,3) d' set unfolding pn_ok_def acc by auto
  have "queue cy ?t b = ((queue cy t)(a := [])) b" for b
  proof (cases "b = a")
    case True
    then show ?thesis using queue_none [of a cy ?t] d'(2) acc(1) by simp
  next
    case False
    then show ?thesis using queue_cong [OF ok ok', of b] set acc by (auto simp: a_def)
  qed
  then show ?thesis using ok' ne by (auto simp: pn_Pop_def)
qed

lemma NewTxWithMinerFee_tx: "NewTxWithMinerFee tx f = Some w \<Longrightarrow> mf_tx w = tx \<and> NewTxWithMinerFee (mf_tx w) f = Some w"
  by (auto simp: NewTxWithMinerFee_def split: prod.splits if_splits)

text \<open>What follows when the first transaction of a queue is done: the rest, unless it is underpriced.\<close>

definition next_queue :: "int option \<Rightarrow> Transaction list \<Rightarrow> Transaction list" where
  "next_queue baseFee q =
     (case q of
        tx # tx' # rest \<Rightarrow> if NewTxWithMinerFee tx' baseFee = None then [] else tx' # rest
      | _ \<Rightarrow> [])"

lemma pn_Shift_ok:
  assumes ok: "pn_ok cy t" and ne: "pn_heads t \<noteq> []"
  defines "a \<equiv> head_acc cy t (pn_heads t ! 0)"
  shows "\<exists>t'. pn_Shift cy t = Inr t' \<and> pn_ok cy t' \<and>
     queue cy t' = (queue cy t)(a := next_queue (pn_baseFee t) (queue cy t a)) \<and> pn_baseFee t' = pn_baseFee t"
proof -
  let ?h = "pn_heads t ! 0"
  have h: "?h \<in> set (pn_heads t)" using ne by simp
  have q: "queue cy t a = mf_tx ?h # rest_of t a" using queue_head [OF ok h] by (simp add: a_def)
  have acc: "sender_of cy (pn_signer t) (mf_tx ?h) = a" by (simp add: a_def head_acc_def)
  show ?thesis
  proof (cases "next_queue (pn_baseFee t) (queue cy t a)")
    case Nil
    then have "pn_Shift cy t = pn_Pop t"
      using ne acc q
      by (auto simp: pn_Shift_def next_queue_def rest_of_def Let_def split: option.splits list.splits if_splits)
    then show ?thesis using pn_Pop_ok [OF ok ne] Nil by (auto simp: a_def pn_Pop_def split: if_splits)
  next
    case (Cons tx rest)
    obtain w where w: "map_of (pn_txs t) a = Some (tx # rest)" "NewTxWithMinerFee tx (pn_baseFee t) = Some w"
      using Cons q by (auto simp: next_queue_def rest_of_def split: list.splits option.splits if_splits)
    have wt: "mf_tx w = tx" "NewTxWithMinerFee (mf_tx w) (pn_baseFee t) = Some w" using NewTxWithMinerFee_tx [OF w(2)] by auto
    let ?hs = "(pn_heads t)[0 := w]"
    let ?t = "t\<lparr>pn_heads := heap_Fix price_less 0 ?hs, pn_txs := AList.update a rest (pn_txs t)\<rparr>"
    have sh: "pn_Shift cy t = Inr ?t" using ne acc w by (simp add: pn_Shift_def Let_def)
    have heap: "heap_ok price_less 0 (length (pn_heads t)) (pn_heads t)" using ok by (simp add: pn_ok_def)
    note fix' = prices.Fix_ok [OF heap, of 0 w]
    have ms: "mset (pn_heads ?t) = mset ?hs" and len: "length (pn_heads ?t) = length (pn_heads t)" using fix' ne by simp_all
    have set: "set (pn_heads ?t) = set ?hs" using arg_cong [OF ms, of set_mset] by simp
    have accs: "head_acc cy ?t = head_acc cy t" by (simp add: head_acc_def fun_eq_iff)
    have rest: "rest_of ?t b = (if b = a then rest else rest_of t b)" for b by (simp add: rest_of_def)
    have senders: "\<forall>x \<in> set (rest_of t b). sender_of cy (pn_signer t) x = b" for b using ok by (simp add: pn_ok_def)
    have aw: "head_acc cy t w = a" using senders [of a] w(1) wt(1) by (simp add: rest_of_def head_acc_def)
    have hs: "?hs = w # tl (pn_heads t)" "pn_heads t = ?h # tl (pn_heads t)" using ne by (cases "pn_heads t"; simp)+
    have d: "distinct (map (head_acc cy t) (pn_heads t))" using ok by (simp add: pn_ok_def)
    then have "distinct (map (head_acc cy t) ?hs)"
      using hs aw a_def by (metis list.simps(9))
    then have d': "distinct (map (head_acc cy t) (pn_heads ?t))"
      using mset_eq_imp_distinct_iff [of "map (head_acc cy t) (pn_heads ?t)" "map (head_acc cy t) ?hs"] ms by simp
    have fees: "\<forall>x \<in> set (pn_heads ?t). NewTxWithMinerFee (mf_tx x) (pn_baseFee t) = Some x"
      using ok wt(2) set hs unfolding pn_ok_def by (metis list.set_intros(2) set_ConsD)
    have "\<forall>x \<in> set (rest_of ?t b). sender_of cy (pn_signer t) x = b" for b
      using senders [of b] w(1) rest by (auto simp: rest_of_def)
    then have ok': "pn_ok cy ?t" using fix'(1) ne len d' fees accs by (simp add: pn_ok_def)
    have "queue cy ?t b = ((queue cy t)(a := tx # rest)) b" for b
    proof (cases "b = a")
      case True
      have "w \<in> set (pn_heads ?t)" using set hs by (metis list.set_intros(1))
      from queue_head [OF ok' this] show ?thesis using True aw accs wt(1) rest by simp
    next
      case False
      have "x \<in> set (pn_heads ?t) \<longleftrightarrow> x \<in> set (pn_heads t)" if "head_acc cy t x = b" for x
      proof -
        have "x \<noteq> w" "x \<noteq> ?h" using that False aw a_def by auto
        then show ?thesis using set hs by (metis list.set_intros(2) set_ConsD)
      qed
      then show ?thesis using queue_cong [OF ok ok', of b] False rest by simp
    qed
    then show ?thesis using sh ok' Cons by auto
  qed
qed

section \<open>Starting\<close>

definition good_entry :: "Crypto \<Rightarrow> Signer \<Rightarrow> int option \<Rightarrow> address \<times> Transaction list \<Rightarrow> bool" where
  "good_entry cy signer baseFee e \<longleftrightarrow>
     sender_of cy signer (hd (snd e)) = fst e \<and> NewTxWithMinerFee (hd (snd e)) baseFee \<noteq> None"

lemma add_heads:
  assumes "\<forall>e \<in> set es. snd e \<noteq> []" and "distinct (map fst es)"
  shows "\<exists>txs'. foldE (add_head cy signer f) es (txs, heads) =
       Inr (txs', heads @ map (\<lambda>e. the (NewTxWithMinerFee (hd (snd e)) f)) (filter (good_entry cy signer f) es)) \<and>
     (\<forall>a. map_of txs' a = (case map_of es a of
        None \<Rightarrow> map_of txs a
      | Some l \<Rightarrow> if good_entry cy signer f (a, l) then Some (tl l) else None))"
  using assms
proof (induction es arbitrary: txs heads)
  case Nil
  then show ?case by simp
next
  case (Cons e es)
  obtain a l where e: "e = (a, l)" by (cases e)
  obtain tx rest where l: "l = tx # rest" using Cons.prems(1) e by (cases l) auto
  have none: "map_of es a = None" using Cons.prems(2) e by (simp add: map_of_eq_None_iff)
  let ?w = "the (NewTxWithMinerFee tx f)"
  let ?s = "if good_entry cy signer f (a, l) then (AList.update a rest txs, heads @ [?w]) else (AList.delete a txs, heads)"
  have step: "add_head cy signer f e (txs, heads) = Inr ?s"
    by (auto simp: add_head_def e l good_entry_def split: option.splits)
  obtain txs' where t': "foldE (add_head cy signer f) es ?s =
       Inr (txs', snd ?s @ map (\<lambda>e. the (NewTxWithMinerFee (hd (snd e)) f)) (filter (good_entry cy signer f) es))"
     "\<forall>a. map_of txs' a = (case map_of es a of None \<Rightarrow> map_of (fst ?s) a
        | Some l \<Rightarrow> if good_entry cy signer f (a, l) then Some (tl l) else None)"
    using Cons.IH [of "fst ?s" "snd ?s"] Cons.prems by auto
  show ?case
  proof (cases "good_entry cy signer f (a, l)")
    case True
    then show ?thesis
      by (intro exI [of _ txs']) (use t' step none e l in \<open>auto split: option.splits\<close>)
  next
    case False
    then show ?thesis
      by (intro exI [of _ txs']) (use t' step none e l in \<open>auto simp: delete_conv' split: option.splits\<close>)
  qed
qed

lemma New_ok:
  assumes "wf_entries txs" and "\<forall>e \<in> set txs. snd e \<noteq> [] \<and> (\<forall>tx \<in> set (tl (snd e)). sender_of cy signer tx = fst e)"
  shows "\<exists>t. NewTransactionsByPriceAndNonce cy signer txs f = Inr t \<and> pn_ok cy t \<and> pn_signer t = signer \<and> pn_baseFee t = f \<and>
    (\<forall>a. queue cy t a = (case map_of txs a of
        Some l \<Rightarrow> if good_entry cy signer f (a, l) then l else []
      | None \<Rightarrow> []))"
proof -
  let ?wrap = "\<lambda>e. the (NewTxWithMinerFee (hd (snd e)) f)" and ?good = "filter (good_entry cy signer f) txs"
  have d: "distinct (map fst txs)" using assms(1) by (simp add: wf_entries_def keys_def)
  obtain txs' where t': "foldE (add_head cy signer f) txs (txs, []) = Inr (txs', map ?wrap ?good)"
      "\<forall>a. map_of txs' a = (case map_of txs a of None \<Rightarrow> map_of txs a
        | Some l \<Rightarrow> if good_entry cy signer f (a, l) then Some (tl l) else None)"
    using add_heads [of txs cy signer f txs "[]"] assms d by auto
  obtain hs where hs: "hs = heap_Init price_less (map ?wrap ?good)" by blast
  let ?t = "\<lparr>pn_txs = txs', pn_heads = hs, pn_signer = signer, pn_baseFee = f\<rparr>"
  have new: "NewTransactionsByPriceAndNonce cy signer txs f = Inr ?t"
    using t'(1) hs by (simp add: NewTransactionsByPriceAndNonce_def)
  note init = prices.Init_ok [of "map ?wrap ?good", folded hs]
  have set: "set (pn_heads ?t) = ?wrap ` set ?good" using arg_cong [OF init(3), of set_mset] by simp
  have acc: "head_acc cy ?t (?wrap e) = fst e \<and> NewTxWithMinerFee (mf_tx (?wrap e)) f = Some (?wrap e) \<and> mf_tx (?wrap e) = hd (snd e)"
    if "e \<in> set ?good" for e
    using that NewTxWithMinerFee_tx [of "hd (snd e)" f] by (auto simp: good_entry_def head_acc_def)
  have "map (head_acc cy ?t) (map ?wrap ?good) = map fst ?good" using acc by simp
  then have d': "distinct (map (head_acc cy ?t) (map ?wrap ?good))" using d by (simp only: distinct_map_filter)
  have "mset (map (head_acc cy ?t) hs) = mset (map (head_acc cy ?t) (map ?wrap ?good))" by (simp only: mset_map init(3))
  from mset_eq_imp_distinct_iff [OF this] d' have dist: "distinct (map (head_acc cy ?t) (pn_heads ?t))" by simp
  have rest: "rest_of ?t a = (case map_of txs a of Some l \<Rightarrow> if good_entry cy signer f (a, l) then tl l else [] | None \<Rightarrow> [])" for a
    using t'(2) by (simp add: rest_of_def split: option.splits)
  have "\<forall>tx \<in> set (rest_of ?t a). sender_of cy signer tx = a" for a
  proof (cases "map_of txs a")
    case None
    then show ?thesis by (simp add: rest)
  next
    case (Some l)
    then have "\<forall>tx \<in> set (tl l). sender_of cy signer tx = a" using assms(2) map_of_SomeD [OF Some] by auto
    then show ?thesis using Some by (simp add: rest)
  qed
  moreover have "\<forall>h \<in> set (pn_heads ?t). NewTxWithMinerFee (mf_tx h) f = Some h" unfolding set using acc by blast
  ultimately have ok: "pn_ok cy ?t" using init(1,2) dist by (simp add: pn_ok_def)
  have "queue cy ?t a = (case map_of txs a of Some l \<Rightarrow> if good_entry cy signer f (a, l) then l else [] | None \<Rightarrow> [])" for a
  proof (cases "\<exists>l. map_of txs a = Some l \<and> good_entry cy signer f (a, l)")
    case True
    then obtain l where l: "map_of txs a = Some l" "good_entry cy signer f (a, l)" by blast
    then have mem: "(a, l) \<in> set ?good" by (auto dest: map_of_SomeD)
    then have "?wrap (a, l) \<in> set (pn_heads ?t)" using set by blast
    from queue_head [OF ok this] have "queue cy ?t a = mf_tx (?wrap (a, l)) # rest_of ?t a" using acc [OF mem] by simp
    moreover have "l \<noteq> []" using assms(2) map_of_SomeD [OF l(1)] by auto
    ultimately show ?thesis using acc [OF mem] rest l by simp
  next
    case False
    have "a \<notin> head_acc cy ?t ` set (pn_heads ?t)"
    proof
      assume "a \<in> head_acc cy ?t ` set (pn_heads ?t)"
      then obtain e where e: "e \<in> set ?good" "a = fst e" using set acc by auto
      then have e': "e \<in> set txs" "good_entry cy signer f e" by auto
      then have "map_of txs a = Some (snd e)" using d e(2) by simp
      then show False using False e'(2) e(2) by simp
    qed
    then show ?thesis using queue_none False by (auto split: option.splits)
  qed
  then show ?thesis using new ok by (intro exI [of _ ?t]) simp
qed

section \<open>Taking the transactions one by one\<close>

text \<open>The producer's loop: look at the best transaction, take it, move on to the account's next one.\<close>

fun drain :: "Crypto \<Rightarrow> nat \<Rightarrow> TransactionsByPriceAndNonce \<Rightarrow> Transaction list option" where
  "drain cy n t =
     (case pn_Peek t of
        None \<Rightarrow> Some []
      | Some tx \<Rightarrow>
          (case n of
             0 \<Rightarrow> None
           | Suc m \<Rightarrow>
               (case pn_Shift cy t of
                  Inl e \<Rightarrow> None
                | Inr t' \<Rightarrow> map_option ((#) tx) (drain cy m t'))))"

declare drain.simps [simp del]

definition pays :: "int option \<Rightarrow> Transaction \<Rightarrow> bool" where
  "pays baseFee tx \<longleftrightarrow> NewTxWithMinerFee tx baseFee \<noteq> None"

definition waiting :: "Crypto \<Rightarrow> TransactionsByPriceAndNonce \<Rightarrow> nat" where
  "waiting cy t = (\<Sum>a \<in> UNIV. length (queue cy t a))"

lemma next_queue_pays: "pays f tx \<Longrightarrow> takeWhile (pays f) (tx # rest) = tx # takeWhile (pays f) (next_queue f (tx # rest))"
  by (cases rest) (simp_all add: next_queue_def pays_def)

lemma next_queue_shorter: "q \<noteq> [] \<Longrightarrow> length (next_queue f q) < length q"
  by (simp add: next_queue_def split: list.splits)

lemma Peek_head:
  assumes ok: "pn_ok cy t" and tx: "pn_Peek t = Some tx"
  shows "queue cy t (sender_of cy (pn_signer t) tx) = tx # rest_of t (sender_of cy (pn_signer t) tx)"
    and "pays (pn_baseFee t) tx" and "pn_heads t \<noteq> []" and "head_acc cy t (pn_heads t ! 0) = sender_of cy (pn_signer t) tx"
proof -
  show ne: "pn_heads t \<noteq> []" using tx by (auto simp: pn_Peek_def split: if_splits)
  then have h: "pn_heads t ! 0 \<in> set (pn_heads t)" "tx = mf_tx (pn_heads t ! 0)" using tx by (auto simp: pn_Peek_def)
  show acc: "head_acc cy t (pn_heads t ! 0) = sender_of cy (pn_signer t) tx" using h(2) by (simp add: head_acc_def)
  show "queue cy t (sender_of cy (pn_signer t) tx) = tx # rest_of t (sender_of cy (pn_signer t) tx)"
    using queue_head [OF ok h(1)] h(2) acc by simp
  show "pays (pn_baseFee t) tx" using ok h by (auto simp: pays_def pn_ok_def)
qed

lemma Peek_none:
  assumes "pn_ok cy t"
  shows "pn_Peek t = None \<longleftrightarrow> (\<forall>a. queue cy t a = [])"
proof
  assume "pn_Peek t = None"
  then show "\<forall>a. queue cy t a = []" by (simp add: pn_Peek_def queue_def split: if_splits)
next
  assume e: "\<forall>a. queue cy t a = []"
  show "pn_Peek t = None"
  proof (rule ccontr)
    assume "pn_Peek t \<noteq> None"
    then obtain tx where "pn_Peek t = Some tx" by blast
    from Peek_head(1) [OF assms this] e show False by simp
  qed
qed

lemma sum_length_upd:
  fixes q :: "'a :: finite \<Rightarrow> 'b list"
  assumes "length l < length (q a)"
  shows "(\<Sum>x \<in> UNIV. length ((q(a := l)) x)) < (\<Sum>x \<in> UNIV. length (q x))"
  using assms by (intro sum_strict_mono_ex1) auto

lemma Shift_waiting:
  assumes ok: "pn_ok cy t" and tx: "pn_Peek t = Some tx"
  obtains t' where "pn_Shift cy t = Inr t'" "pn_ok cy t'" "pn_signer t' = pn_signer t" "pn_baseFee t' = pn_baseFee t"
    "queue cy t' = (queue cy t)(sender_of cy (pn_signer t) tx :=
       next_queue (pn_baseFee t) (queue cy t (sender_of cy (pn_signer t) tx)))"
    "waiting cy t' < waiting cy t"
proof -
  note head = Peek_head [OF ok tx]
  obtain t' where t': "pn_Shift cy t = Inr t'" "pn_ok cy t'" "pn_baseFee t' = pn_baseFee t"
    "queue cy t' = (queue cy t)(sender_of cy (pn_signer t) tx :=
       next_queue (pn_baseFee t) (queue cy t (sender_of cy (pn_signer t) tx)))"
    using pn_Shift_ok [OF ok head(3)] head(4) by auto
  have s: "pn_signer t' = pn_signer t"
    using t'(1) by (auto simp: pn_Shift_def pn_Pop_def Let_def split: if_splits option.splits list.splits)
  have "waiting cy t' < waiting cy t"
    unfolding waiting_def t'(4) by (rule sum_length_upd, rule next_queue_shorter) (simp add: head(1))
  then show ?thesis using that t' s by blast
qed

lemma drain_all:
  assumes "pn_ok cy t" and "waiting cy t \<le> n"
  shows "\<exists>txs. drain cy n t = Some txs \<and>
    (\<forall>a. filter (\<lambda>tx. sender_of cy (pn_signer t) tx = a) txs = takeWhile (pays (pn_baseFee t)) (queue cy t a))"
  using assms
proof (induction n arbitrary: t)
  case 0
  then have "pn_Peek t = None" using Peek_none by (simp add: waiting_def)
  then show ?case using Peek_none [OF "0.prems"(1)] by (simp add: drain.simps [of cy 0])
next
  case (Suc n)
  show ?case
  proof (cases "pn_Peek t")
    case None
    then show ?thesis using Peek_none [OF Suc.prems(1)] by (simp add: drain.simps [of cy "Suc n"])
  next
    case (Some tx)
    note head = Peek_head [OF Suc.prems(1) Some]
    obtain t' where t': "pn_Shift cy t = Inr t'" "pn_ok cy t'" "pn_signer t' = pn_signer t" "pn_baseFee t' = pn_baseFee t"
      "queue cy t' = (queue cy t)(sender_of cy (pn_signer t) tx :=
         next_queue (pn_baseFee t) (queue cy t (sender_of cy (pn_signer t) tx)))"
      "waiting cy t' < waiting cy t"
      using Shift_waiting [OF Suc.prems(1) Some] .
    obtain txs where txs: "drain cy n t' = Some txs"
      "\<forall>a. filter (\<lambda>tx. sender_of cy (pn_signer t) tx = a) txs = takeWhile (pays (pn_baseFee t)) (queue cy t' a)"
      using Suc.IH [OF t'(2)] t'(3,4,6) Suc.prems(2) by auto
    have "filter (\<lambda>tx. sender_of cy (pn_signer t) tx = a) (tx # txs) = takeWhile (pays (pn_baseFee t)) (queue cy t a)" for a
      using txs(2) t'(5) head(1) next_queue_pays [OF head(2)] by (cases "a = sender_of cy (pn_signer t) tx") auto
    then show ?thesis using txs(1) t'(1) Some by (simp add: drain.simps [of cy "Suc n"])
  qed
qed

section \<open>Properties\<close>

definition minerFee_of :: "int option \<Rightarrow> Transaction \<Rightarrow> int" where
  "minerFee_of baseFee tx = fst (EffectiveGasTip (tx_inner tx) baseFee)"

lemma head_fee:
  assumes "pn_ok cy t" and "h \<in> set (pn_heads t)"
  shows "mf_minerFee h = minerFee_of (pn_baseFee t) (mf_tx h)"
proof -
  have "NewTxWithMinerFee (mf_tx h) (pn_baseFee t) = Some h" using assms by (simp add: pn_ok_def)
  then show ?thesis
    by (cases h) (auto simp: NewTxWithMinerFee_def minerFee_of_def split: prod.splits if_splits)
qed

text \<open>
  C24. The producer always takes the best paying transaction that may come next: \<open>Peek\<close> is the
  first of its account's queue, no account's next transaction pays the producer more, and among equal
  fees none was seen earlier; \<open>Shift\<close> moves that account on to its next transaction (dropping the
  account when that one does not cover the base fee) and \<open>Pop\<close> drops the account; both leave every other
  account's queue alone and keep the structure well formed.
\<close>

theorem producer_takes_best:
  assumes ok: "pn_ok cy t" and tx: "pn_Peek t = Some tx"
  defines "a \<equiv> sender_of cy (pn_signer t) tx"
  shows "hd (queue cy t a) = tx \<and> pays (pn_baseFee t) tx \<and>
    (\<forall>b tx' rest. queue cy t b = tx' # rest \<longrightarrow>
       minerFee_of (pn_baseFee t) tx' \<le> minerFee_of (pn_baseFee t) tx \<and>
       (minerFee_of (pn_baseFee t) tx' = minerFee_of (pn_baseFee t) tx \<longrightarrow> tx_time tx \<le> tx_time tx')) \<and>
    (\<exists>t'. pn_Shift cy t = Inr t' \<and> pn_ok cy t' \<and>
       queue cy t' = (queue cy t)(a := next_queue (pn_baseFee t) (queue cy t a))) \<and>
    (\<exists>t'. pn_Pop t = Inr t' \<and> pn_ok cy t' \<and> queue cy t' = (queue cy t)(a := []))"
proof (intro conjI allI impI)
  note head = Peek_head [OF ok tx]
  have a: "head_acc cy t (pn_heads t ! 0) = a" using head(4) by (simp add: a_def)
  show "hd (queue cy t a) = tx" using head(1) by (simp add: a_def)
  show "pays (pn_baseFee t) tx" by (rule head(2))
  show "\<exists>t'. pn_Shift cy t = Inr t' \<and> pn_ok cy t' \<and>
       queue cy t' = (queue cy t)(a := next_queue (pn_baseFee t) (queue cy t a))"
    using Shift_waiting [OF ok tx] unfolding a_def by metis
  show "\<exists>t'. pn_Pop t = Inr t' \<and> pn_ok cy t' \<and> queue cy t' = (queue cy t)(a := [])"
    using pn_Pop_ok [OF ok head(3)] unfolding a .
  fix b tx' rest assume q: "queue cy t b = tx' # rest"
  then obtain h where h: "h \<in> set (pn_heads t)" "tx' = mf_tx h" using queue_cases [OF ok, of b] by (metis list.inject list.distinct(1))
  have heap: "heap_ok price_less 0 (length (pn_heads t)) (pn_heads t)" using ok by (simp add: pn_ok_def)
  have first: "pn_heads t ! 0 \<in> set (pn_heads t)" "tx = mf_tx (pn_heads t ! 0)" using head(3) tx by (auto simp: pn_Peek_def)
  note best = prices.heap_best_mem [OF heap h(1)] and fees = head_fee [OF ok h(1)] head_fee [OF ok first(1)]
  show "minerFee_of (pn_baseFee t) tx' \<le> minerFee_of (pn_baseFee t) tx"
    using best fees h(2) first(2) by (auto simp: price_less_def split: if_splits)
  show "tx_time tx \<le> tx_time tx'" if "minerFee_of (pn_baseFee t) tx' = minerFee_of (pn_baseFee t) tx"
    using best fees h(2) first(2) that by (auto simp: price_less_def split: if_splits)
qed

definition pricedTx :: "u64 \<Rightarrow> int \<Rightarrow> address \<Rightarrow> Transaction" where
  "pricedTx nonce price a = (NewTx 0 (LegacyD \<lparr>ltx_Nonce = nonce, ltx_GasPrice = price, ltx_Gas = 21000, ltx_To = Some 9,
     ltx_Value = 5, ltx_Data = [], ltx_V = 27, ltx_R = 1, ltx_S = 1\<rparr>))\<lparr>tx_from := Some (HomesteadSigner, a)\<rparr>"

definition examplePool :: "(address, Transaction list) entries" where
  "examplePool = [(1, [pricedTx 0 5 1, pricedTx 1 2 1]), (2, [pricedTx 3 9 2])]"

lemma pricedTx_facts [simp]:
  "sender_of cy HomesteadSigner (pricedTx n p a) = a"
  "NewTxWithMinerFee (pricedTx n p a) None = Some \<lparr>mf_tx = pricedTx n p a, mf_minerFee = p\<rparr>"
  "minerFee_of None (pricedTx n p a) = p"
  by (simp_all add: sender_of_def Sender_def pricedTx_def NewTxWithMinerFee_def EffectiveGasTip_def NewTx_def minerFee_of_def)

lemma examplePool_ok:
  "wf_entries examplePool"
  "\<forall>e \<in> set examplePool. snd e \<noteq> [] \<and> (\<forall>tx \<in> set (tl (snd e)). sender_of cy HomesteadSigner tx = fst e)"
  by (simp_all add: examplePool_def wf_entries_def keys_def)

theorem producer_takes_best_witness:
  "\<exists>t tx. NewTransactionsByPriceAndNonce exampleCrypto HomesteadSigner examplePool None = Inr t \<and>
     pn_Peek t = Some tx \<and> 9 \<le> minerFee_of None tx"
proof -
  obtain t where t: "NewTransactionsByPriceAndNonce exampleCrypto HomesteadSigner examplePool None = Inr t"
    "pn_ok exampleCrypto t" "pn_baseFee t = None"
    "\<forall>a. queue exampleCrypto t a = (case map_of examplePool a of
        Some l \<Rightarrow> if good_entry exampleCrypto HomesteadSigner None (a, l) then l else [] | None \<Rightarrow> [])"
    using New_ok [OF examplePool_ok] by blast
  then have q: "queue exampleCrypto t 2 = [pricedTx 3 9 2]" by (simp add: examplePool_def good_entry_def)
  then obtain tx where tx: "pn_Peek t = Some tx" using Peek_none [OF t(2)] by (metis list.distinct(1) not_Some_eq)
  from producer_takes_best [OF t(2) tx] q t(3) have "9 \<le> minerFee_of None tx" by fastforce
  then show ?thesis using t(1) tx by blast
qed

text \<open>
  C28. Taking transactions until none is left ends and loses nothing: started on any pool of
  non-empty account lists, \<open>Peek\<close> and \<open>Shift\<close> alternate at most as many times as transactions wait, and
  what was taken holds of every account exactly its transactions up to the first one that does not
  cover the base fee, in the account's order (nothing of an account whose first transaction is not its own).
\<close>

theorem producer_takes_all:
  assumes "wf_entries txs"
    and "\<forall>e \<in> set txs. snd e \<noteq> [] \<and> (\<forall>tx \<in> set (tl (snd e)). sender_of cy signer tx = fst e)"
  shows "\<exists>t out. NewTransactionsByPriceAndNonce cy signer txs baseFee = Inr t \<and>
    drain cy (waiting cy t) t = Some out \<and>
    (\<forall>a. filter (\<lambda>tx. sender_of cy signer tx = a) out =
       (case map_of txs a of
          Some l \<Rightarrow> if sender_of cy signer (hd l) = a then takeWhile (pays baseFee) l else []
        | None \<Rightarrow> []))"
proof -
  obtain t where t: "NewTransactionsByPriceAndNonce cy signer txs baseFee = Inr t" "pn_ok cy t"
    "pn_signer t = signer" "pn_baseFee t = baseFee"
    "\<forall>a. queue cy t a = (case map_of txs a of
        Some l \<Rightarrow> if good_entry cy signer baseFee (a, l) then l else [] | None \<Rightarrow> [])"
    using New_ok [OF assms] by blast
  obtain out where out: "drain cy (waiting cy t) t = Some out"
    "\<forall>a. filter (\<lambda>tx. sender_of cy signer tx = a) out = takeWhile (pays baseFee) (queue cy t a)"
    using drain_all [OF t(2) le_refl] t(3,4) by auto
  have "takeWhile (pays baseFee) (queue cy t a) = (case map_of txs a of
          Some l \<Rightarrow> if sender_of cy signer (hd l) = a then takeWhile (pays baseFee) l else [] | None \<Rightarrow> [])" for a
  proof (cases "map_of txs a")
    case None
    then show ?thesis using t(5) by simp
  next
    case (Some l)
    then have "l \<noteq> []" using assms(2) map_of_SomeD [OF Some] by auto
    then show ?thesis using t(5) Some by (cases l) (auto simp: good_entry_def pays_def)
  qed
  then show ?thesis using t(1) out by auto
qed

theorem producer_takes_all_witness:
  "\<exists>t out. NewTransactionsByPriceAndNonce exampleCrypto HomesteadSigner examplePool None = Inr t \<and>
    drain exampleCrypto (waiting exampleCrypto t) t = Some out \<and>
    filter (\<lambda>tx. sender_of exampleCrypto HomesteadSigner tx = 1) out = [pricedTx 0 5 1, pricedTx 1 2 1]"
proof -
  obtain t out where "NewTransactionsByPriceAndNonce exampleCrypto HomesteadSigner examplePool None = Inr t"
    "drain exampleCrypto (waiting exampleCrypto t) t = Some out"
    "\<forall>a. filter (\<lambda>tx. sender_of exampleCrypto HomesteadSigner tx = a) out =
       (case map_of examplePool a of
          Some l \<Rightarrow> if sender_of exampleCrypto HomesteadSigner (hd l) = a then takeWhile (pays None) l else []
        | None \<Rightarrow> [])"
    using producer_takes_all [OF examplePool_ok, of exampleCrypto None] by blast
  then show ?thesis by (auto simp: examplePool_def pays_def)
qed

end
