(* ===== verification/TxPriced.thy ===== *)
theory TxPriced
  imports TxList SigningProps
begin

text \<open>
  The pool's index of all transactions (\<open>txLookup\<close> of \<open>src/core/tx_pool.go\<close>), the sets of local
  accounts (\<open>accountSet\<close>), and the two heaps that choose which remote transactions to drop when the
  pool is full (\<open>priceHeap\<close>, \<open>txPricedList\<close> of \<open>src/core/tx_list.go\<close>). The priced list points to the
  index; here the index is an argument. Heap entries whose transaction has left the remote part of
  the index are stale and are skipped when they surface.
\<close>

section \<open>Sizes and hashes\<close>

text \<open>
  The computed size, without the cache that decoding fills. \<open>rlp.Encode\<close> writes nothing when a value cannot
  be encoded.
\<close>

definition tx_Size :: "Transaction \<Rightarrow> nat" where
  "tx_Size tx = (case EncodeToBytes (RList (TxData_values (tx_inner tx))) of Some b \<Rightarrow> length b | None \<Rightarrow> 0)"

definition txSlotSize :: nat where "txSlotSize = 32 * 1024"

text \<open>The size is a \<open>float64\<close>, which is exact for sizes below 2^53; dividing by a power of two is exact too.\<close>

definition numSlots :: "Transaction \<Rightarrow> int" where
  "numSlots tx = int ((tx_Size tx + txSlotSize - 1) div txSlotSize)"

definition hash_of :: "Crypto \<Rightarrow> Transaction \<Rightarrow> hash" where
  "hash_of cy tx = tx_Hash (cy_keccak cy) (tx_inner tx)"

section \<open>Account sets\<close>

record accountSet =
  as_accounts :: "(address, unit) entries"
  as_signer :: Signer
  as_cache :: "address list option"

definition as_add :: "address \<Rightarrow> accountSet \<Rightarrow> accountSet" where
  "as_add addr as = as\<lparr>as_accounts := AList.update addr () (as_accounts as), as_cache := None\<rparr>"

definition newAccountSet :: "Signer \<Rightarrow> address list \<Rightarrow> accountSet" where
  "newAccountSet signer addrs = fold as_add addrs \<lparr>as_accounts = [], as_signer = signer, as_cache = None\<rparr>"

definition as_contains :: "address \<Rightarrow> accountSet \<Rightarrow> bool" where
  "as_contains addr as \<longleftrightarrow> map_of (as_accounts as) addr \<noteq> None"

definition as_empty :: "accountSet \<Rightarrow> bool" where
  "as_empty as \<longleftrightarrow> length (as_accounts as) = 0"

definition as_containsTx :: "Crypto \<Rightarrow> Transaction \<Rightarrow> accountSet \<Rightarrow> bool" where
  "as_containsTx cy tx as =
     (case fst (Sender cy (as_signer as) tx) of Inr addr \<Rightarrow> as_contains addr as | Inl e \<Rightarrow> False)"

definition as_addTx :: "Crypto \<Rightarrow> Transaction \<Rightarrow> accountSet \<Rightarrow> accountSet" where
  "as_addTx cy tx as =
     (case fst (Sender cy (as_signer as) tx) of Inr addr \<Rightarrow> as_add addr as | Inl e \<Rightarrow> as)"

definition as_flatten :: "accountSet \<Rightarrow> address list \<times> accountSet" where
  "as_flatten as =
     (case as_cache as of
        Some c \<Rightarrow> (c, as)
      | None \<Rightarrow> (keys (as_accounts as), as\<lparr>as_cache := Some (keys (as_accounts as))\<rparr>))"

definition as_merge :: "accountSet \<Rightarrow> accountSet \<Rightarrow> accountSet" where
  "as_merge other as =
     as\<lparr>as_accounts := fold (\<lambda>addr. AList.update addr ()) (keys (as_accounts other)) (as_accounts as), as_cache := None\<rparr>"

section \<open>The index of all transactions\<close>

record txLookup =
  lk_slots :: int
  lk_locals :: "(hash, Transaction) entries"
  lk_remotes :: "(hash, Transaction) entries"

definition newTxLookup :: txLookup where
  "newTxLookup = \<lparr>lk_slots = 0, lk_locals = [], lk_remotes = []\<rparr>"

fun range_loop :: "(hash \<Rightarrow> Transaction \<Rightarrow> bool \<Rightarrow> 's \<Rightarrow> bool \<times> 's) \<Rightarrow> bool \<Rightarrow> (hash, Transaction) entries \<Rightarrow> 's \<Rightarrow> bool \<times> 's" where
  "range_loop f local [] s = (True, s)"
| "range_loop f local ((key, v) # rest) s =
     (let (go_on, s') = f key v local s in if \<not> go_on then (False, s') else range_loop f local rest s')"

definition lk_Range :: "(hash \<Rightarrow> Transaction \<Rightarrow> bool \<Rightarrow> 's \<Rightarrow> bool \<times> 's) \<Rightarrow> bool \<Rightarrow> bool \<Rightarrow> txLookup \<Rightarrow> 's \<Rightarrow> 's" where
  "lk_Range f local remote t s =
     (let (go_on, s1) = (if local then range_loop f True (lk_locals t) s else (True, s))
      in if \<not> go_on then s1
         else if remote then snd (range_loop f False (lk_remotes t) s1) else s1)"

definition lk_Get :: "hash \<Rightarrow> txLookup \<Rightarrow> Transaction option" where
  "lk_Get h t = (case map_of (lk_locals t) h of Some tx \<Rightarrow> Some tx | None \<Rightarrow> map_of (lk_remotes t) h)"

definition lk_GetLocal :: "hash \<Rightarrow> txLookup \<Rightarrow> Transaction option" where
  "lk_GetLocal h t = map_of (lk_locals t) h"

definition lk_GetRemote :: "hash \<Rightarrow> txLookup \<Rightarrow> Transaction option" where
  "lk_GetRemote h t = map_of (lk_remotes t) h"

definition lk_Count :: "txLookup \<Rightarrow> nat" where
  "lk_Count t = length (lk_locals t) + length (lk_remotes t)"

definition lk_LocalCount :: "txLookup \<Rightarrow> nat" where
  "lk_LocalCount t = length (lk_locals t)"

definition lk_RemoteCount :: "txLookup \<Rightarrow> nat" where
  "lk_RemoteCount t = length (lk_remotes t)"

definition lk_Add :: "Crypto \<Rightarrow> Transaction \<Rightarrow> bool \<Rightarrow> txLookup \<Rightarrow> txLookup" where
  "lk_Add cy tx local t =
     (let t = t\<lparr>lk_slots := lk_slots t + numSlots tx\<rparr>
      in if local then t\<lparr>lk_locals := AList.update (hash_of cy tx) tx (lk_locals t)\<rparr>
         else t\<lparr>lk_remotes := AList.update (hash_of cy tx) tx (lk_remotes t)\<rparr>)"

definition lk_Remove :: "hash \<Rightarrow> txLookup \<Rightarrow> txLookup" where
  "lk_Remove h t =
     (case (case map_of (lk_locals t) h of Some tx \<Rightarrow> Some tx | None \<Rightarrow> map_of (lk_remotes t) h) of
        None \<Rightarrow> t
      | Some tx \<Rightarrow> t\<lparr>lk_slots := lk_slots t - numSlots tx,
                     lk_locals := AList.delete h (lk_locals t), lk_remotes := AList.delete h (lk_remotes t)\<rparr>)"

definition migrate :: "hash \<Rightarrow> Transaction \<Rightarrow> txLookup \<Rightarrow> txLookup" where
  "migrate h tx t = t\<lparr>lk_locals := AList.update h tx (lk_locals t), lk_remotes := AList.delete h (lk_remotes t)\<rparr>"

definition migrate_local :: "Crypto \<Rightarrow> accountSet \<Rightarrow> hash \<times> Transaction \<Rightarrow> nat \<times> txLookup \<Rightarrow> nat \<times> txLookup" where
  "migrate_local cy locals e s =
     (if as_containsTx cy (snd e) locals then (fst s + 1, migrate (fst e) (snd e) (snd s)) else s)"

definition lk_RemoteToLocals :: "Crypto \<Rightarrow> accountSet \<Rightarrow> txLookup \<Rightarrow> nat \<times> txLookup" where
  "lk_RemoteToLocals cy locals t = fold (migrate_local cy locals) (lk_remotes t) (0, t)"

definition lk_RemotesBelowTip :: "int \<Rightarrow> txLookup \<Rightarrow> Transaction list" where
  "lk_RemotesBelowTip threshold t =
     lk_Range (\<lambda>h tx local found. (True, if tx_gasTipCap (tx_inner tx) < threshold then found @ [tx] else found))
       False True t []"

section \<open>Price heaps\<close>

definition big_Cmp :: "int \<Rightarrow> int \<Rightarrow> int" where
  "big_Cmp a b = (if a < b then - 1 else if a = b then 0 else 1)"

definition EffectiveGasTipCmp :: "Transaction \<Rightarrow> Transaction \<Rightarrow> int option \<Rightarrow> int" where
  "EffectiveGasTipCmp tx other baseFee =
     (if baseFee = None then big_Cmp (tx_gasTipCap (tx_inner tx)) (tx_gasTipCap (tx_inner other))
      else big_Cmp (fst (EffectiveGasTip (tx_inner tx) baseFee)) (fst (EffectiveGasTip (tx_inner other) baseFee)))"

record priceHeap =
  ph_baseFee :: "int option"
  ph_list :: "Transaction list"

definition ph_cmp :: "int option \<Rightarrow> Transaction \<Rightarrow> Transaction \<Rightarrow> int" where
  "ph_cmp baseFee a b =
     (let c = (if baseFee \<noteq> None then EffectiveGasTipCmp a b baseFee else 0)
      in if c \<noteq> 0 then c
         else let c = big_Cmp (tx_gasFeeCap (tx_inner a)) (tx_gasFeeCap (tx_inner b))
              in if c \<noteq> 0 then c
                 else big_Cmp (tx_gasTipCap (tx_inner a)) (tx_gasTipCap (tx_inner b)))"

definition ph_less :: "int option \<Rightarrow> Transaction \<Rightarrow> Transaction \<Rightarrow> bool" where
  "ph_less baseFee a b =
     (let c = ph_cmp baseFee a b
      in if c = - 1 then True else if c = 1 then False
         else tx_nonce (tx_inner a) > tx_nonce (tx_inner b))"

definition ph_Push :: "Transaction \<Rightarrow> priceHeap \<Rightarrow> priceHeap" where
  "ph_Push tx h = h\<lparr>ph_list := heap_Push (ph_less (ph_baseFee h)) tx (ph_list h)\<rparr>"

definition ph_Pop :: "priceHeap \<Rightarrow> Transaction \<times> priceHeap" where
  "ph_Pop h = (let (tx, l) = heap_Pop (ph_less (ph_baseFee h)) (ph_list h) in (tx, h\<lparr>ph_list := l\<rparr>))"

definition ph_Init :: "priceHeap \<Rightarrow> priceHeap" where
  "ph_Init h = h\<lparr>ph_list := heap_Init (ph_less (ph_baseFee h)) (ph_list h)\<rparr>"

lemma length_heap_up: "length (heap_up lt j xs) = length xs"
  by (induction lt j xs rule: heap_up.induct) (simp add: heap_up.simps Let_def swap_def)

lemma length_heap_Push: "length (heap_Push lt x xs) = Suc (length xs)"
  by (simp add: heap_Push_def length_heap_up)

lemma length_ph_Pop: "ph_list h \<noteq> [] \<Longrightarrow> length (ph_list (snd (ph_Pop h))) = length (ph_list h) - 1"
  by (simp add: ph_Pop_def length_heap_Pop case_prod_beta)

lemma ph_simps [simp]:
  "length (ph_list (ph_Push tx h)) = Suc (length (ph_list h))"
  "ph_baseFee (ph_Push tx h) = ph_baseFee h" "ph_baseFee (snd (ph_Pop h)) = ph_baseFee h" "ph_baseFee (ph_Init h) = ph_baseFee h"
  by (simp_all add: ph_Push_def ph_Pop_def ph_Init_def case_prod_beta length_heap_Push)

section \<open>The priced list\<close>

record txPricedList =
  pl_urgent :: priceHeap
  pl_floating :: priceHeap
  pl_stales :: int

definition urgentRatio :: nat where "urgentRatio = 4"
definition floatingRatio :: nat where "floatingRatio = 1"

definition newTxPricedList :: txPricedList where
  "newTxPricedList =
     \<lparr>pl_urgent = \<lparr>ph_baseFee = None, ph_list = []\<rparr>, pl_floating = \<lparr>ph_baseFee = None, ph_list = []\<rparr>, pl_stales = 0\<rparr>"

definition pl_Put :: "Transaction \<Rightarrow> bool \<Rightarrow> txPricedList \<Rightarrow> txPricedList" where
  "pl_Put tx local l = (if local then l else l\<lparr>pl_urgent := ph_Push tx (pl_urgent l)\<rparr>)"

definition reheap_collect :: "txLookup \<Rightarrow> txPricedList \<Rightarrow> txPricedList" where
  "reheap_collect all l =
     lk_Range (\<lambda>h tx local l. (True, l\<lparr>pl_urgent := (pl_urgent l)\<lparr>ph_list := ph_list (pl_urgent l) @ [tx]\<rparr>\<rparr>))
       False True all (l\<lparr>pl_stales := 0, pl_urgent := (pl_urgent l)\<lparr>ph_list := []\<rparr>\<rparr>)"

fun reheap_move :: "nat \<Rightarrow> priceHeap \<Rightarrow> Transaction list \<times> priceHeap" where
  "reheap_move 0 h = ([], h)"
| "reheap_move (Suc n) h = (let (tx, h') = ph_Pop h; (txs, h'') = reheap_move n h' in (tx # txs, h''))"

definition pl_Reheap :: "txLookup \<Rightarrow> txPricedList \<Rightarrow> txPricedList" where
  "pl_Reheap all l =
     (let l1 = reheap_collect all l;
          urgent = ph_Init (pl_urgent l1);
          floatingCount = length (ph_list urgent) * floatingRatio div (urgentRatio + floatingRatio);
          (moved, urgent') = reheap_move floatingCount urgent
      in l1\<lparr>pl_urgent := urgent', pl_floating := ph_Init ((pl_floating l1)\<lparr>ph_list := moved\<rparr>)\<rparr>)"

definition pl_Removed :: "txLookup \<Rightarrow> int \<Rightarrow> txPricedList \<Rightarrow> txPricedList" where
  "pl_Removed all n l =
     (let l = l\<lparr>pl_stales := pl_stales l + n\<rparr>
      in if pl_stales l \<le> int ((length (ph_list (pl_urgent l)) + length (ph_list (pl_floating l))) div 4) then l
         else pl_Reheap all l)"

text \<open>Stale entries are dropped from the top of a heap; the result counts them.\<close>

function drop_stale :: "Crypto \<Rightarrow> txLookup \<Rightarrow> priceHeap \<Rightarrow> int \<Rightarrow> priceHeap \<times> int" where
  "drop_stale cy all h stales =
     (if length (ph_list h) > 0 \<and> lk_GetRemote (hash_of cy (ph_list h ! 0)) all = None
      then drop_stale cy all (snd (ph_Pop h)) (stales - 1)
      else (h, stales))"
  by pat_completeness auto
termination
  by (relation "measure (\<lambda>(c, a, h, s). length (ph_list h))") (simp_all add: length_ph_Pop)

declare drop_stale.simps [simp del]

definition underpricedFor :: "Crypto \<Rightarrow> txLookup \<Rightarrow> priceHeap \<Rightarrow> Transaction \<Rightarrow> int \<Rightarrow> bool \<times> priceHeap \<times> int" where
  "underpricedFor cy all h tx stales =
     (let (h', stales') = drop_stale cy all h stales
      in if length (ph_list h') = 0 then (False, h', stales')
         else (ph_cmp (ph_baseFee h') (ph_list h' ! 0) tx \<ge> 0, h', stales'))"

text \<open>The operands of \<open>&&\<close> and \<open>||\<close> run from the left and only as far as they are needed.\<close>

definition pl_Underpriced :: "Crypto \<Rightarrow> txLookup \<Rightarrow> Transaction \<Rightarrow> txPricedList \<Rightarrow> bool \<times> txPricedList" where
  "pl_Underpriced cy all tx l =
     (let (u, urgent, stales) = underpricedFor cy all (pl_urgent l) tx (pl_stales l);
          l1 = l\<lparr>pl_urgent := urgent, pl_stales := stales\<rparr>
      in if \<not> (u \<or> length (ph_list urgent) = 0) then (False, l1)
         else let (f, floating, stales') = underpricedFor cy all (pl_floating l1) tx (pl_stales l1);
                  l2 = l1\<lparr>pl_floating := floating, pl_stales := stales'\<rparr>
              in if \<not> (f \<or> length (ph_list floating) = 0) then (False, l2)
                 else (length (ph_list urgent) \<noteq> 0 \<or> length (ph_list floating) \<noteq> 0, l2))"

function discard_loop :: "Crypto \<Rightarrow> txLookup \<Rightarrow> int \<Rightarrow> Transaction list \<Rightarrow> txPricedList \<Rightarrow> int \<times> Transaction list \<times> txPricedList" where
  "discard_loop cy all slots drp l =
     (if \<not> slots > 0 then (slots, drp, l)
      else if length (ph_list (pl_urgent l)) * floatingRatio > length (ph_list (pl_floating l)) * urgentRatio \<or> floatingRatio = 0 then
        let p = ph_Pop (pl_urgent l)
        in if lk_GetRemote (hash_of cy (fst p)) all = None
           then discard_loop cy all slots drp (l\<lparr>pl_urgent := snd p, pl_stales := pl_stales l - 1\<rparr>)
           else discard_loop cy all slots drp (l\<lparr>pl_urgent := snd p, pl_floating := ph_Push (fst p) (pl_floating l)\<rparr>)
      else if length (ph_list (pl_floating l)) = 0 then (slots, drp, l)
      else
        let p = ph_Pop (pl_floating l)
        in if lk_GetRemote (hash_of cy (fst p)) all = None
           then discard_loop cy all slots drp (l\<lparr>pl_floating := snd p, pl_stales := pl_stales l - 1\<rparr>)
           else discard_loop cy all (slots - numSlots (fst p)) (drp @ [fst p]) (l\<lparr>pl_floating := snd p\<rparr>))"
  by pat_completeness auto
termination
proof (relation "measure (\<lambda>(c, a, s, d, l). 2 * length (ph_list (pl_urgent l)) + length (ph_list (pl_floating l)))", goal_cases)
  case 1
  then show ?case by simp
next
  case (2 cy all slots drp l p)
  then have "ph_list (pl_urgent l) \<noteq> []" by (auto simp: floatingRatio_def)
  then show ?case using 2(3) by (simp add: length_ph_Pop)
next
  case (3 cy all slots drp l p)
  then have "ph_list (pl_urgent l) \<noteq> []" by (auto simp: floatingRatio_def)
  then show ?case using 3(3) by (simp add: length_ph_Pop) (cases "ph_list (pl_urgent l)"; simp)
next
  case (4 cy all slots drp l p)
  then show ?case by (cases "ph_list (pl_floating l)") (simp_all add: length_ph_Pop)
next
  case (5 cy all slots drp l p)
  then show ?case by (cases "ph_list (pl_floating l)") (simp_all add: length_ph_Pop)
qed

declare discard_loop.simps [simp del]

text \<open>The result slice is made with room for as many transactions as slots; a negative number panics.\<close>

definition pl_Discard :: "Crypto \<Rightarrow> txLookup \<Rightarrow> int \<Rightarrow> bool \<Rightarrow> txPricedList \<Rightarrow> panic + (Transaction list \<times> bool) \<times> txPricedList" where
  "pl_Discard cy all slots force l =
     (if slots < 0 then Inl PanicIndex
      else let (slots', drp, l') = discard_loop cy all slots [] l
           in if slots' > 0 \<and> \<not> force
              then Inr (([], False), l'\<lparr>pl_urgent := fold ph_Push drp (pl_urgent l')\<rparr>)
              else Inr ((drp, True), l'))"

definition pl_SetBaseFee :: "txLookup \<Rightarrow> int option \<Rightarrow> txPricedList \<Rightarrow> txPricedList" where
  "pl_SetBaseFee all baseFee l =
     pl_Reheap all (l\<lparr>pl_urgent := (pl_urgent l)\<lparr>ph_baseFee := baseFee\<rparr>\<rparr>)"

end
