(* ===== verification/TxPricedProps.thy ===== *)
theory TxPricedProps
  imports TxPriced
begin

text \<open>
  What the pool's index and its priced list guarantee. Each heap stays ordered (\<open>ph_ok\<close>); the live
  entries of a priced list are those still among the remote transactions; the stale counter is exact;
  \<open>Discard\<close> drops live transactions only, no more than needed, and loses none; \<open>Underpriced\<close> compares
  with the cheapest live transaction although stale ones may cover it; and the slot counter of the
  index is the sum over its transactions.
\<close>

section \<open>The order of a price heap\<close>

definition tip_at :: "int option \<Rightarrow> Transaction \<Rightarrow> int" where
  "tip_at baseFee tx = (if baseFee = None then 0 else fst (EffectiveGasTip (tx_inner tx) baseFee))"

abbreviation feeCap :: "Transaction \<Rightarrow> int" where "feeCap tx \<equiv> tx_gasFeeCap (tx_inner tx)"
abbreviation tipCap :: "Transaction \<Rightarrow> int" where "tipCap tx \<equiv> tx_gasTipCap (tx_inner tx)"

text \<open>Worse than: by effective tip, then fee cap, then tip cap.\<close>

definition worse :: "int option \<Rightarrow> Transaction \<Rightarrow> Transaction \<Rightarrow> bool" where
  "worse f a b \<longleftrightarrow> tip_at f a < tip_at f b \<or>
     tip_at f a = tip_at f b \<and> (feeCap a < feeCap b \<or> feeCap a = feeCap b \<and> tipCap a < tipCap b)"

lemma ph_cmp_worse: "ph_cmp f a b = (if worse f a b then - 1 else if worse f b a then 1 else 0)"
proof (cases f)
  case None
  then show ?thesis by (auto simp: ph_cmp_def big_Cmp_def worse_def tip_at_def)
next
  case (Some x)
  then show ?thesis by (auto simp: ph_cmp_def EffectiveGasTipCmp_def big_Cmp_def worse_def tip_at_def)
qed

lemma worse_order:
  "worse f a b \<Longrightarrow> \<not> worse f b a"
  "\<not> worse f a b \<Longrightarrow> \<not> worse f b c \<Longrightarrow> \<not> worse f a c"
  by (auto simp: worse_def)

lemma ph_less_worse:
  "ph_less f a b \<longleftrightarrow> worse f a b \<or> \<not> worse f b a \<and> tx_nonce (tx_inner a) > tx_nonce (tx_inner b)"
  using worse_order(1) [of f a b] by (simp add: ph_less_def ph_cmp_worse)

lemma ph_less_asym: "ph_less f a b \<Longrightarrow> \<not> ph_less f b a"
  using worse_order(1) [of f a b] unfolding ph_less_worse by (metis order.asym)

lemma ph_less_negtrans:
  assumes "\<not> ph_less f a b" and "\<not> ph_less f b c"
  shows "\<not> ph_less f a c"
proof -
  have w: "\<not> worse f a b" "\<not> worse f b c" using assms unfolding ph_less_worse by blast+
  then have ac: "\<not> worse f a c" by (rule worse_order(2))
  show ?thesis
  proof (cases "worse f c a")
    case True
    then show ?thesis using ac unfolding ph_less_worse by blast
  next
    case False
    have "\<not> worse f b a" "\<not> worse f c b" using worse_order(2) w False by blast+
    then have "tx_nonce (tx_inner a) \<le> tx_nonce (tx_inner b)" "tx_nonce (tx_inner b) \<le> tx_nonce (tx_inner c)"
      using assms unfolding ph_less_worse not_less [symmetric] by blast+
    then have "\<not> tx_nonce (tx_inner a) > tx_nonce (tx_inner c)" by (meson leD order_trans)
    then show ?thesis using ac unfolding ph_less_worse by blast
  qed
qed

interpretation price: heap_order "ph_less f" for f
  by unfold_locales (rule ph_less_asym ph_less_negtrans; assumption)+

definition ph_ok :: "priceHeap \<Rightarrow> bool" where
  "ph_ok h \<longleftrightarrow> heap_ok (ph_less (ph_baseFee h)) 0 (length (ph_list h)) (ph_list h)"

lemma ph_Push_ok:
  assumes "ph_ok h"
  shows "ph_ok (ph_Push tx h)" "mset (ph_list (ph_Push tx h)) = add_mset tx (mset (ph_list h))"
  using price.Push_ok [OF assms [unfolded ph_ok_def], of tx] by (simp_all add: ph_ok_def ph_Push_def)

lemma ph_Pop_ok:
  assumes "ph_ok h" and "ph_list h \<noteq> []"
  shows "ph_ok (snd (ph_Pop h))" "fst (ph_Pop h) = ph_list h ! 0"
    "mset (ph_list h) = add_mset (ph_list h ! 0) (mset (ph_list (snd (ph_Pop h))))"
  using price.Pop_ok [OF assms(1) [unfolded ph_ok_def] assms(2)] by (simp_all add: ph_ok_def ph_Pop_def case_prod_beta)

lemma ph_Init_ok: "ph_ok (ph_Init h)" "mset (ph_list (ph_Init h)) = mset (ph_list h)"
  using price.Init_ok [of "ph_baseFee h" "ph_list h"] by (simp_all add: ph_ok_def ph_Init_def)

lemma ph_best: "ph_ok h \<Longrightarrow> tx \<in> set (ph_list h) \<Longrightarrow> \<not> worse (ph_baseFee h) tx (ph_list h ! 0)"
  using price.heap_best_mem [of "ph_baseFee h" "ph_list h" tx] by (simp add: ph_ok_def ph_less_worse)

lemma ph_Push_all_ok:
  "ph_ok h \<Longrightarrow> ph_ok (fold ph_Push txs h) \<and> mset (ph_list (fold ph_Push txs h)) = mset txs + mset (ph_list h)"
  by (induction txs arbitrary: h) (simp_all add: ph_Push_ok)

section \<open>Live and stale entries\<close>

definition remote :: "Crypto \<Rightarrow> txLookup \<Rightarrow> Transaction \<Rightarrow> bool" where
  "remote cy all tx \<longleftrightarrow> lk_GetRemote (hash_of cy tx) all \<noteq> None"

definition entries_of :: "txPricedList \<Rightarrow> Transaction multiset" where
  "entries_of l = mset (ph_list (pl_urgent l)) + mset (ph_list (pl_floating l))"

definition live :: "Crypto \<Rightarrow> txLookup \<Rightarrow> txPricedList \<Rightarrow> Transaction multiset" where
  "live cy all l = filter_mset (remote cy all) (entries_of l)"

definition stale_count :: "Crypto \<Rightarrow> txLookup \<Rightarrow> txPricedList \<Rightarrow> int" where
  "stale_count cy all l = int (size (filter_mset (\<lambda>tx. \<not> remote cy all tx) (entries_of l)))"

definition pl_ok :: "txPricedList \<Rightarrow> bool" where
  "pl_ok l \<longleftrightarrow> ph_ok (pl_urgent l) \<and> ph_ok (pl_floating l)"

definition slots_of :: "Transaction list \<Rightarrow> int" where
  "slots_of txs = sum_list (map numSlots txs)"

lemma numSlots_nonneg [simp]: "0 \<le> numSlots tx"
  by (simp add: numSlots_def)

lemma drop_stale_ok:
  assumes "ph_ok h" and "drop_stale cy all h stales = (h', stales')"
  shows "ph_ok h' \<and> ph_baseFee h' = ph_baseFee h \<and>
    filter_mset (remote cy all) (mset (ph_list h')) = filter_mset (remote cy all) (mset (ph_list h)) \<and>
    stales' - int (size (filter_mset (\<lambda>tx. \<not> remote cy all tx) (mset (ph_list h')))) =
      stales - int (size (filter_mset (\<lambda>tx. \<not> remote cy all tx) (mset (ph_list h)))) \<and>
    (ph_list h' \<noteq> [] \<longrightarrow> remote cy all (ph_list h' ! 0))"
  using assms
proof (induction cy all h stales rule: drop_stale.induct)
  case (1 cy all h stales)
  show ?case
  proof (cases "ph_list h \<noteq> [] \<and> lk_GetRemote (hash_of cy (ph_list h ! 0)) all = None")
    case True
    note pop = ph_Pop_ok [OF 1(2) conjunct1 [OF True]]
    have "drop_stale cy all (snd (ph_Pop h)) (stales - 1) = (h', stales')"
      using True 1(3) by (simp add: drop_stale.simps [of cy all h])
    from 1(1) [OF _ pop(1) this] True pop(3) show ?thesis by (simp add: remote_def)
  next
    case False
    then have "h' = h" "stales' = stales" using 1(3) by (auto simp: drop_stale.simps [of cy all h])
    then show ?thesis using False 1(2) by (auto simp: remote_def)
  qed
qed

text \<open>What the index and the counter say about a list does not depend on where the entries are.\<close>

lemma live_cong: "entries_of l' = entries_of l \<Longrightarrow> live cy all l' = live cy all l \<and> stale_count cy all l' = stale_count cy all l"
  by (simp add: live_def stale_count_def)

lemma live_remove:
  assumes "entries_of l = add_mset tx (entries_of l')"
  shows "live cy all l = (if remote cy all tx then add_mset tx (live cy all l') else live cy all l')"
    and "stale_count cy all l = (if remote cy all tx then stale_count cy all l' else stale_count cy all l' + 1)"
  using assms by (simp_all add: live_def stale_count_def)

section \<open>Discarding\<close>

text \<open>
  What holds of the state of the \<open>Discard\<close> loop compared with the state \<open>l\<close> it started from: \<open>drp\<close> was
  dropped, \<open>slots\<close> are still to be freed.
\<close>

definition discarded :: "Crypto \<Rightarrow> txLookup \<Rightarrow> int \<Rightarrow> txPricedList \<Rightarrow> int \<Rightarrow> Transaction list \<Rightarrow> txPricedList \<Rightarrow> bool" where
  "discarded cy all want l slots drp l' \<longleftrightarrow>
     pl_ok l' \<and> live cy all l = mset drp + live cy all l' \<and>
     pl_stales l' - stale_count cy all l' = pl_stales l - stale_count cy all l \<and>
     (\<forall>tx \<in> set drp. remote cy all tx) \<and> slots = want - slots_of drp \<and>
     (drp \<noteq> [] \<longrightarrow> slots_of (butlast drp) < want)"

lemma discarded_stale:
  assumes "discarded cy all want l slots drp l1" and "entries_of l1 = add_mset tx (entries_of l2)" and "\<not> remote cy all tx"
    and "pl_ok l2" and "pl_stales l2 = pl_stales l1 - 1"
  shows "discarded cy all want l slots drp l2"
  using assms(1,3-5) live_remove [OF assms(2), of cy all] by (simp add: discarded_def)

lemma discarded_move:
  assumes "discarded cy all want l slots drp l1" and "entries_of l2 = entries_of l1"
    and "pl_ok l2" and "pl_stales l2 = pl_stales l1"
  shows "discarded cy all want l slots drp l2"
  using assms(1,3,4) live_cong [OF assms(2), of cy all] by (simp add: discarded_def)

lemma discarded_drop:
  assumes "discarded cy all want l slots drp l1" and "entries_of l1 = add_mset tx (entries_of l2)" and "remote cy all tx"
    and "pl_ok l2" and "pl_stales l2 = pl_stales l1" and "0 < slots"
  shows "discarded cy all want l (slots - numSlots tx) (drp @ [tx]) l2"
  using assms(1,3-6) live_remove [OF assms(2), of cy all] by (simp add: discarded_def slots_of_def)

lemma discard_loop_ok:
  assumes "discarded cy all want l0 slots drp l" and "discard_loop cy all slots drp l = (slots', drp', l')"
  shows "discarded cy all want l0 slots' drp' l' \<and> (slots' \<le> 0 \<or> entries_of l' = {#})"
  using assms
proof (induction cy all slots drp l rule: discard_loop.induct)
  case (1 cy all slots drp l)
  note prems = 1(5,6) and unfold = discard_loop.simps [of cy all slots drp l]
  have ok: "ph_ok (pl_urgent l)" "ph_ok (pl_floating l)" using prems(1) by (simp_all add: discarded_def pl_ok_def)
  let ?u = "ph_list (pl_urgent l)" and ?f = "ph_list (pl_floating l)"
  let ?pu = "ph_Pop (pl_urgent l)" and ?pf = "ph_Pop (pl_floating l)"
  consider (done') "\<not> 0 < slots"
    | (urgent) "0 < slots" "length ?u * floatingRatio > length ?f * urgentRatio \<or> floatingRatio = 0"
    | (empty) "0 < slots" "\<not> (length ?u * floatingRatio > length ?f * urgentRatio \<or> floatingRatio = 0)" "?f = []"
    | (floating) "0 < slots" "\<not> (length ?u * floatingRatio > length ?f * urgentRatio \<or> floatingRatio = 0)" "?f \<noteq> []"
    by (cases "0 < slots"; cases "?f = []") metis+
  then show ?case
  proof cases
    case done'
    then show ?thesis using prems unfold by simp
  next
    case urgent
    then have ne: "?u \<noteq> []" by (auto simp: floatingRatio_def)
    note pop = ph_Pop_ok [OF ok(1) ne]
    show ?thesis
    proof (cases "lk_GetRemote (hash_of cy (fst ?pu)) all = None")
      case True
      let ?l = "l\<lparr>pl_urgent := snd ?pu, pl_stales := pl_stales l - 1\<rparr>"
      have "discard_loop cy all slots drp ?l = (slots', drp', l')" using prems(2) unfold urgent True by (simp add: Let_def)
      moreover have "discarded cy all want l0 slots drp ?l"
        by (rule discarded_stale [OF prems(1), of "?u ! 0"])
           (use True pop ok in \<open>simp_all add: entries_of_def remote_def pl_ok_def\<close>)
      ultimately show ?thesis using 1(1) [OF _ _ refl True] urgent by simp
    next
      case False
      let ?l = "l\<lparr>pl_urgent := snd ?pu, pl_floating := ph_Push (fst ?pu) (pl_floating l)\<rparr>"
      have "discard_loop cy all slots drp ?l = (slots', drp', l')" using prems(2) unfold urgent False by (simp add: Let_def)
      moreover have "discarded cy all want l0 slots drp ?l"
        by (rule discarded_move [OF prems(1)])
           (use pop ok ph_Push_ok [OF ok(2)] in \<open>simp_all add: entries_of_def pl_ok_def\<close>)
      ultimately show ?thesis using 1(2) [OF _ _ refl False] urgent by simp
    qed
  next
    case empty
    then have "?u = []" by (simp add: floatingRatio_def)
    then show ?thesis using prems unfold empty by (simp add: entries_of_def)
  next
    case floating
    note pop = ph_Pop_ok [OF ok(2) floating(3)]
    show ?thesis
    proof (cases "lk_GetRemote (hash_of cy (fst ?pf)) all = None")
      case True
      let ?l = "l\<lparr>pl_floating := snd ?pf, pl_stales := pl_stales l - 1\<rparr>"
      have "discard_loop cy all slots drp ?l = (slots', drp', l')" using prems(2) unfold floating True by (simp add: Let_def)
      moreover have "discarded cy all want l0 slots drp ?l"
        by (rule discarded_stale [OF prems(1), of "?f ! 0"])
           (use True pop ok in \<open>simp_all add: entries_of_def remote_def pl_ok_def\<close>)
      ultimately show ?thesis using 1(3) [OF _ _ _ refl True] floating by simp
    next
      case False
      let ?l = "l\<lparr>pl_floating := snd ?pf\<rparr>"
      have "discard_loop cy all (slots - numSlots (fst ?pf)) (drp @ [fst ?pf]) ?l = (slots', drp', l')"
        using prems(2) unfold floating False by (simp add: Let_def)
      moreover have "discarded cy all want l0 (slots - numSlots (fst ?pf)) (drp @ [fst ?pf]) ?l"
        by (rule discarded_drop [OF prems(1)])
           (use False pop ok floating(1) in \<open>simp_all add: entries_of_def remote_def pl_ok_def\<close>)
      ultimately show ?thesis using 1(4) [OF _ _ _ refl False] floating by simp
    qed
  qed
qed

lemma sum_slots: "(\<Sum>tx \<in># mset txs. numSlots tx) = slots_of txs"
  by (induction txs) (simp_all add: slots_of_def)

section \<open>Underpriced transactions\<close>

lemma underpricedFor_ok:
  assumes ok: "ph_ok h" and run: "underpricedFor cy all h tx stales = (r, h', stales')"
  shows "ph_ok h' \<and> ph_baseFee h' = ph_baseFee h \<and>
    filter_mset (remote cy all) (mset (ph_list h')) = filter_mset (remote cy all) (mset (ph_list h)) \<and>
    stales' - int (size (filter_mset (\<lambda>tx. \<not> remote cy all tx) (mset (ph_list h')))) =
      stales - int (size (filter_mset (\<lambda>tx. \<not> remote cy all tx) (mset (ph_list h)))) \<and>
    (ph_list h' = [] \<longleftrightarrow> filter_mset (remote cy all) (mset (ph_list h)) = {#}) \<and>
    (r \<or> ph_list h' = [] \<longleftrightarrow> (\<forall>tx' \<in> set (ph_list h). remote cy all tx' \<longrightarrow> \<not> worse (ph_baseFee h) tx' tx))"
proof -
  obtain h1 s1 where d: "drop_stale cy all h stales = (h1, s1)" by fastforce
  have e: "h' = h1" "stales' = s1" "r \<longleftrightarrow> ph_list h1 \<noteq> [] \<and> ph_cmp (ph_baseFee h1) (ph_list h1 ! 0) tx \<ge> 0"
    using run d by (auto simp: underpricedFor_def split: if_splits)
  note facts = drop_stale_ok [OF ok d]
  have cmp: "ph_cmp (ph_baseFee h1) (ph_list h1 ! 0) tx \<ge> 0 \<longleftrightarrow> \<not> worse (ph_baseFee h1) (ph_list h1 ! 0) tx"
    by (simp add: ph_cmp_worse)
  have live: "tx' \<in> set (ph_list h1) \<and> remote cy all tx' \<longleftrightarrow> tx' \<in> set (ph_list h) \<and> remote cy all tx'" for tx'
    using arg_cong [OF conjunct1 [OF conjunct2 [OF conjunct2 [OF facts]]], of "\<lambda>m. tx' \<in># m"] by auto
  show ?thesis
  proof (cases "ph_list h1 = []")
    case True
    then show ?thesis using facts e live by auto
  next
    case False
    then have head: "ph_list h1 ! 0 \<in> set (ph_list h1)" "remote cy all (ph_list h1 ! 0)" using facts by auto
    have "ph_list h1 ! 0 \<in># filter_mset (remote cy all) (mset (ph_list h1))" using head by simp
    then have "filter_mset (remote cy all) (mset (ph_list h1)) \<noteq> {#}" by auto
    moreover have "\<not> worse (ph_baseFee h1) (ph_list h1 ! 0) tx \<longleftrightarrow>
        (\<forall>tx' \<in> set (ph_list h1). remote cy all tx' \<longrightarrow> \<not> worse (ph_baseFee h1) tx' tx)"
      using head ph_best [of h1] facts worse_order(2) by blast
    ultimately show ?thesis using facts e cmp live False by auto
  qed
qed

section \<open>Rebuilding the heaps\<close>

lemma range_loop_all:
  "range_loop (\<lambda>h tx local s. (True, g h tx local s)) b es s = (True, fold (\<lambda>(h, tx). g h tx b) es s)"
  by (induction es arbitrary: s) auto

lemma reheap_collect_eq:
  "reheap_collect all l =
     l\<lparr>pl_stales := 0, pl_urgent := (pl_urgent l)\<lparr>ph_list := map snd (lk_remotes all)\<rparr>\<rparr>"
proof -
  have "fold (\<lambda>(h, tx) l. l\<lparr>pl_urgent := (pl_urgent l)\<lparr>ph_list := ph_list (pl_urgent l) @ [tx]\<rparr>\<rparr>) es l =
      l\<lparr>pl_urgent := (pl_urgent l)\<lparr>ph_list := ph_list (pl_urgent l) @ map snd es\<rparr>\<rparr>" for es :: "(hash, Transaction) entries" and l :: txPricedList
    by (induction es arbitrary: l) auto
  then show ?thesis by (simp add: reheap_collect_def lk_Range_def range_loop_all)
qed

lemma reheap_move_ok:
  assumes "ph_ok h" and "n \<le> length (ph_list h)" and "reheap_move n h = (txs, h')"
  shows "ph_ok h' \<and> ph_baseFee h' = ph_baseFee h \<and> length txs = n \<and> mset (ph_list h) = mset txs + mset (ph_list h') \<and>
    (\<forall>tx \<in> set txs. \<forall>tx' \<in> set (ph_list h'). \<not> worse (ph_baseFee h) tx' tx)"
  using assms
proof (induction n arbitrary: h txs)
  case 0
  then show ?case by auto
next
  case (Suc n)
  obtain tx h1 where p: "ph_Pop h = (tx, h1)" by fastforce
  obtain txs1 where m: "reheap_move n h1 = (txs1, h')" "txs = tx # txs1"
    using Suc.prems(3) p by (auto simp: Let_def split: prod.splits)
  have ne: "ph_list h \<noteq> []" using Suc.prems(2) by auto
  note pop = ph_Pop_ok [OF Suc.prems(1) ne] and len = length_ph_Pop [OF ne]
  have b: "ph_baseFee h1 = ph_baseFee h" using ph_simps(3) [of h] p by simp
  have IH: "ph_ok h' \<and> ph_baseFee h' = ph_baseFee h1 \<and> length txs1 = n \<and> mset (ph_list h1) = mset txs1 + mset (ph_list h') \<and>
      (\<forall>tx \<in> set txs1. \<forall>tx' \<in> set (ph_list h'). \<not> worse (ph_baseFee h1) tx' tx)"
    using Suc.IH [OF _ _ m(1)] pop(1) len Suc.prems(2) p by simp
  have "tx' \<in> set (ph_list h)" if "tx' \<in> set (ph_list h')" for tx'
  proof -
    have "tx' \<in># mset (ph_list h)" using that pop(3) IH p by simp
    then show ?thesis by simp
  qed
  then show ?case using IH pop m(2) p b ph_best [OF Suc.prems(1)] by simp
qed

section \<open>The index\<close>

definition lk_ok :: "Crypto \<Rightarrow> txLookup \<Rightarrow> bool" where
  "lk_ok cy t \<longleftrightarrow>
     wf_entries (lk_locals t) \<and> wf_entries (lk_remotes t) \<and>
     (\<forall>h tx. lk_GetLocal h t = Some tx \<or> lk_GetRemote h t = Some tx \<longrightarrow> hash_of cy tx = h) \<and>
     (\<forall>h. lk_GetLocal h t = None \<or> lk_GetRemote h t = None) \<and>
     lk_slots t = slots_of (map snd (lk_locals t)) + slots_of (map snd (lk_remotes t))"

lemma slots_update:
  "k \<notin> set (keys m) \<Longrightarrow> slots_of (map snd (AList.update k v m)) = slots_of (map snd m) + numSlots v"
  by (induction m) (auto simp: slots_of_def)

lemma slots_delete:
  "wf_entries m \<Longrightarrow> map_of m k = Some v \<Longrightarrow> slots_of (map snd m) = slots_of (map snd (AList.delete k m)) + numSlots v"
proof (induction m)
  case Nil
  then show ?case by simp
next
  case (Cons e m)
  have "k \<notin> fst ` set m \<Longrightarrow> AList.delete k m = m" by (simp add: delete_idem)
  then show ?case using Cons by (cases e) (auto simp: slots_of_def wf_entries_def keys_def split: if_splits)
qed

lemma delete_absent: "map_of m k = None \<Longrightarrow> AList.delete k m = m"
  by (simp add: delete_idem map_of_eq_None_iff)

lemmas lk_gets = lk_Get_def lk_GetLocal_def lk_GetRemote_def

lemma lk_Add_ok:
  assumes "lk_ok cy t" and "lk_Get (hash_of cy tx) t = None"
  shows "lk_ok cy (lk_Add cy tx local t)"
    and "lk_Get h (lk_Add cy tx local t) = (if h = hash_of cy tx then Some tx else lk_Get h t)"
  using assms slots_update [of "hash_of cy tx" "lk_locals t" tx] slots_update [of "hash_of cy tx" "lk_remotes t" tx]
  by (auto simp: lk_ok_def lk_Add_def lk_gets Let_def in_keys_iff split: option.splits if_splits)

lemma lk_Remove_ok:
  assumes "lk_ok cy t"
  shows "lk_ok cy (lk_Remove h t)" and "lk_Get h' (lk_Remove h t) = (if h' = h then None else lk_Get h' t)"
proof -
  show "lk_Get h' (lk_Remove h t) = (if h' = h then None else lk_Get h' t)"
    by (auto simp: lk_Remove_def lk_gets delete_conv' split: option.splits)
  show "lk_ok cy (lk_Remove h t)"
  proof (cases "map_of (lk_locals t) h")
    case (Some tx)
    then have "map_of (lk_remotes t) h = None" using assms unfolding lk_ok_def lk_gets by (metis option.distinct(1))
    then show ?thesis using assms Some slots_delete [of "lk_locals t" h tx]
      by (auto simp: lk_ok_def lk_Remove_def lk_gets delete_conv' delete_absent split: if_splits)
  next
    case None
    then show ?thesis using assms slots_delete [of "lk_remotes t" h]
      by (auto simp: lk_ok_def lk_Remove_def lk_gets delete_conv' delete_absent split: option.splits if_splits)
  qed
qed

lemma migrate_ok:
  assumes "lk_ok cy t" and "map_of (lk_remotes t) h = Some tx"
  shows "lk_ok cy (migrate h tx t)" "lk_Get h' (migrate h tx t) = lk_Get h' t"
    "lk_GetRemote h' (migrate h tx t) = (if h' = h then None else lk_GetRemote h' t)"
proof -
  have l: "map_of (lk_locals t) h = None" using assms by (auto simp: lk_ok_def lk_gets)
  then show "lk_ok cy (migrate h tx t)" "lk_Get h' (migrate h tx t) = lk_Get h' t"
    "lk_GetRemote h' (migrate h tx t) = (if h' = h then None else lk_GetRemote h' t)"
    using assms slots_update [of h "lk_locals t" tx] slots_delete [of "lk_remotes t" h tx]
    by (auto simp: lk_ok_def migrate_def lk_gets delete_conv' in_keys_iff split: option.splits)
qed

lemma migrate_all:
  assumes "lk_ok cy t" and "distinct (map fst es)" and "\<forall>(h, tx) \<in> set es. map_of (lk_remotes t) h = Some tx"
  shows "let (n', t') = fold (migrate_local cy locals) es (n, t) in
    n' = n + length (filter (\<lambda>e. as_containsTx cy (snd e) locals) es) \<and> lk_ok cy t' \<and>
    (\<forall>h. lk_Get h t' = lk_Get h t) \<and>
    (\<forall>h. lk_GetRemote h t' =
       (case map_of es h of Some tx \<Rightarrow> if as_containsTx cy tx locals then None else Some tx | None \<Rightarrow> lk_GetRemote h t))"
  using assms
proof (induction es arbitrary: n t)
  case Nil
  then show ?case by simp
next
  case (Cons e es)
  obtain h tx where e: "e = (h, tx)" by (cases e)
  have r: "map_of (lk_remotes t) h = Some tx" using Cons.prems(3) e by auto
  have n: "map_of es h = None" using Cons.prems(2) e by (simp add: map_of_eq_None_iff)
  obtain n1 t1 where one: "migrate_local cy locals e (n, t) = (n1, t1)" by fastforce
  have t1: "n1 = n + (if as_containsTx cy tx locals then 1 else 0)" "lk_ok cy t1" "\<forall>h'. lk_Get h' t1 = lk_Get h' t"
      "\<forall>h'. lk_GetRemote h' t1 = (if h' = h \<and> as_containsTx cy tx locals then None else lk_GetRemote h' t)"
    using one Cons.prems(1) migrate_ok [OF Cons.prems(1) r] by (auto simp: migrate_local_def e split: if_splits)
  have "\<forall>(h', tx') \<in> set es. map_of (lk_remotes t1) h' = Some tx'"
    using Cons.prems(2,3) e t1(4) by (force simp: lk_GetRemote_def)
  note IH = Cons.IH [OF t1(2) _ this, of n1]
  obtain n' t' where f: "fold (migrate_local cy locals) es (n1, t1) = (n', t')" by fastforce
  have facts: "n' = n1 + length (filter (\<lambda>e. as_containsTx cy (snd e) locals) es)" "lk_ok cy t'"
      "\<forall>h. lk_Get h t' = lk_Get h t1"
      "\<forall>h'. lk_GetRemote h' t' = (case map_of es h' of
        Some tx \<Rightarrow> if as_containsTx cy tx locals then None else Some tx | None \<Rightarrow> lk_GetRemote h' t1)"
    using IH Cons.prems(2) unfolding f by simp_all
  have "lk_GetRemote h' t' = (case map_of (e # es) h' of
      Some tx \<Rightarrow> if as_containsTx cy tx locals then None else Some tx | None \<Rightarrow> lk_GetRemote h' t)" for h'
    using facts(4) n t1(4) r [folded lk_GetRemote_def]
    by (cases "h' = h"; cases "map_of es h'") (simp_all add: e)
  moreover have "fold (migrate_local cy locals) (e # es) (n, t) = (n', t')" using f one by simp
  ultimately show ?case using facts(1-3) t1(1,3) by (simp add: e)
qed

lemma RemoteToLocals_ok:
  assumes "lk_ok cy t" and "lk_RemoteToLocals cy locals t = (n, t')"
  shows "n = length (filter (\<lambda>e. as_containsTx cy (snd e) locals) (lk_remotes t))" "lk_ok cy t'"
    "lk_Get h t' = lk_Get h t"
    "lk_GetRemote h t' = (case lk_GetRemote h t of
       Some tx \<Rightarrow> if as_containsTx cy tx locals then None else Some tx | None \<Rightarrow> None)"
proof -
  have d: "distinct (map fst (lk_remotes t))" using assms(1) by (simp add: lk_ok_def wf_entries_def keys_def)
  then have "\<forall>(h, tx) \<in> set (lk_remotes t). map_of (lk_remotes t) h = Some tx" by auto
  from migrate_all [OF assms(1) d this, of locals 0]
  show "n = length (filter (\<lambda>e. as_containsTx cy (snd e) locals) (lk_remotes t))" "lk_ok cy t'"
    "lk_Get h t' = lk_Get h t"
    "lk_GetRemote h t' = (case lk_GetRemote h t of
       Some tx \<Rightarrow> if as_containsTx cy tx locals then None else Some tx | None \<Rightarrow> None)"
    using assms(2) by (auto simp: lk_RemoteToLocals_def lk_GetRemote_def split: option.splits)
qed

section \<open>Properties\<close>

text \<open>
  C25. Making room in a full pool is exact: for a number of slots, \<open>Discard\<close> always returns. It drops
  only remote transactions still in the pool, each once, frees at least the slots asked for (unless
  forced and nothing is left) and would not have freed enough without the last one dropped; when it
  gives up, the live transactions together take fewer slots than asked for and every one of them is
  still listed. In each case dropped and remaining live transactions together are the ones before,
  both heaps stay ordered and the stale counter keeps counting the stale entries.
\<close>

theorem Discard_exact:
  assumes "pl_ok l" and "0 \<le> slots"
  shows "\<exists>drp ok l'. pl_Discard cy all slots force l = Inr ((drp, ok), l') \<and> pl_ok l' \<and>
    live cy all l = mset drp + live cy all l' \<and> (\<forall>tx \<in> set drp. remote cy all tx) \<and>
    pl_stales l' - stale_count cy all l' = pl_stales l - stale_count cy all l \<and>
    (if ok then (slots \<le> slots_of drp \<or> force \<and> live cy all l' = {#}) \<and> (drp \<noteq> [] \<longrightarrow> slots_of (butlast drp) < slots)
     else \<not> force \<and> drp = [] \<and> (\<Sum>tx \<in># live cy all l. numSlots tx) < slots)"
proof -
  obtain s1 d1 l1 where run: "discard_loop cy all slots [] l = (s1, d1, l1)" by (metis prod_cases3)
  have "discarded cy all slots l slots [] l" using assms(1) by (simp add: discarded_def slots_of_def)
  from discard_loop_ok [OF this run]
  have d: "discarded cy all slots l s1 d1 l1" and fin: "s1 \<le> 0 \<or> entries_of l1 = {#}" by auto
  show ?thesis
  proof (cases "s1 > 0 \<and> \<not> force")
    case True
    let ?l = "l1\<lparr>pl_urgent := fold ph_Push d1 (pl_urgent l1)\<rparr>"
    have run': "pl_Discard cy all slots force l = Inr (([], False), ?l)" using True run assms(2) by (simp add: pl_Discard_def)
    have e: "entries_of l1 = {#}" using fin True by simp
    have push: "ph_ok (fold ph_Push d1 (pl_urgent l1))"
        "mset (ph_list (fold ph_Push d1 (pl_urgent l1))) = mset d1 + mset (ph_list (pl_urgent l1))"
      using ph_Push_all_ok [of "pl_urgent l1" d1] d by (simp_all add: discarded_def pl_ok_def)
    have es: "entries_of ?l = mset d1" using push(2) e by (simp add: entries_of_def)
    have rem: "\<forall>tx \<in> set d1. remote cy all tx" using d by (simp add: discarded_def)
    have live: "live cy all ?l = mset d1" "stale_count cy all ?l = 0" "live cy all l = mset d1" "stale_count cy all l1 = 0"
      using es rem d e by (simp_all add: live_def stale_count_def filter_mset_eq_conv discarded_def)
    moreover have "slots_of d1 < slots" using d True by (simp add: discarded_def)
    ultimately show ?thesis using run' push(1) d True
      by (intro exI [of _ "[]"] exI [of _ False] exI [of _ ?l]) (simp add: discarded_def pl_ok_def sum_slots)
  next
    case False
    have run': "pl_Discard cy all slots force l = Inr ((d1, True), l1)" using False run assms(2) by (auto simp: pl_Discard_def)
    have "slots \<le> slots_of d1 \<or> force \<and> live cy all l1 = {#}"
      using False fin d by (auto simp: discarded_def live_def)
    then show ?thesis using run' d by (intro exI [of _ d1] exI [of _ True] exI [of _ l1]) (simp add: discarded_def)
  qed
qed

text \<open>
  C26. \<open>Underpriced\<close> judges by live transactions only: it is true exactly when the pool lists some
  remote transaction and none of them, in either heap, is worse than the new one by that heap's
  order. Looking removes nothing but stale entries and accounts for them.
\<close>

theorem Underpriced_exact:
  assumes "pl_ok l" and "pl_Underpriced cy all tx l = (r, l')"
  shows "pl_ok l' \<and> live cy all l' = live cy all l \<and>
    pl_stales l' - stale_count cy all l' = pl_stales l - stale_count cy all l \<and>
    (r \<longleftrightarrow> live cy all l \<noteq> {#} \<and>
       (\<forall>tx' \<in> set (ph_list (pl_urgent l)). remote cy all tx' \<longrightarrow> \<not> worse (ph_baseFee (pl_urgent l)) tx' tx) \<and>
       (\<forall>tx' \<in> set (ph_list (pl_floating l)). remote cy all tx' \<longrightarrow> \<not> worse (ph_baseFee (pl_floating l)) tx' tx))"
proof -
  have ok: "ph_ok (pl_urgent l)" "ph_ok (pl_floating l)" using assms(1) by (simp_all add: pl_ok_def)
  obtain u hu su where u: "underpricedFor cy all (pl_urgent l) tx (pl_stales l) = (u, hu, su)" by (metis prod_cases3)
  obtain f hf sf where f: "underpricedFor cy all (pl_floating l) tx su = (f, hf, sf)" by (metis prod_cases3)
  note U = underpricedFor_ok [OF ok(1) u] and F = underpricedFor_ok [OF ok(2) f]
  show ?thesis
  proof (cases "u \<or> ph_list hu = []")
    case False
    then have "r = False" "l' = l\<lparr>pl_urgent := hu, pl_stales := su\<rparr>"
      using assms(2) u by (auto simp: pl_Underpriced_def Let_def)
    then show ?thesis using U False ok by (simp add: pl_ok_def live_def stale_count_def entries_of_def)
  next
    case True
    then have r: "r \<longleftrightarrow> (f \<or> ph_list hf = []) \<and> (ph_list hu \<noteq> [] \<or> ph_list hf \<noteq> [])"
      and l': "l' = l\<lparr>pl_urgent := hu, pl_floating := hf, pl_stales := sf\<rparr>"
      using assms(2) u f by (auto simp: pl_Underpriced_def Let_def split: if_splits)
    have "ph_list hu \<noteq> [] \<or> ph_list hf \<noteq> [] \<longleftrightarrow> live cy all l \<noteq> {#}"
      using U F unfolding live_def entries_of_def filter_union_mset union_eq_empty by blast
    then have "r \<longleftrightarrow> live cy all l \<noteq> {#} \<and>
       (\<forall>tx' \<in> set (ph_list (pl_urgent l)). remote cy all tx' \<longrightarrow> \<not> worse (ph_baseFee (pl_urgent l)) tx' tx) \<and>
       (\<forall>tx' \<in> set (ph_list (pl_floating l)). remote cy all tx' \<longrightarrow> \<not> worse (ph_baseFee (pl_floating l)) tx' tx)"
      using r U F True by blast
    moreover have "live cy all l' = live cy all l" "pl_ok l'"
      "pl_stales l' - stale_count cy all l' = pl_stales l - stale_count cy all l"
      using U F unfolding l' by (auto simp: pl_ok_def live_def stale_count_def entries_of_def)
    ultimately show ?thesis by blast
  qed
qed

text \<open>
  C27. The index is a consistent set of transactions and counts its slots exactly: transactions stay
  under their own hash, no hash is both local and remote, and the slot counter is the sum over all
  transactions, through adding a new transaction, removing any hash and declaring accounts local.
  Adding makes exactly that transaction found, removing exactly that hash not found, and declaring
  accounts local only moves their transactions out of the remote part, counting them.
\<close>

theorem txLookup_exact:
  assumes "lk_ok cy t"
  shows "lk_ok cy (lk_Remove h t) \<and> (\<forall>h'. lk_Get h' (lk_Remove h t) = (if h' = h then None else lk_Get h' t)) \<and>
    (lk_Get (hash_of cy tx) t = None \<longrightarrow>
       lk_ok cy (lk_Add cy tx local t) \<and>
       (\<forall>h'. lk_Get h' (lk_Add cy tx local t) = (if h' = hash_of cy tx then Some tx else lk_Get h' t))) \<and>
    (case lk_RemoteToLocals cy locals t of (n, t') \<Rightarrow>
       lk_ok cy t' \<and> n = length (filter (\<lambda>e. as_containsTx cy (snd e) locals) (lk_remotes t)) \<and>
       (\<forall>h'. lk_Get h' t' = lk_Get h' t) \<and>
       (\<forall>h'. lk_GetRemote h' t' = (case lk_GetRemote h' t of
          Some tx \<Rightarrow> if as_containsTx cy tx locals then None else Some tx | None \<Rightarrow> None)))"
  using lk_Remove_ok [OF assms] lk_Add_ok [OF assms] RemoteToLocals_ok [OF assms, of locals]
  by (auto split: prod.splits)

definition poolTx :: "int \<Rightarrow> Transaction" where
  "poolTx price = NewTx 0 (LegacyD \<lparr>ltx_Nonce = 0, ltx_GasPrice = price, ltx_Gas = 21000, ltx_To = Some 9,
     ltx_Value = 5, ltx_Data = [], ltx_V = 27, ltx_R = 1, ltx_S = 1\<rparr>)"

definition examplePriced :: txPricedList where
  "examplePriced = pl_Put (poolTx 7) False newTxPricedList"

lemma newTxLookup_ok: "lk_ok cy newTxLookup"
  by (simp add: lk_ok_def newTxLookup_def lk_gets slots_of_def)

lemma examplePriced_ok: "pl_ok examplePriced" "entries_of examplePriced = {#poolTx 7#}"
proof -
  have "ph_ok \<lparr>ph_baseFee = None, ph_list = []\<rparr>" by (simp add: ph_ok_def heap_ok_def)
  from this ph_Push_ok [OF this, of "poolTx 7"] show "pl_ok examplePriced" "entries_of examplePriced = {#poolTx 7#}"
    by (simp_all add: examplePriced_def pl_Put_def newTxPricedList_def pl_ok_def entries_of_def)
qed

lemma example_remote: "remote cy (lk_Add cy tx False newTxLookup) tx"
  by (simp add: remote_def lk_GetRemote_def lk_Add_def newTxLookup_def)

theorem txLookup_exact_witness:
  "lk_slots (lk_Add exampleCrypto (poolTx 7) False newTxLookup) = numSlots (poolTx 7)"
proof -
  let ?t = "lk_Add exampleCrypto (poolTx 7) False newTxLookup"
  have "lk_Get (hash_of exampleCrypto (poolTx 7)) newTxLookup = None" by (simp add: newTxLookup_def lk_gets)
  then have "lk_ok exampleCrypto (lk_Add exampleCrypto (poolTx 7) False newTxLookup)"
    by (rule txLookup_exact [OF newTxLookup_ok, THEN conjunct2, THEN conjunct2, THEN conjunct1, THEN mp, THEN conjunct1])
  then have "lk_slots ?t = slots_of (map snd (lk_locals ?t)) + slots_of (map snd (lk_remotes ?t))"
    unfolding lk_ok_def by (elim conjE)
  then show ?thesis by (simp add: lk_Add_def newTxLookup_def slots_of_def)
qed

theorem Discard_exact_witness:
  "\<exists>drp l'. pl_Discard exampleCrypto (lk_Add exampleCrypto (poolTx 7) False newTxLookup) 1 True examplePriced = Inr ((drp, True), l') \<and>
     mset drp + live exampleCrypto (lk_Add exampleCrypto (poolTx 7) False newTxLookup) l' = {#poolTx 7#}"
proof -
  let ?all = "lk_Add exampleCrypto (poolTx 7) False newTxLookup"
  have "live exampleCrypto ?all examplePriced = {#poolTx 7#}"
    using examplePriced_ok(2) example_remote by (simp add: live_def)
  then show ?thesis
    using Discard_exact [OF examplePriced_ok(1), of 1 exampleCrypto ?all True] by (fastforce split: if_splits)
qed

theorem Underpriced_exact_witness:
  "fst (pl_Underpriced exampleCrypto (lk_Add exampleCrypto (poolTx 7) False newTxLookup) (poolTx 5) examplePriced)"
proof -
  let ?all = "lk_Add exampleCrypto (poolTx 7) False newTxLookup"
  obtain r l' where run: "pl_Underpriced exampleCrypto ?all (poolTx 5) examplePriced = (r, l')" by fastforce
  have live: "live exampleCrypto ?all examplePriced = {#poolTx 7#}"
    using examplePriced_ok(2) example_remote by (simp add: live_def)
  have "set (ph_list (pl_urgent examplePriced)) \<union> set (ph_list (pl_floating examplePriced)) = {poolTx 7}"
    using arg_cong [OF examplePriced_ok(2), of set_mset] by (simp add: entries_of_def)
  then have "set (ph_list (pl_urgent examplePriced)) \<subseteq> {poolTx 7}" "set (ph_list (pl_floating examplePriced)) \<subseteq> {poolTx 7}"
    by blast+
  moreover have "\<not> worse f (poolTx 7) (poolTx 5)" if "f = None" for f
    using that by (simp add: worse_def tip_at_def poolTx_def NewTx_def)
  moreover have "ph_baseFee (pl_urgent examplePriced) = None" "ph_baseFee (pl_floating examplePriced) = None"
    by (simp_all add: examplePriced_def pl_Put_def newTxPricedList_def)
  ultimately have r by (subst Underpriced_exact [OF examplePriced_ok(1) run, THEN conjunct2, THEN conjunct2, THEN conjunct2]) (auto simp: live)
  then show ?thesis using run by simp
qed

text \<open>
  Rebuilding puts the pool's remote transactions, each once, into two ordered heaps with no stale
  entry, whatever the heaps held before. A fifth of them, rounded down, goes to the floating heap, and
  no transaction left in the urgent heap is worse than one that was moved. A new base fee only
  changes the order of the urgent heap.
\<close>

theorem Reheap_exact:
  fixes l :: txPricedList and baseFee :: "int option"
  assumes "lk_ok cy all"
  defines "l' \<equiv> pl_SetBaseFee all baseFee l"
  shows "pl_ok l' \<and> entries_of l' = mset (map snd (lk_remotes all)) \<and> live cy all l' = entries_of l' \<and>
    pl_stales l' = 0 \<and> ph_baseFee (pl_urgent l') = baseFee \<and> ph_baseFee (pl_floating l') = ph_baseFee (pl_floating l) \<and>
    length (ph_list (pl_floating l')) = lk_RemoteCount all div 5 \<and>
    (\<forall>tx \<in> set (ph_list (pl_floating l')). \<forall>tx' \<in> set (ph_list (pl_urgent l')). \<not> worse baseFee tx' tx)"
proof -
  let ?h = "ph_Init ((pl_urgent l)\<lparr>ph_baseFee := baseFee, ph_list := map snd (lk_remotes all)\<rparr>)" and ?n = "lk_RemoteCount all div 5"
  obtain moved urgent where m: "reheap_move ?n ?h = (moved, urgent)" by fastforce
  have init: "ph_ok ?h" "mset (ph_list ?h) = mset (map snd (lk_remotes all))" using ph_Init_ok by simp_all
  have len: "length (ph_list ?h) = lk_RemoteCount all"
    using arg_cong [OF init(2), of size] by (simp add: lk_RemoteCount_def)
  note M = reheap_move_ok [OF init(1) _ m]
  let ?f = "ph_Init ((pl_floating l)\<lparr>ph_list := moved\<rparr>)"
  have l': "l' = l\<lparr>pl_stales := 0, pl_urgent := urgent, pl_floating := ?f\<rparr>"
    using m len by (simp add: Let_def l'_def pl_SetBaseFee_def pl_Reheap_def reheap_collect_eq urgentRatio_def floatingRatio_def)
  have f: "ph_ok ?f" "mset (ph_list ?f) = mset moved" using ph_Init_ok [of "(pl_floating l)\<lparr>ph_list := moved\<rparr>"] by simp_all
  have sf: "set (ph_list ?f) = set moved" "length (ph_list ?f) = length moved"
    using arg_cong [OF f(2), of set_mset] arg_cong [OF f(2), of size] by simp_all
  have M': "ph_ok urgent" "ph_baseFee urgent = baseFee" "length moved = ?n"
      "mset (map snd (lk_remotes all)) = mset moved + mset (ph_list urgent)"
      "\<forall>tx \<in> set moved. \<forall>tx' \<in> set (ph_list urgent). \<not> worse baseFee tx' tx"
    using M init(2) len by simp_all
  have e: "entries_of l' = mset (map snd (lk_remotes all))" using M'(4) f(2) by (simp add: l' entries_of_def)
  have "remote cy all tx" if mem: "tx \<in> set (map snd (lk_remotes all))" for tx
  proof -
    obtain h where h: "(h, tx) \<in> set (lk_remotes all)" using mem by auto
    then have "lk_GetRemote h all = Some tx" using assms(1) by (auto simp: lk_ok_def wf_entries_def keys_def lk_GetRemote_def)
    then show ?thesis using assms(1) by (auto simp: lk_ok_def remote_def)
  qed
  then have "live cy all l' = entries_of l'" unfolding live_def e by (simp add: filter_mset_eq_conv)
  then show ?thesis using e M' f(1) sf by (simp add: l' pl_ok_def)
qed

theorem Reheap_exact_witness:
  "entries_of (pl_SetBaseFee (lk_Add exampleCrypto (poolTx 7) False newTxLookup) (Some 3) newTxPricedList) = {#poolTx 7#}"
proof -
  have "lk_Get (hash_of exampleCrypto (poolTx 7)) newTxLookup = None" by (simp add: newTxLookup_def lk_gets)
  then have "lk_ok exampleCrypto (lk_Add exampleCrypto (poolTx 7) False newTxLookup)" by (rule lk_Add_ok(1) [OF newTxLookup_ok])
  from Reheap_exact [OF this, where l = newTxPricedList and baseFee = "Some 3", THEN conjunct2, THEN conjunct1] show ?thesis
    by (simp add: lk_Add_def newTxLookup_def)
qed

end
