(* ===== verification/Spec2Isabelle.thy ===== *)
theory Spec2Isabelle
  imports
    Params Behavior Accounts StateDB StateRevert AccountOps Rewards
    RLP Header Transaction Signing SigningProps
    Relay PobSnapshot SnapshotProps
    FeeMarket AtomicTime Acks AcksProps Engine EngineProps EngineSnapshots
    Heap TxList TxListProps TxOrder TxPriced TxPricedProps
begin

text \<open>
  \<^bold>\<open>A verification of the Proof-of-Behavior chain.\<close> The program is a node of a block chain, in Go, in which
  validators are scored by their behaviour. A block producer takes transactions from the pool, assembles a
  header and seals it; the other nodes verify the header and the acknowledgements
  in the block, execute its transactions on the world state, pay the rewards and apply the header's votes and
  registrations to the snapshot of the validator set. The theories model these parts as
  pure functions over explicit states and prove what each of them promises.

  \<^bold>\<open>Conventions.\<close> An unsigned Go integer is a word of its width, so that sums wrap as in the code; a
  \<open>*big.Int\<close> is an integer, an option where the code meets nil; an address is a 160-bit and a hash a 256-bit word. A
  struct is a record whose fields carry a short prefix. An operation that may panic or return an error
  has a sum as its result (\<open>panic\<close> and the error types, \<open>Inl\<close> for the failure). A map that is always made is an association
  list (\<open>entries\<close>), one that may be nil a \<open>gomap\<close>; Go leaves the order of a range over a map open, the model
  takes the order of the entries. Hash functions, the curve, the Dilithium package, the signing
  function of a wallet and the clock are parameters or arguments, with what a theorem needs of them among its hypotheses.

  \<^bold>\<open>Shared theories.\<close> \<open>Prelude\<close>: the sum-type plumbing (\<open>bindE\<close>, \<open>foldE\<close>), big-endian bytes, Go's sort, words without
  overflow. \<open>GoMap\<close>: Go's maps, with the locale \<open>map_laws\<close> of their laws. \<open>Heap\<close>: \<open>container/heap\<close>, with the locale
  \<open>heap_order\<close> that its users interpret for nonces, fees and prices.

  \<^bold>\<open>Parameters and fee rules.\<close> \<open>Params\<close> (\<open>src/params\<close>): the configuration and the fork schedule; a changed configuration
  is reported exactly when a fork it compares was active differently at a block already passed, with a lower block to rewind to. \<open>FeeMarket\<close> (\<open>src/consensus/misc\<close>,
  \<open>src/core/block_validator.go\<close>): gas limits and base fees, with exact bounds on how far they move. \<open>AtomicTime\<close>
  (\<open>src/core/atomic/clock_sync.go\<close>): time stamps; decoding is the inverse of encoding and comparison is an order.

  \<^bold>\<open>Behaviour and the validator set.\<close> \<open>Behavior\<close> (\<open>src/consensus/pob/behavior.go\<close>): every score is the weighted mean of
  its dimensions, computed without overflow and within range, and slashing takes the stated part. \<open>Relay\<close>
  (\<open>relay_network.go\<close>): an agent gets the nearest relay with room, and rebalancing places every agent, beyond the limit of a relay only when all are full. \<open>PobSnapshot\<close>,
  \<open>SnapshotProps\<close> (\<open>snapshot.go\<close>): tallies count exactly the pending votes on every reachable snapshot, the validator set changes only by the votes of
  different signers, more of them than half of the validators (who are validators themselves only if the producers were), producers are drawn in proportion to their scores, registrations and checkpoint data survive the trip through a header, and
  with an epoch other than zero applying a run of headers never panics.

  \<^bold>\<open>The engine.\<close> \<open>Acks\<close>, \<open>AcksProps\<close> (\<open>src/core/blockchain.go\<close>): who may seal a block and the quorum of acknowledgements; an
  accepted block has more than a third of two or more validators behind it, and every validator has its turn. \<open>Engine\<close>
  (\<open>src/consensus/pob/pob.go\<close>, and the header of new work from \<open>src/miner/worker.go\<close>): verification, snapshots with their caches, preparing and sealing.
  \<open>EngineProps\<close>: verification ends; the exact verdict on a header an honest node produces, accepted except in the first London block and
  where a visual parent gives another base fee than the real parent, for gas limits of at least 8192 (\<open>honest_setting\<close> lists the conditions); along accepted headers gas limit, base fee,
  times and numbers stay in order; and two cases in which the signature check does not protect. \<open>EngineSnapshots\<close>: what comes out of
  the caches is the replay of the whole history.

  \<^bold>\<open>World state and rewards.\<close> \<open>Accounts\<close>, \<open>StateDB\<close>, \<open>StateRevert\<close> (\<open>src/core/state\<close>): accounts, journal and setters; reverting
  to a snapshot undoes every sequence of journalled steps. \<open>AccountOps\<close>: the operations of transactions to reserved addresses; value moves and is not
  created, and a vote that is not journalled survives a revert. \<open>Rewards\<close> (\<open>rewards_v2.go\<close>): the reward model mints exactly the block reward, which is
  bounded and fades as the gold reserve grows.

  \<^bold>\<open>Transactions.\<close> \<open>RLP\<close> (\<open>src/rlp\<close>): the buffered encoder computes the recursive definition, and splitting accepts exactly the canonical
  encodings. \<open>Header\<close>, \<open>Transaction\<close>, \<open>Signing\<close>, \<open>SigningProps\<close> (\<open>src/core/types\<close>): what a signature covers, that a signed transaction of any kind but Dilithium has its signer as sender, and
  that it cannot be replayed on another chain. \<open>TxList\<close>, \<open>TxPriced\<close>, \<open>TxOrder\<close> and their properties (\<open>src/core/tx_list.go\<close>, \<open>tx_pool.go\<close>,
  \<open>src/core/types/transaction.go\<close>): the nonce lists refine finite maps, the index is exact, a full pool drops only live remote transactions and just enough of them, and the
  producer takes the best-paying transaction first and every one in the end.

  \<^bold>\<open>Loops.\<close> Every loop is a terminating function but one: \<open>FindRealParentHeader\<close> is a \<open>partial_function\<close>, since a header store may answer
  in circles; it returns on every store that answers with the numbers it was asked for. No fuel is used.

  \<^bold>\<open>Not modelled.\<close> The steps of the transaction pool above its lists (\<open>add\<close>, promotion, truncation, \<open>reset\<close>) and its
  background loop; the insertion and reorganisation of blocks, which rest on the database and the tries; the interpreter
  of the virtual machine and the precompiled contracts; state roots and tries; networking, synchronisation, RPC, the command line and wallets, which are input and
  output; floating-point helpers of the clock; agent tries, score aggregation and node identities, the light exchange and the
  framing for radio links, which take no part in verifying or producing blocks. Locks are left out: an operation
  that holds a lock is one step.
\<close>

end
